(* ===== verification/Prelude.thy ===== *)
theory Prelude
  imports Main "HOL-Library.Word" "HOL-Library.AList" "HOL-Library.Multiset"
    "HOL-Library.List_Lexorder" "HOL-Library.Product_Lexorder"
begin

text \<open>
  Shared ground of the development: the types the Rust sources use everywhere (fixed-width
  integers, 32-byte arrays, \<^verbatim>\<open>Result\<close> with panics), the standard collections
  (\<^verbatim>\<open>HashMap\<close>, \<^verbatim>\<open>HashSet\<close>) and the lemmas on them that the component
  theories share.

  Conventions.
  \<^item> \<^verbatim>\<open>u8\<close> and \<^verbatim>\<open>u64\<close> are words of that width, so \<open>+\<close> wraps as in a
    build without overflow checks; every theorem that needs it states that no overflow happens.
  \<^item> A 32-byte array is the 256-bit word it spells in big-endian order: equality and the
    lexicographic order of the bytes are equality and the numeric order of the word.
  \<^item> A \<^verbatim>\<open>HashMap\<close> is an association list and a \<^verbatim>\<open>HashSet\<close> a list without
    repetition. The order of the list is the iteration order, which Rust leaves open: theorems
    are stated for every list, hence for every order.
  \<^item> \<^verbatim>\<open>Result\<close> is \<open>Ok\<close>/\<open>Err\<close>; a failing \<^verbatim>\<open>unwrap\<close>, index or
    \<^verbatim>\<open>panic!\<close> is the third value \<open>Panic\<close>. A method on \<^verbatim>\<open>&mut self\<close>
    returns its result and the state it leaves behind, also when the result is an error.
\<close>

named_theorems collection_simps \<open>what the operations on hash maps and hash sets compute\<close>
named_theorems result_simps \<open>how results are threaded\<close>

type_synonym u8 = "8 word"
type_synonym u64 = "64 word"
type_synonym bytes = "u8 list"
type_synonym hash32 = "256 word"

section \<open>Results\<close>

datatype ('e, 'a) result = Ok (unwrap: 'a) | Err (error: 'e) | Panic

primrec result_bind :: "('e, 'a) result \<Rightarrow> ('a \<Rightarrow> ('e, 'b) result) \<Rightarrow> ('e, 'b) result" where
  "result_bind (Ok a) f = f a"
| "result_bind (Err e) f = Err e"
| "result_bind Panic f = Panic"

primrec map_err :: "('e \<Rightarrow> 'f) \<Rightarrow> ('e, 'a) result \<Rightarrow> ('f, 'a) result" where
  "map_err h (Ok a) = Ok a"
| "map_err h (Err e) = Err (h e)"
| "map_err h Panic = Panic"

text \<open>\<^verbatim>\<open>ok_or\<close> on an option, and \<^verbatim>\<open>unwrap\<close>, which panics.\<close>

definition ok_or :: "'e \<Rightarrow> 'a option \<Rightarrow> ('e, 'a) result" where
  "ok_or e x = (case x of None \<Rightarrow> Err e | Some a \<Rightarrow> Ok a)"

definition unwrap_option :: "'a option \<Rightarrow> ('e, 'a) result" where
  "unwrap_option x = (case x of None \<Rightarrow> Panic | Some a \<Rightarrow> Ok a)"

primrec unwrap_result :: "('e, 'a) result \<Rightarrow> ('f, 'a) result" where
  "unwrap_result (Ok a) = Ok a"
| "unwrap_result (Err e) = Panic"
| "unwrap_result Panic = Panic"

definition unwrap_or :: "'a \<Rightarrow> ('e, 'a) result \<Rightarrow> 'a" where
  "unwrap_or d r = (case r of Ok a \<Rightarrow> a | _ \<Rightarrow> d)"

lemma result_bind_eq_Ok [result_simps]:
  "result_bind r f = Ok b \<longleftrightarrow> (\<exists>a. r = Ok a \<and> f a = Ok b)"
  by (cases r) auto

lemma result_bind_eq_Err [result_simps]:
  "result_bind r f = Err e \<longleftrightarrow> r = Err e \<or> (\<exists>a. r = Ok a \<and> f a = Err e)"
  by (cases r) auto

lemma ok_or_eq_Ok [result_simps]: "ok_or e x = Ok a \<longleftrightarrow> x = Some a"
  by (cases x) (auto simp: ok_or_def)

lemma unwrap_option_eq_Ok [result_simps]: "unwrap_option x = Ok a \<longleftrightarrow> x = Some a"
  by (cases x) (auto simp: unwrap_option_def)

text \<open>
  Sequencing of \<^verbatim>\<open>&mut self\<close> methods: the state a step leaves behind is kept when it fails.
\<close>

definition st_bind :: "('e, 'a) result \<times> 's \<Rightarrow> ('a \<Rightarrow> 's \<Rightarrow> ('e, 'b) result \<times> 's) \<Rightarrow> ('e, 'b) result \<times> 's" where
  "st_bind m f = (case m of (Ok a, s) \<Rightarrow> f a s | (Err e, s) \<Rightarrow> (Err e, s) | (Panic, s) \<Rightarrow> (Panic, s))"

lemma st_bind_simps [simp]:
  "st_bind (Ok a, s) f = f a s"
  "st_bind (Err e, s) f = (Err e, s)"
  "st_bind (Panic, s) f = (Panic, s)"
  by (simp_all add: st_bind_def)

lemma st_bind_Ok [result_simps]:
  "st_bind m f = (Ok b, s') \<longleftrightarrow> (\<exists>a s. m = (Ok a, s) \<and> f a s = (Ok b, s'))"
  by (cases m; cases "fst m") (auto simp: st_bind_def)

text \<open>A loop that asks every element and stops at the first negative answer.\<close>

fun check_all :: "('v \<Rightarrow> ('e, bool) result) \<Rightarrow> 'v list \<Rightarrow> ('e, bool) result" where
  "check_all f [] = Ok True"
| "check_all f (v # vs) = result_bind (f v) (\<lambda>b. if b then check_all f vs else Ok False)"

lemma check_all_True: "check_all f vs = Ok True \<longleftrightarrow> (\<forall>v \<in> set vs. f v = Ok True)"
  by (induction vs) (auto simp: result_simps)

lemma check_all_total:
  "(\<And>v. v \<in> set vs \<Longrightarrow> f v = Ok (g v)) \<Longrightarrow> check_all f vs = Ok (\<forall>v \<in> set vs. g v)"
  by (induction vs) auto

section \<open>Hash sets\<close>

type_synonym 'a hashset = "'a list"

definition hs_insert :: "'a \<Rightarrow> 'a hashset \<Rightarrow> 'a hashset" where
  "hs_insert x xs = (if x \<in> set xs then xs else xs @ [x])"

definition hs_remove :: "'a \<Rightarrow> 'a hashset \<Rightarrow> 'a hashset" where
  "hs_remove x xs = filter (\<lambda>y. y \<noteq> x) xs"

primrec hs_extend :: "'a hashset \<Rightarrow> 'a list \<Rightarrow> 'a hashset" where
  "hs_extend xs [] = xs"
| "hs_extend xs (y # ys) = hs_extend (hs_insert y xs) ys"

lemma set_hs_insert [simp]: "set (hs_insert x xs) = insert x (set xs)"
  by (auto simp: hs_insert_def)

lemma distinct_hs_insert [simp]: "distinct (hs_insert x xs) = distinct xs"
  by (auto simp: hs_insert_def)

lemma set_hs_remove [simp]: "set (hs_remove x xs) = set xs - {x}"
  by (auto simp: hs_remove_def)

lemma distinct_hs_remove [simp]: "distinct xs \<Longrightarrow> distinct (hs_remove x xs)"
  by (simp add: hs_remove_def)

lemma set_hs_extend [simp]: "set (hs_extend xs ys) = set xs \<union> set ys"
  by (induction ys arbitrary: xs) auto

lemma distinct_hs_extend [simp]: "distinct (hs_extend xs ys) = distinct xs"
  by (induction ys arbitrary: xs) auto

lemma length_hs_insert: "length (hs_insert x xs) = (if x \<in> set xs then length xs else Suc (length xs))"
  by (simp add: hs_insert_def)

section \<open>Hash maps\<close>

type_synonym ('k, 'v) hashmap = "('k \<times> 'v) list"

abbreviation hm_get :: "('k, 'v) hashmap \<Rightarrow> 'k \<Rightarrow> 'v option" where
  "hm_get m k \<equiv> map_of m k"

abbreviation hm_insert :: "'k \<Rightarrow> 'v \<Rightarrow> ('k, 'v) hashmap \<Rightarrow> ('k, 'v) hashmap" where
  "hm_insert k v m \<equiv> AList.update k v m"

abbreviation hm_remove :: "'k \<Rightarrow> ('k, 'v) hashmap \<Rightarrow> ('k, 'v) hashmap" where
  "hm_remove k m \<equiv> AList.delete k m"

abbreviation hm_keys :: "('k, 'v) hashmap \<Rightarrow> 'k set" where
  "hm_keys m \<equiv> fst ` set m"

abbreviation hm_wf :: "('k, 'v) hashmap \<Rightarrow> bool" where
  "hm_wf m \<equiv> distinct (map fst m)"

definition hm_contains :: "('k, 'v) hashmap \<Rightarrow> 'k \<Rightarrow> bool" where
  "hm_contains m k = (map_of m k \<noteq> None)"

lemma hm_contains_iff [simp]: "hm_contains m k \<longleftrightarrow> k \<in> hm_keys m"
  by (simp add: hm_contains_def map_of_eq_None_iff)

lemma hm_get_insert [simp]: "map_of (AList.update k v m) = (map_of m)(k \<mapsto> v)"
  by (rule AList.update_conv')

lemma hm_get_remove [simp]: "map_of (AList.delete k m) = (map_of m)(k := None)"
  by (rule AList.delete_conv')

lemma hm_keys_insert [simp]: "fst ` set (AList.update k v m) = insert k (fst ` set m)"
  by (simp add: AList.dom_update)

lemma hm_keys_remove [simp]: "fst ` set (AList.delete k m) = fst ` set m - {k}"
  by (metis AList.delete_keys list.set_map set_removeAll)

lemma hm_wf_insert [simp]: "hm_wf m \<Longrightarrow> hm_wf (AList.update k v m)"
  by (rule AList.distinct_update)

lemma hm_wf_remove [simp]: "hm_wf m \<Longrightarrow> hm_wf (AList.delete k m)"
  by (rule AList.distinct_delete)

lemma hm_get_None_iff: "map_of m k = None \<longleftrightarrow> k \<notin> hm_keys m"
  by (rule map_of_eq_None_iff)

lemma hm_get_Some_keys: "map_of m k = Some v \<Longrightarrow> k \<in> hm_keys m"
  by (metis domI dom_map_of_conv_image_fst)

lemma hm_keys_get: "k \<in> hm_keys m \<Longrightarrow> \<exists>v. map_of m k = Some v"
  by (metis domD dom_map_of_conv_image_fst)

lemma hm_wf_get_iff: "hm_wf m \<Longrightarrow> map_of m k = Some v \<longleftrightarrow> (k, v) \<in> set m"
  by (simp add: map_of_eq_Some_iff)

lemma hm_remove_length:
  "k \<in> hm_keys m \<Longrightarrow> length (AList.delete k m) < length m"
  by (auto simp: AList.delete_eq intro: length_filter_less)

lemma hm_insert_length:
  "length (AList.update k v m) = (if k \<in> hm_keys m then length m else Suc (length m))"
  by (induction m) auto

section \<open>Sums of words\<close>

lemma unat_sum_list:
  fixes ws :: "'a::len word list"
  shows "sum_list (map unat ws) < 2 ^ LENGTH('a) \<Longrightarrow> unat (sum_list ws) = sum_list (map unat ws)"
proof (induction ws)
  case Nil
  then show ?case by simp
next
  case (Cons w ws)
  then have "unat (sum_list ws) = sum_list (map unat ws)" by simp
  with Cons.prems show ?case by (simp add: unat_word_ariths)
qed

lemma unat_u64_less: "unat (w :: u64) < 2 ^ 64"
  using unsigned_less[of w] by simp

lemma unat_u8_less: "unat (w :: u8) < 256"
  using unsigned_less[of w] by simp

lemma unat_add_no_overflow:
  "unat a + unat b < 2 ^ LENGTH('a) \<Longrightarrow> unat (a + b :: 'a::len word) = unat a + unat b"
  by (simp add: unat_word_ariths)

section \<open>Sorting by an injective key\<close>

text \<open>
  The sources compare two hash sets by collecting and sorting them. Sorting by a key that tells
  the elements apart makes the result independent of the order the elements came in.
\<close>

lemma filter_eq_replicate: "filter (\<lambda>x. x = k) zs = replicate (count (mset zs) k) k"
  by (induction zs) auto

lemma sort_key_eqI:
  assumes "mset xs = mset ys" and "inj_on f (set xs)"
  shows "sort_key f xs = sort_key f ys"
proof (rule properties_for_sort_key)
  show "mset (sort_key f ys) = mset xs" using assms(1) by simp
next
  fix k
  assume k: "k \<in> set (sort_key f ys)"
  show "filter (\<lambda>x. f k = f x) (sort_key f ys) = filter (\<lambda>x. f k = f x) xs"
  proof -
    have *: "filter (\<lambda>x. f k = f x) zs = filter (\<lambda>x. x = k) zs" if "mset zs = mset xs" for zs
    proof (rule filter_cong[OF refl])
      fix x assume "x \<in> set zs"
      then have "x \<in> set xs" using that mset_eq_setD by blast
      moreover have "k \<in> set xs" using k assms(1) mset_eq_setD by (metis set_sort)
      ultimately show "(f k = f x) = (x = k)" using assms(2) by (auto dest: inj_onD)
    qed
    show ?thesis
      using *[of "sort_key f ys"] *[of xs] assms(1) by (simp add: filter_eq_replicate)
  qed
qed simp

lemma sort_eq_iff_set_eq:
  fixes xs :: "'a::linorder list"
  assumes "distinct xs" and "distinct ys"
  shows "sort xs = sort ys \<longleftrightarrow> set xs = set ys"
proof
  assume "sort xs = sort ys"
  then show "set xs = set ys" by (metis set_sort)
next
  assume "set xs = set ys"
  then have "mset xs = mset ys" using assms by (simp add: set_eq_iff_mset_eq_distinct)
  then show "sort xs = sort ys" by (rule sort_key_eqI) simp
qed

section \<open>Acyclic relations\<close>

lemma trancl_add_source:
  assumes "(a, b) \<in> (r \<union> {x} \<times> A)\<^sup>+" and "x \<notin> Range r" and "x \<notin> A"
  shows "b \<noteq> x \<and> (a = x \<or> (a, b) \<in> r\<^sup>+)"
  using assms(1) assms(2,3) by (induction rule: trancl_induct) (auto intro: trancl_into_trancl)

lemma acyclic_add_source:
  assumes "acyclic r" and "x \<notin> Range r" and "x \<notin> A"
  shows "acyclic (r \<union> {x} \<times> A)"
  using trancl_add_source[of _ _ r x A] assms by (auto simp: acyclic_def)

lemma acyclic_subset: "acyclic r \<Longrightarrow> s \<subseteq> r \<Longrightarrow> acyclic s"
  unfolding acyclic_def by (meson trancl_mono)

end
