(* ===== verification/Errors.thy ===== *)
theory Errors
  imports Prelude
begin

text \<open>
  The error enumerations of the crates' modules (\<^verbatim>\<open>cell/mod.rs\<close>,
  \<^verbatim>\<open>graph/mod.rs\<close>, \<^verbatim>\<open>alpha/mod.rs\<close>), with one constructor per variant.
  The \<^verbatim>\<open>From\<close> conversions that \<^verbatim>\<open>?\<close> inserts are the constructors
  \<open>GraphCell\<close>, \<open>AlphaCell\<close> and \<open>AlphaGraph\<close>. Text produced by third-party
  errors is a string.
\<close>

datatype cell_error =
    CellHex string
  | CellBincode string
  | CellDalek string
  | CellInvalidCoinbase
  | CellInvalidStake

datatype graph_error =
    GraphCell cell_error
  | VertexExists
  | VacantEntry
  | UndefinedChit
  | UndefinedVertex
  | ChitReplace
  | ChitOverflow
  | EmptyConflictGraph
  | DuplicateCell
  | UndefinedCell
  | UndefinedCellHash hash32

datatype alpha_error =
    AlphaActixMailbox
  | AlphaSled string
  | AlphaHex string
  | AlphaBincode string
  | AlphaDalek string
  | AlphaCell cell_error
  | AlphaGraph graph_error
  | BootstrapConsensus
  | UnspendableCell
  | ExceedsAvailableFunds
  | ZeroTransfer
  | ZeroStake
  | InvalidCoinbase
  | InvalidStake
  | UndefinedCellIds
  | ExistingCellIds
  | ExceedsCapacity

end
