(* ===== verification/Cells.thy ===== *)
theory Cells
  imports Errors
begin

text \<open>
  The cell model of \<^verbatim>\<open>src/cell\<close>: outputs, inputs, cells and their hashes, the ids
  of outputs, sets of ids, and taking an amount out of a cell
  (\<^verbatim>\<open>cell_operation.rs\<close>).

  The hash function, the signature scheme and the binary codec are third-party crates
  (\<^verbatim>\<open>blake3\<close>, \<^verbatim>\<open>ed25519_dalek\<close>, \<^verbatim>\<open>bincode\<close>); they are the
  fields of the record \<open>externs\<close>, which every definition that calls them takes as its first
  argument. Serialising one of these plain structs into a byte vector does not fail, so the
  serialisers are total; decoding may fail.
\<close>

section \<open>Data\<close>

type_synonym capacity_t = u64
type_synonym public_key_hash = hash32
type_synonym cell_hash_t = hash32
type_synonym cell_id = hash32
type_synonym node_id = hash32
type_synonym public_key = "256 word"
type_synonym signature = "512 word"

definition FEE :: u64 where
  "FEE = 3"

datatype cell_type = Coinbase | Transfer | Stake

fun cell_type_rank :: "cell_type \<Rightarrow> nat" where
  "cell_type_rank Coinbase = 0"
| "cell_type_rank Transfer = 1"
| "cell_type_rank Stake = 2"

lemma cell_type_rank_inj: "cell_type_rank a = cell_type_rank b \<Longrightarrow> a = b"
  by (cases a; cases b) auto

text \<open>The derived order of the enumeration is the order of its variants.\<close>

instantiation cell_type :: linorder
begin

definition less_eq_cell_type :: "cell_type \<Rightarrow> cell_type \<Rightarrow> bool" where
  "less_eq_cell_type a b = (cell_type_rank a \<le> cell_type_rank b)"

definition less_cell_type :: "cell_type \<Rightarrow> cell_type \<Rightarrow> bool" where
  "less_cell_type a b = (cell_type_rank a < cell_type_rank b)"

instance
  by standard (auto simp: less_eq_cell_type_def less_cell_type_def dest: cell_type_rank_inj)

end

record cell_output =
  capacity :: capacity_t
  cell_type :: cell_type
  data :: bytes
  lock :: public_key_hash

record output_index =
  oi_cell_hash :: cell_hash_t
  oi_index :: u8

record cell_unlock_script =
  us_public_key :: public_key
  us_signature :: signature

record input =
  in_output_index :: output_index
  in_unlock :: cell_unlock_script

record cell =
  inputs :: "input hashset"
  outputs :: "cell_output list"

record keypair =
  kp_public :: public_key
  kp_secret :: "256 word"

text \<open>
  What the cell code uses of third-party crates. \<open>bincode_cell\<close> gets the inputs in the order
  in which the hand-written \<^verbatim>\<open>Serialize for Inputs\<close> emits them.
\<close>

record externs =
  blake3 :: "bytes \<Rightarrow> hash32"
  bincode_bytes :: "bytes \<Rightarrow> bytes"
  bincode_cell :: "input list \<Rightarrow> cell_output list \<Rightarrow> bytes"
  bincode_public_key :: "public_key \<Rightarrow> bytes"
  bincode_signature :: "signature \<Rightarrow> bytes"
  bincode_coinbase_state :: bytes
  bincode_transfer_state :: bytes
  bincode_stake_state :: "node_id \<Rightarrow> bytes"
  unbincode_coinbase_state :: "bytes \<Rightarrow> string + unit"
  unbincode_transfer_state :: "bytes \<Rightarrow> string + unit"
  unbincode_stake_state :: "bytes \<Rightarrow> string + node_id"
  ed25519_sign :: "keypair \<Rightarrow> bytes \<Rightarrow> signature"

section \<open>Outputs\<close>

text \<open>The derived lexicographic order of \<^verbatim>\<open>Output\<close>, as a sort key.\<close>

definition output_key :: "cell_output \<Rightarrow> capacity_t \<times> cell_type \<times> bytes \<times> public_key_hash" where
  "output_key out = (capacity out, cell_type out, data out, lock out)"

lemma inj_output_key: "inj output_key"
  by (rule injI) (simp add: output_key_def)

definition outputs_new :: "cell_output list \<Rightarrow> cell_output list" where
  "outputs_new os = sort_key output_key os"

fun outputs_sum_from :: "capacity_t \<Rightarrow> cell_output list \<Rightarrow> capacity_t" where
  "outputs_sum_from acc [] = acc"
| "outputs_sum_from acc (out # os) = outputs_sum_from (acc + capacity out) os"

definition outputs_sum :: "cell_output list \<Rightarrow> capacity_t" where
  "outputs_sum os = outputs_sum_from 0 os"

definition output_validate_capacity :: "cell_output \<Rightarrow> (cell_error, unit) result" where
  "output_validate_capacity out = Ok ()"

definition output_verify :: "cell_output \<Rightarrow> cell_output list \<Rightarrow> (cell_error, unit) result" where
  "output_verify out outs =
     (case cell_type out of
        Coinbase \<Rightarrow> if length outs \<noteq> 0 then Err CellInvalidCoinbase else Ok ()
      | Transfer \<Rightarrow> Ok ()
      | Stake \<Rightarrow> if length outs \<noteq> 0 then Err CellInvalidStake else Ok ())"

lemma outputs_sum_from_eq: "outputs_sum_from t os = t + sum_list (map capacity os)"
  by (induction os arbitrary: t) (auto simp: add.assoc)

lemma outputs_sum_eq: "outputs_sum os = sum_list (map capacity os)"
  by (simp add: outputs_sum_def outputs_sum_from_eq)

lemma mset_outputs_new [simp]: "mset (outputs_new os) = mset os"
  by (simp add: outputs_new_def)

lemma set_outputs_new [simp]: "set (outputs_new os) = set os"
  by (simp add: outputs_new_def)

lemma outputs_sum_new [simp]: "outputs_sum (outputs_new os) = outputs_sum os"
  unfolding outputs_sum_eq outputs_new_def
  by (metis mset_map mset_sort sum_mset_sum_list)

section \<open>Inputs and cells\<close>

definition bytes_of_hash :: "hash32 \<Rightarrow> bytes" where
  "bytes_of_hash h = map (\<lambda>i. ucast (drop_bit (8 * (31 - i)) h)) [0..<32]"

definition output_index_new :: "cell_hash_t \<Rightarrow> u8 \<Rightarrow> output_index" where
  "output_index_new h i = \<lparr>oi_cell_hash = h, oi_index = i\<rparr>"

definition output_index_cell_id :: "'a externs_scheme \<Rightarrow> output_index \<Rightarrow> cell_id" where
  "output_index_cell_id E oi =
     blake3 E (bincode_bytes E (concat [bytes_of_hash (oi_cell_hash oi), [oi_index oi]]))"

definition cell_id_from_output :: "'a externs_scheme \<Rightarrow> cell_hash_t \<Rightarrow> u8 \<Rightarrow> cell_output \<Rightarrow> cell_id" where
  "cell_id_from_output E h i out = blake3 E (bincode_bytes E (concat [bytes_of_hash h, [i]]))"

definition input_new :: "'a externs_scheme \<Rightarrow> keypair \<Rightarrow> cell_hash_t \<Rightarrow> u8 \<Rightarrow> input" where
  "input_new E kp h i =
     (let oi = output_index_new h i;
          cid = bytes_of_hash (output_index_cell_id E oi);
          sig = ed25519_sign E kp cid
      in \<lparr>in_output_index = oi,
          in_unlock = \<lparr>us_public_key = kp_public kp, us_signature = sig\<rparr>\<rparr>)"

definition input_cell_id :: "'a externs_scheme \<Rightarrow> input \<Rightarrow> cell_id" where
  "input_cell_id E inp = output_index_cell_id E (in_output_index inp)"

text \<open>
  \<^verbatim>\<open>CellUnlockScript::cmp\<close> compares the encoded public keys, then the encoded signatures;
  \<^verbatim>\<open>Input\<close> derives its order field by field.
\<close>

definition unlock_key :: "'a externs_scheme \<Rightarrow> cell_unlock_script \<Rightarrow> bytes \<times> bytes" where
  "unlock_key E us =
     (bincode_public_key E (us_public_key us), bincode_signature E (us_signature us))"

definition input_key :: "'a externs_scheme \<Rightarrow> input \<Rightarrow> (cell_hash_t \<times> u8) \<times> (bytes \<times> bytes)" where
  "input_key E inp =
     ((oi_cell_hash (in_output_index inp), oi_index (in_output_index inp)),
      unlock_key E (in_unlock inp))"

definition inputs_new :: "input list \<Rightarrow> input hashset" where
  "inputs_new is = hs_extend [] is"

definition inputs_sorted :: "'a externs_scheme \<Rightarrow> input hashset \<Rightarrow> input list" where
  "inputs_sorted E is = sort_key (input_key E) is"

definition inputs_eq :: "'a externs_scheme \<Rightarrow> input hashset \<Rightarrow> input hashset \<Rightarrow> bool" where
  "inputs_eq E xs ys = (inputs_sorted E xs = inputs_sorted E ys)"

definition cell_new :: "input hashset \<Rightarrow> cell_output list \<Rightarrow> cell" where
  "cell_new is os = \<lparr>inputs = is, outputs = os\<rparr>"

definition outputs_of_owner :: "cell \<Rightarrow> public_key_hash \<Rightarrow> cell_output list" where
  "outputs_of_owner c owner = filter (\<lambda>out. lock out = owner) (outputs c)"

definition cell_hash :: "'a externs_scheme \<Rightarrow> cell \<Rightarrow> cell_hash_t" where
  "cell_hash E c = blake3 E (bincode_cell E (inputs_sorted E (inputs c)) (outputs c))"

definition cell_sum :: "cell \<Rightarrow> capacity_t" where
  "cell_sum c = outputs_sum (outputs c)"

definition has_coinbase_output :: "cell \<Rightarrow> bool" where
  "has_coinbase_output c = list_ex (\<lambda>out. cell_type out = Coinbase) (outputs c)"

lemma set_inputs_new [simp]: "set (inputs_new is) = set is"
  by (simp add: inputs_new_def)

lemma distinct_inputs_new [simp]: "distinct (inputs_new is)"
  by (simp add: inputs_new_def)

lemma length_bytes_of_hash [simp]: "length (bytes_of_hash h) = 32"
  by (simp add: bytes_of_hash_def)

text \<open>The id an input spends is the id of the output it points at.\<close>

lemma input_new_cell_id [simp]:
  "input_cell_id E (input_new E kp h i) = cell_id_from_output E h i out"
  by (simp add: input_cell_id_def input_new_def output_index_cell_id_def output_index_new_def
      cell_id_from_output_def Let_def)

section \<open>Sets of cell ids\<close>

type_synonym cell_ids = "cell_id hashset"

definition cell_ids_empty :: cell_ids where
  "cell_ids_empty = []"

definition cell_ids_from_iter :: "cell_id list \<Rightarrow> cell_ids" where
  "cell_ids_from_iter ids = hs_extend [] ids"

definition cell_ids_eq :: "cell_ids \<Rightarrow> cell_ids \<Rightarrow> bool" where
  "cell_ids_eq xs ys = (sort xs = sort ys)"

definition cell_ids_le :: "cell_ids \<Rightarrow> cell_ids \<Rightarrow> bool" where
  "cell_ids_le xs ys = (sort xs \<le> sort ys)"

definition cell_ids_from_inputs :: "'a externs_scheme \<Rightarrow> input hashset \<Rightarrow> cell_ids" where
  "cell_ids_from_inputs E is = hs_extend [] (map (input_cell_id E) is)"

definition cell_ids_from_outputs :: "'a externs_scheme \<Rightarrow> cell_hash_t \<Rightarrow> cell_output list \<Rightarrow> cell_ids" where
  "cell_ids_from_outputs E h os =
     hs_extend [] (map (\<lambda>i. cell_id_from_output E h (of_nat i) (os ! i)) [0..<length os])"

definition intersects_with :: "cell_ids \<Rightarrow> cell_ids \<Rightarrow> bool" where
  "intersects_with xs ys = list_ex (\<lambda>x. x \<in> set ys) xs"

definition cell_ids_intersect :: "cell_ids \<Rightarrow> cell_ids \<Rightarrow> cell_ids" where
  "cell_ids_intersect xs ys = filter (\<lambda>x. x \<in> set ys) xs"

definition left_difference :: "cell_ids \<Rightarrow> cell_ids \<Rightarrow> cell_ids" where
  "left_difference xs ys = filter (\<lambda>x. x \<notin> set ys) xs"

lemma distinct_cell_ids_from_inputs [simp]: "distinct (cell_ids_from_inputs E is)"
  by (simp add: cell_ids_from_inputs_def)

lemma distinct_cell_ids_from_outputs [simp]: "distinct (cell_ids_from_outputs E h os)"
  by (simp add: cell_ids_from_outputs_def)

lemma set_cell_ids_from_inputs:
  "set (cell_ids_from_inputs E is) = input_cell_id E ` set is"
  by (simp add: cell_ids_from_inputs_def)

lemma set_cell_ids_from_outputs:
  "set (cell_ids_from_outputs E h os) =
     {cell_id_from_output E h (of_nat i) (os ! i) |i. i < length os}"
  by (auto simp: cell_ids_from_outputs_def)

lemma intersects_with_iff [simp]: "intersects_with xs ys \<longleftrightarrow> set xs \<inter> set ys \<noteq> {}"
  by (auto simp: intersects_with_def list_ex_iff)

lemma set_cell_ids_intersect [simp]: "set (cell_ids_intersect xs ys) = set xs \<inter> set ys"
  by (auto simp: cell_ids_intersect_def)

lemma set_left_difference [simp]: "set (left_difference xs ys) = set xs - set ys"
  by (auto simp: left_difference_def)

lemma distinct_cell_ids_intersect [simp]: "distinct xs \<Longrightarrow> distinct (cell_ids_intersect xs ys)"
  by (simp add: cell_ids_intersect_def)

lemma distinct_left_difference [simp]: "distinct xs \<Longrightarrow> distinct (left_difference xs ys)"
  by (simp add: left_difference_def)

lemma cell_ids_eq_iff: "distinct xs \<Longrightarrow> distinct ys \<Longrightarrow> cell_ids_eq xs ys \<longleftrightarrow> set xs = set ys"
  by (simp add: cell_ids_eq_def sort_eq_iff_set_eq)

section \<open>Concrete external functions\<close>

text \<open>
  A small instance of the external functions, at which the theorems about the cell code are
  evaluated: the hash reads a byte string as a number, an id is encoded by its last two bytes.
\<close>

definition example_externs :: externs where
  "example_externs =
     \<lparr>blake3 = foldl (\<lambda>h b. 256 * h + ucast b) 0,
      bincode_bytes = (\<lambda>bs. drop 31 bs),
      bincode_cell = (\<lambda>is os. of_nat (length is) # map (\<lambda>out. ucast (capacity out)) os),
      bincode_public_key = (\<lambda>pk. [ucast pk]),
      bincode_signature = (\<lambda>sig. [ucast sig]),
      bincode_coinbase_state = [],
      bincode_transfer_state = [],
      bincode_stake_state = (\<lambda>nid. [ucast nid]),
      unbincode_coinbase_state = (\<lambda>bs. Inr ()),
      unbincode_transfer_state = (\<lambda>bs. Inr ()),
      unbincode_stake_state = (\<lambda>bs. case bs of [b] \<Rightarrow> Inr (ucast b) | _ \<Rightarrow> Inl ''eof''),
      ed25519_sign = (\<lambda>kp bs. ucast (kp_secret kp))\<rparr>"

definition example_keypair :: "256 word \<Rightarrow> keypair" where
  "example_keypair n = \<lparr>kp_public = n, kp_secret = n\<rparr>"

definition example_output :: "capacity_t \<Rightarrow> public_key_hash \<Rightarrow> cell_output" where
  "example_output cap pkh = \<lparr>capacity = cap, cell_type = Transfer, data = [], lock = pkh\<rparr>"

lemma example_externs_simps [simp]:
  "blake3 example_externs = foldl (\<lambda>h b. 256 * h + ucast b) 0"
  "bincode_bytes example_externs = (\<lambda>bs. drop 31 bs)"
  "bincode_cell example_externs = (\<lambda>is os. of_nat (length is) # map (\<lambda>out. ucast (capacity out)) os)"
  "bincode_public_key example_externs = (\<lambda>pk. [ucast pk])"
  "bincode_signature example_externs = (\<lambda>sig. [ucast sig])"
  "bincode_coinbase_state example_externs = []"
  "bincode_transfer_state example_externs = []"
  "bincode_stake_state example_externs = (\<lambda>nid. [ucast nid])"
  "unbincode_coinbase_state example_externs = (\<lambda>bs. Inr ())"
  "unbincode_transfer_state example_externs = (\<lambda>bs. Inr ())"
  "ed25519_sign example_externs = (\<lambda>kp bs. ucast (kp_secret kp))"
  by (simp_all add: example_externs_def)

lemma example_output_simps [simp]:
  "capacity (example_output cap pkh) = cap"
  "cell_type (example_output cap pkh) = Transfer"
  "data (example_output cap pkh) = []"
  "lock (example_output cap pkh) = pkh"
  by (simp_all add: example_output_def)

lemma example_keypair_simps [simp]:
  "kp_public (example_keypair n) = n" "kp_secret (example_keypair n) = n"
  by (simp_all add: example_keypair_def)

lemma last_byte_of_hash [simp]: "drop 31 (bytes_of_hash h) = [ucast h]"
  by (simp add: bytes_of_hash_def drop_map drop_upt upt_rec)

lemma example_cell_id:
  "cell_id_from_output example_externs h i out = 256 * ucast (ucast h :: u8) + ucast i"
  "input_cell_id example_externs (input_new example_externs kp h i) = 256 * ucast (ucast h :: u8) + ucast i"
  by (simp_all add: cell_id_from_output_def input_cell_id_def input_new_def output_index_cell_id_def
      output_index_new_def Let_def)

text \<open>A cell that spends the first output of every given cell hash and produces one output.\<close>

definition spend_cell :: "hash32 list \<Rightarrow> capacity_t \<Rightarrow> cell" where
  "spend_cell hs cap = cell_new (map (\<lambda>h. input_new example_externs (example_keypair 1) h 0) hs)
                                [example_output cap 1]"

lemma example_inputs:
  "cell_ids_from_inputs example_externs (inputs (spend_cell hs cap)) =
     hs_extend [] (map (\<lambda>h. 256 * ucast (ucast h :: u8)) hs)"
  "cell_ids_from_outputs example_externs h (outputs (spend_cell hs cap)) = [256 * ucast (ucast h :: u8)]"
  "cell_hash example_externs (spend_cell hs cap) = 256 * ucast (of_nat (length hs) :: u8) + ucast (ucast cap :: u8)"
  by (simp_all add: cell_ids_from_inputs_def cell_ids_from_outputs_def spend_cell_def cell_new_def
      comp_def example_cell_id hs_insert_def cell_hash_def inputs_sorted_def)

section \<open>Order independence\<close>

text \<open>
  Hashing a cell does not depend on the iteration order of the hash set of its inputs. Two
  cells with the same set of inputs and the same outputs have the same hash, provided the codec
  of keys and signatures does not identify two of the inputs.
\<close>

theorem cell_hash_order_independent:
  assumes "distinct (inputs c)" "distinct (inputs c')" "set (inputs c) = set (inputs c')"
    and "outputs c = outputs c'"
    and "inj_on (input_key E) (set (inputs c))"
  shows "cell_hash E c = cell_hash E c'"
proof -
  have "mset (inputs c) = mset (inputs c')"
    using assms(1-3) by (simp add: set_eq_iff_mset_eq_distinct)
  then have "inputs_sorted E (inputs c) = inputs_sorted E (inputs c')"
    unfolding inputs_sorted_def using assms(5) by (rule sort_key_eqI)
  then show ?thesis using assms(4) by (simp add: cell_hash_def)
qed

theorem cell_hash_order_independent_witness:
  "(let i = input_new example_externs (example_keypair 1) 7;
        outs = [example_output 5 1] in
    inj_on (input_key example_externs) (set [i 0, i 1]) \<and>
    cell_hash example_externs (cell_new [i 0, i 1] outs) =
    cell_hash example_externs (cell_new [i 1, i 0] outs))"
proof -
  let ?i = "input_new example_externs (example_keypair 1) 7"
  have ne: "input_key example_externs (?i 0) \<noteq> input_key example_externs (?i 1)"
    by (simp add: input_key_def input_new_def output_index_new_def Let_def)
  then have inj: "inj_on (input_key example_externs) (set [?i 0, ?i 1])" and d: "?i 0 \<noteq> ?i 1"
    by auto
  have "cell_hash example_externs (cell_new [?i 0, ?i 1] [example_output 5 1]) =
        cell_hash example_externs (cell_new [?i 1, ?i 0] [example_output 5 1])"
    by (rule cell_hash_order_independent) (use inj d in \<open>auto simp: cell_new_def\<close>)
  with inj show ?thesis by (simp add: Let_def)
qed

text \<open>
  Two sets of cell ids are equal in the sense of \<^verbatim>\<open>CellIds::eq\<close> exactly when they
  hold the same ids, and the comparison \<^verbatim>\<open>CellIds::cmp\<close> is antisymmetric with respect
  to that equality: it is the set that counts, never the order in which a hash set is iterated.
\<close>

theorem cell_ids_order_is_set_order:
  assumes "distinct xs" "distinct ys"
  shows "(cell_ids_eq xs ys \<longleftrightarrow> set xs = set ys) \<and>
         (cell_ids_le xs ys \<and> cell_ids_le ys xs \<longleftrightarrow> set xs = set ys) \<and>
         (cell_ids_le xs ys \<or> cell_ids_le ys xs)"
  using assms cell_ids_eq_iff[of xs ys] by (auto simp: cell_ids_le_def cell_ids_eq_def)

theorem cell_ids_order_is_set_order_witness:
  "cell_ids_eq [1, 2, 3] [3, 1, 2] \<and> \<not> cell_ids_eq [1, 2] [1, 3 :: cell_id]"
  using cell_ids_order_is_set_order[of "[1, 2, 3]" "[3, 1, 2]"]
    cell_ids_order_is_set_order[of "[1, 2]" "[1, 3 :: cell_id]"]
  by (simp add: doubleton_eq_iff insert_commute)

end
