(* ===== verification/Cell_Operation.thy ===== *)
theory Cell_Operation
  imports Cells
begin

text \<open>
  Taking an amount out of a cell: \<^verbatim>\<open>src/cell/cell_operation.rs\<close>. The first loop of
  \<^verbatim>\<open>consume_from_cell\<close> is \<open>collect_owned\<close>, the second \<open>consume_loop\<close>. Arithmetic on
  capacities is that of 64-bit words; the lemmas that speak about amounts assume that the owned
  capacities add up below \<open>2 ^ 64\<close>, so they hold whether or not overflow is checked at run time.
\<close>

record consume_result =
  cr_consumed :: capacity_t
  cr_residue :: capacity_t
  cr_inputs :: "input list"

definition public_key_hash_of :: "'a externs_scheme \<Rightarrow> public_key \<Rightarrow> public_key_hash" where
  "public_key_hash_of E pk = blake3 E (bincode_public_key E pk)"

definition validate_output :: "'a externs_scheme \<Rightarrow> cell_output \<Rightarrow> (alpha_error, unit) result" where
  "validate_output E out =
     (case cell_type out of
        Coinbase \<Rightarrow> (case unbincode_coinbase_state E (data out) of
                       Inl e \<Rightarrow> Err (AlphaBincode e) | Inr _ \<Rightarrow> Ok ())
      | Transfer \<Rightarrow> (case unbincode_transfer_state E (data out) of
                       Inl e \<Rightarrow> Err (AlphaBincode e) | Inr _ \<Rightarrow> Ok ())
      | Stake \<Rightarrow> (case unbincode_stake_state E (data out) of
                       Inl e \<Rightarrow> Err (AlphaBincode e) | Inr _ \<Rightarrow> Ok ()))"

definition validate_capacity :: "cell_output list \<Rightarrow> capacity_t \<Rightarrow> u64 \<Rightarrow> (alpha_error, unit) result" where
  "validate_capacity outs cap fee =
     (let tot = sum_list (map capacity outs) in
      if cap = 0 then Err ZeroTransfer
      else if tot < fee \<or> cap > tot - fee then Err ExceedsAvailableFunds
      else Ok ())"

fun collect_owned ::
  "'a externs_scheme \<Rightarrow> public_key_hash \<Rightarrow> cell_output list \<Rightarrow> u8 \<Rightarrow> cell_output list \<Rightarrow> u8 list
   \<Rightarrow> (alpha_error, cell_output list \<times> u8 list) result" where
  "collect_owned E pkh [] i owned idx = Ok (owned, idx)"
| "collect_owned E pkh (out # os) i owned idx =
     result_bind (map_err AlphaCell (output_validate_capacity out)) (\<lambda>_.
     result_bind (validate_output E out) (\<lambda>_.
       if lock out = pkh
       then collect_owned E pkh os (i + 1) (owned @ [out]) (idx @ [i])
       else collect_owned E pkh os (i + 1) owned idx))"

fun consume_loop ::
  "'a externs_scheme \<Rightarrow> keypair \<Rightarrow> cell_hash_t \<Rightarrow> capacity_t \<Rightarrow> u8 list \<Rightarrow> cell_output list
   \<Rightarrow> nat \<Rightarrow> capacity_t \<Rightarrow> capacity_t \<Rightarrow> capacity_t \<Rightarrow> input list \<Rightarrow> (alpha_error, consume_result) result" where
  "consume_loop E kp h amount idx [] i spending residue consumed ins =
     Ok \<lparr>cr_consumed = consumed, cr_residue = residue, cr_inputs = ins\<rparr>"
| "consume_loop E kp h amount idx (out # os) i spending residue consumed ins =
     (if consumed < amount then
        if i < length idx then
          (let ins' = ins @ [input_new E kp h (idx ! i)] in
           if spending \<ge> capacity out
           then consume_loop E kp h amount idx os (i + 1)
                  (spending - capacity out) residue (consumed + capacity out) ins'
           else consume_loop E kp h amount idx os (i + 1)
                  spending (capacity out - spending) (consumed + spending) ins')
        else Panic
      else Ok \<lparr>cr_consumed = consumed, cr_residue = residue, cr_inputs = ins\<rparr>)"

definition consume_from_cell ::
  "'a externs_scheme \<Rightarrow> cell \<Rightarrow> capacity_t \<Rightarrow> keypair \<Rightarrow> (alpha_error, consume_result) result" where
  "consume_from_cell E c amount kp =
     (let pkh = public_key_hash_of E (kp_public kp) in
      result_bind (collect_owned E pkh (outputs c) 0 [] []) (\<lambda>(owned, idx).
      result_bind (validate_capacity owned amount FEE) (\<lambda>_.
        if length owned > 0
        then consume_loop E kp (cell_hash E c) amount idx owned 0 amount 0 0 []
        else Err UnspendableCell)))"

section \<open>The first loop\<close>

text \<open>The positions, as \<^verbatim>\<open>u8\<close> counters, of the outputs an owner can unlock.\<close>

definition owned_indices :: "public_key_hash \<Rightarrow> cell_output list \<Rightarrow> u8 \<Rightarrow> u8 list" where
  "owned_indices pkh os i =
     map (\<lambda>(out, k). i + of_nat k) (filter (\<lambda>(out, k). lock out = pkh) (zip os [0..<length os]))"

lemma zip_Cons_upt:
  "zip (x # xs) [0..<Suc n] = (x, 0) # map (\<lambda>(y, k). (y, Suc k)) (zip xs [0..<n])"
proof -
  have "[0..<Suc n] = 0 # map Suc [0..<n]"
    by (simp add: upt_conv_Cons map_Suc_upt del: upt_Suc)
  then show ?thesis
    by (simp add: zip_map2)
qed

lemma owned_indices_Nil [simp]: "owned_indices pkh [] i = []"
  by (simp add: owned_indices_def)

lemma owned_indices_Cons [simp]:
  "owned_indices pkh (out # os) i =
     (if lock out = pkh then i # owned_indices pkh os (i + 1) else owned_indices pkh os (i + 1))"
  by (auto simp: owned_indices_def zip_Cons_upt filter_map comp_def split_def add.assoc
      simp del: upt_Suc)

lemma length_owned_indices [simp]:
  "length (owned_indices pkh os i) = length (filter (\<lambda>out. lock out = pkh) os)"
  by (induction os arbitrary: i) auto

lemma validate_output_not_Panic [simp]: "validate_output E out \<noteq> Panic"
  by (auto simp: validate_output_def split: cell_type.splits sum.splits)

lemma collect_owned_Ok:
  "collect_owned E pkh os i owned idx = Ok r \<longleftrightarrow>
     (\<forall>out \<in> set os. validate_output E out = Ok ()) \<and>
     r = (owned @ filter (\<lambda>out. lock out = pkh) os, idx @ owned_indices pkh os i)"
proof (induction os arbitrary: i owned idx)
  case (Cons out os)
  show ?case
    by (cases "validate_output E out")
       (auto simp: output_validate_capacity_def Cons.IH result_simps)
qed auto

lemma collect_owned_Err:
  "collect_owned E pkh os i owned idx = Err e \<Longrightarrow>
     \<exists>out \<in> set os. validate_output E out = Err e"
proof (induction os arbitrary: pkh i owned idx)
  case (Cons out os)
  from Cons.prems show ?case
    by (cases "validate_output E out")
       (auto simp: output_validate_capacity_def result_simps split: if_splits dest: Cons.IH)
qed auto

lemma collect_owned_not_Panic [simp]: "collect_owned E pkh os i owned idx \<noteq> Panic"
proof (induction os arbitrary: i owned idx)
  case (Cons out os)
  then show ?case
    by (cases "validate_output E out") (auto simp: output_validate_capacity_def result_simps)
qed auto

section \<open>The second loop\<close>

text \<open>Total capacity as a natural number, so that no sum wraps.\<close>

definition capacity_sum :: "cell_output list \<Rightarrow> nat" where
  "capacity_sum os = sum_list (map (\<lambda>out. unat (capacity out)) os)"

lemma capacity_sum_simps [simp]:
  "capacity_sum [] = 0"
  "capacity_sum (out # os) = unat (capacity out) + capacity_sum os"
  "capacity_sum (xs @ ys) = capacity_sum xs + capacity_sum ys"
  by (simp_all add: capacity_sum_def)

lemma capacity_sum_take_le: "capacity_sum (take n os) \<le> capacity_sum os"
  by (metis append_take_drop_id capacity_sum_simps(3) le_add1)

lemma unat_sum_capacity:
  "capacity_sum os < 2 ^ 64 \<Longrightarrow> unat (sum_list (map capacity os)) = capacity_sum os"
  using unat_sum_list[of "map capacity os"] by (simp add: capacity_sum_def comp_def)

text \<open>Once the amount is reached the loop leaves at its next turn.\<close>

lemma consume_loop_done:
  "\<not> consumed < amount \<Longrightarrow>
   consume_loop E kp h amount idx os i spending residue consumed ins =
     Ok \<lparr>cr_consumed = consumed, cr_residue = residue, cr_inputs = ins\<rparr>"
  by (cases os) simp_all

text \<open>
  The loop spends the shortest prefix of the owned outputs that covers the amount, makes one
  input for each output of that prefix and returns as residue what the prefix is worth above
  the amount.
\<close>

lemma consume_loop_spec:
  assumes "unat consumed + unat spending = unat amount"
    and "unat spending \<le> capacity_sum os"
    and "i + length os \<le> length idx"
  shows "\<exists>n res. n \<le> length os \<and>
    consume_loop E kp h amount idx os i spending 0 consumed ins =
      Ok \<lparr>cr_consumed = amount, cr_residue = res,
          cr_inputs = ins @ map (input_new E kp h) (take n (drop i idx))\<rparr> \<and>
    capacity_sum (take n os) = unat spending + unat res \<and>
    (\<forall>m < n. capacity_sum (take m os) < unat spending)"
  using assms
proof (induction os arbitrary: i spending consumed ins)
  case Nil
  then have "consumed = amount" by (simp add: unat_arith_simps)
  with Nil show ?case by (intro exI[of _ 0]) (simp add: unat_arith_simps)
next
  case (Cons out os)
  let ?c = "capacity out"
  show ?case
  proof (cases "consumed < amount")
    case False
    with Cons.prems have "spending = 0" "consumed = amount" by (auto simp: unat_arith_simps)
    then show ?thesis by (intro exI[of _ 0]) simp
  next
    case True
    with Cons.prems have pos: "0 < unat spending" by (simp add: word_less_nat_alt)
    have idx: "drop i idx = idx ! i # drop (Suc i) idx"
      using Cons.prems(3) by (simp add: Cons_nth_drop_Suc)
    show ?thesis
    proof (cases "?c \<le> spending")
      case le: True
      have sp: "unat (spending - ?c) = unat spending - unat ?c"
        using le by (rule unat_sub)
      have cle: "unat ?c \<le> unat spending" using le by (simp add: word_le_nat_alt)
      have "unat consumed + unat ?c < 2 ^ 64"
        using Cons.prems(1) cle unat_u64_less[of amount] by simp
      then have co: "unat (consumed + ?c) = unat consumed + unat ?c"
        by (intro unat_add_no_overflow) simp
      obtain n res where n: "n \<le> length os"
        and run: "consume_loop E kp h amount idx os (i + 1) (spending - ?c) 0 (consumed + ?c)
              (ins @ [input_new E kp h (idx ! i)]) =
            Ok \<lparr>cr_consumed = amount, cr_residue = res,
               cr_inputs = (ins @ [input_new E kp h (idx ! i)]) @
                 map (input_new E kp h) (take n (drop (i + 1) idx))\<rparr>"
        and tot: "capacity_sum (take n os) = unat (spending - ?c) + unat res"
        and min: "\<forall>m < n. capacity_sum (take m os) < unat (spending - ?c)"
        using Cons.IH[of "consumed + ?c" "spending - ?c" "i + 1"] Cons.prems sp co cle by fastforce
      have "\<forall>m < Suc n. capacity_sum (take m (out # os)) < unat spending"
      proof (intro allI impI)
        fix m assume "m < Suc n"
        then show "capacity_sum (take m (out # os)) < unat spending"
          using min pos sp cle by (cases m) auto
      qed
      then show ?thesis
        using True le Cons.prems(3) n run tot sp cle idx
        by (intro exI[of _ "Suc n"] exI[of _ res]) (simp add: Let_def)
    next
      case gt: False
      have "unat consumed + unat spending < 2 ^ 64"
        using Cons.prems(1) unat_u64_less[of amount] by simp
      then have co: "consumed + spending = amount"
        using Cons.prems(1) by (simp add: word_unat_eq_iff unat_add_no_overflow)
      have "unat (?c - spending) = unat ?c - unat spending"
        using gt by (intro unat_sub) simp
      then show ?thesis
        using True gt Cons.prems(3) idx co pos
        by (intro exI[of _ 1] exI[of _ "?c - spending"])
           (auto simp: Let_def consume_loop_done word_le_nat_alt)
    qed
  qed
qed

section \<open>Consuming from a cell\<close>

text \<open>The outputs a key pair can unlock, and their positions in the cell.\<close>

abbreviation owned_outputs :: "'a externs_scheme \<Rightarrow> keypair \<Rightarrow> cell \<Rightarrow> cell_output list" where
  "owned_outputs E kp c \<equiv> outputs_of_owner c (public_key_hash_of E (kp_public kp))"

abbreviation owned_positions :: "'a externs_scheme \<Rightarrow> keypair \<Rightarrow> cell \<Rightarrow> u8 list" where
  "owned_positions E kp c \<equiv> owned_indices (public_key_hash_of E (kp_public kp)) (outputs c) 0"

definition well_formed_outputs :: "'a externs_scheme \<Rightarrow> cell \<Rightarrow> bool" where
  "well_formed_outputs E c = (\<forall>out \<in> set (outputs c). validate_output E out = Ok ())"

lemma validate_capacity_Ok:
  assumes "capacity_sum outs < 2 ^ 64"
  shows "validate_capacity outs amount FEE = Ok () \<longleftrightarrow>
           0 < unat amount \<and> unat amount + 3 \<le> capacity_sum outs"
proof -
  let ?t = "sum_list (map capacity outs)"
  have t: "unat ?t = capacity_sum outs" using assms by (rule unat_sum_capacity)
  have "unat (?t - FEE) = unat ?t - 3" if "FEE \<le> ?t"
    using unat_sub[OF that] by (simp add: FEE_def)
  then show ?thesis
    using t by (auto simp: validate_capacity_def Let_def word_less_nat_alt word_le_nat_alt FEE_def
        unat_gt_0 split: if_splits)
qed

lemma validate_capacity_cases:
  "validate_capacity outs amount fee \<in> {Ok (), Err ZeroTransfer, Err ExceedsAvailableFunds}"
  by (auto simp: validate_capacity_def Let_def)

lemma consume_from_cell_unfold:
  assumes "well_formed_outputs E c"
  shows "consume_from_cell E c amount kp =
    result_bind (validate_capacity (owned_outputs E kp c) amount FEE) (\<lambda>_.
      if owned_outputs E kp c \<noteq> []
      then consume_loop E kp (cell_hash E c) amount (owned_positions E kp c) (owned_outputs E kp c)
             0 amount 0 0 []
      else Err UnspendableCell)"
proof -
  have "collect_owned E (public_key_hash_of E (kp_public kp)) (outputs c) 0 [] [] =
      Ok (owned_outputs E kp c, owned_positions E kp c)"
    using assms by (simp add: collect_owned_Ok well_formed_outputs_def outputs_of_owner_def)
  then show ?thesis by (simp add: consume_from_cell_def Let_def)
qed

lemma consume_from_cell_spec:
  assumes wf: "well_formed_outputs E c"
    and bound: "capacity_sum (owned_outputs E kp c) < 2 ^ 64"
    and amount: "0 < unat amount" "unat amount + 3 \<le> capacity_sum (owned_outputs E kp c)"
  obtains n res where "0 < n" "n \<le> length (owned_outputs E kp c)"
    "consume_from_cell E c amount kp = Ok \<lparr>cr_consumed = amount, cr_residue = res,
       cr_inputs = map (input_new E kp (cell_hash E c)) (take n (owned_positions E kp c))\<rparr>"
    "capacity_sum (take n (owned_outputs E kp c)) = unat amount + unat res"
    "\<forall>m < n. capacity_sum (take m (owned_outputs E kp c)) < unat amount"
proof -
  let ?o = "owned_outputs E kp c" and ?p = "owned_positions E kp c"
  have ok: "validate_capacity ?o amount FEE = Ok ()"
    using validate_capacity_Ok[OF bound] amount by simp
  have ne: "?o \<noteq> []" using amount by auto
  have run: "consume_from_cell E c amount kp =
      consume_loop E kp (cell_hash E c) amount ?p ?o 0 amount 0 0 []"
    using ne by (simp add: consume_from_cell_unfold[OF wf] ok)
  have "\<exists>n res. n \<le> length ?o \<and>
    consume_loop E kp (cell_hash E c) amount ?p ?o 0 amount 0 0 [] =
      Ok \<lparr>cr_consumed = amount, cr_residue = res,
          cr_inputs = [] @ map (input_new E kp (cell_hash E c)) (take n (drop 0 ?p))\<rparr> \<and>
    capacity_sum (take n ?o) = unat amount + unat res \<and>
    (\<forall>m < n. capacity_sum (take m ?o) < unat amount)"
    using amount by (intro consume_loop_spec) (auto simp: outputs_of_owner_def)
  then obtain n res where n: "n \<le> length ?o"
    "consume_loop E kp (cell_hash E c) amount ?p ?o 0 amount 0 0 [] =
      Ok \<lparr>cr_consumed = amount, cr_residue = res,
          cr_inputs = map (input_new E kp (cell_hash E c)) (take n ?p)\<rparr>"
    "capacity_sum (take n ?o) = unat amount + unat res"
    "\<forall>m < n. capacity_sum (take m ?o) < unat amount"
    by auto
  have "0 < n" using n(3) amount(1) by (cases n) auto
  with n run show thesis by (intro that[of n res]) auto
qed

lemma consume_from_cell_ex:
  assumes "well_formed_outputs E c"
    and "capacity_sum (owned_outputs E kp c) < 2 ^ 64"
    and "amount \<noteq> 0" "unat amount + unat FEE \<le> capacity_sum (owned_outputs E kp c)"
  shows "\<exists>n res. 0 < n \<and> n \<le> length (owned_outputs E kp c) \<and>
    consume_from_cell E c amount kp = Ok \<lparr>cr_consumed = amount, cr_residue = res,
      cr_inputs = map (input_new E kp (cell_hash E c)) (take n (owned_positions E kp c))\<rparr> \<and>
    capacity_sum (take n (owned_outputs E kp c)) = unat amount + unat res \<and>
    (\<forall>m < n. capacity_sum (take m (owned_outputs E kp c)) < unat amount)"
proof -
  from assms(3,4) have "0 < unat amount" "unat amount + 3 \<le> capacity_sum (owned_outputs E kp c)"
    by (simp_all add: FEE_def unat_gt_0)
  with assms(1,2) show ?thesis
    by (metis (no_types, lifting) consume_from_cell_spec)
qed

lemma consume_from_cell_Ok_iff:
  assumes "well_formed_outputs E c" "capacity_sum (owned_outputs E kp c) < 2 ^ 64"
  shows "(\<exists>r. consume_from_cell E c amount kp = Ok r) \<longleftrightarrow>
           0 < unat amount \<and> unat amount + 3 \<le> capacity_sum (owned_outputs E kp c)"
  (is "?l \<longleftrightarrow> ?r")
proof
  assume ?l
  then have "validate_capacity (owned_outputs E kp c) amount FEE = Ok ()"
    using assms(1) by (auto simp: consume_from_cell_unfold result_simps)
  then show ?r using validate_capacity_Ok[OF assms(2)] by simp
next
  assume ?r
  then show ?l using assms consume_from_cell_spec by (metis (no_types))
qed

text \<open>
  C29: Consuming an amount from a cell is exact. When every output of the cell decodes and the
  outputs the key can unlock are worth at least the amount plus the fee, the call succeeds: it
  consumes exactly the amount, spends the shortest prefix of the owned outputs that covers it, has
  one input for each spent output, pointing at that output's position in the cell, and the residue
  is what the prefix is worth above the amount.
\<close>

theorem consume_from_cell_exact:
  assumes "well_formed_outputs E c"
    and "capacity_sum (owned_outputs E kp c) < 2 ^ 64"
    and "amount \<noteq> 0" "unat amount + unat FEE \<le> capacity_sum (owned_outputs E kp c)"
  shows "\<exists>n res. 0 < n \<and> n \<le> length (owned_outputs E kp c) \<and>
    consume_from_cell E c amount kp = Ok \<lparr>cr_consumed = amount, cr_residue = res,
      cr_inputs = map (input_new E kp (cell_hash E c)) (take n (owned_positions E kp c))\<rparr> \<and>
    capacity_sum (take n (owned_outputs E kp c)) = unat amount + unat res \<and>
    (\<forall>m < n. capacity_sum (take m (owned_outputs E kp c)) < unat amount)"
  using assms by (rule consume_from_cell_ex)

definition example_cell :: cell where
  "example_cell = cell_new [] [example_output 4 1, example_output 5 2, example_output 10 1]"

lemma example_cell_facts:
  "well_formed_outputs example_externs example_cell"
  "public_key_hash_of example_externs 1 = 1"
  "outputs_of_owner example_cell 1 = [example_output 4 1, example_output 10 1]"
  "owned_indices 1 (outputs example_cell) 0 = [0, 2]"
  by (simp_all add: well_formed_outputs_def validate_output_def example_cell_def cell_new_def
      outputs_of_owner_def public_key_hash_of_def)

theorem consume_from_cell_exact_witness:
  "\<exists>n res. 0 < n \<and>
    consume_from_cell example_externs example_cell 6 (example_keypair 1) =
      Ok \<lparr>cr_consumed = 6, cr_residue = res,
         cr_inputs = map (input_new example_externs (example_keypair 1)
                           (cell_hash example_externs example_cell)) (take n [0, 2])\<rparr>"
  using consume_from_cell_exact[of example_externs example_cell "example_keypair 1" 6]
  by (auto simp: example_cell_facts FEE_def)

text \<open>
  The failures of \<^verbatim>\<open>consume_from_cell\<close> on a cell whose outputs decode: a zero amount
  is \<open>ZeroTransfer\<close>; an amount that with the fee exceeds what the key can unlock is
  \<open>ExceedsAvailableFunds\<close>; otherwise the call succeeds.
\<close>

theorem consume_from_cell_errors:
  assumes "well_formed_outputs E c" "capacity_sum (owned_outputs E kp c) < 2 ^ 64"
  shows "(consume_from_cell E c amount kp = Err ZeroTransfer \<longleftrightarrow> amount = 0) \<and>
    (consume_from_cell E c amount kp = Err ExceedsAvailableFunds \<longleftrightarrow>
      amount \<noteq> 0 \<and> capacity_sum (owned_outputs E kp c) < unat amount + unat FEE) \<and>
    ((\<exists>r. consume_from_cell E c amount kp = Ok r) \<longleftrightarrow>
      amount \<noteq> 0 \<and> unat amount + unat FEE \<le> capacity_sum (owned_outputs E kp c))"
proof -
  have ok: "(\<exists>r. consume_from_cell E c amount kp = Ok r) \<longleftrightarrow>
      amount \<noteq> 0 \<and> unat amount + unat FEE \<le> capacity_sum (owned_outputs E kp c)"
    using consume_from_cell_Ok_iff[OF assms, of amount] by (simp add: FEE_def unat_gt_0)
  have zero: "validate_capacity outs 0 FEE = Err ZeroTransfer" for outs
    by (simp add: validate_capacity_def Let_def)
  have nz: "amount \<noteq> 0 \<Longrightarrow> validate_capacity outs amount FEE \<noteq> Err ZeroTransfer" for outs
    by (simp add: validate_capacity_def Let_def)
  have "consume_from_cell E c amount kp \<in>
      {Err ZeroTransfer, Err ExceedsAvailableFunds} \<union> range Ok \<and>
      (amount = 0 \<longrightarrow> consume_from_cell E c amount kp = Err ZeroTransfer) \<and>
      (amount \<noteq> 0 \<longrightarrow> consume_from_cell E c amount kp \<noteq> Err ZeroTransfer)"
  proof (cases "validate_capacity (owned_outputs E kp c) amount FEE = Ok ()")
    case True
    then show ?thesis
      using ok validate_capacity_Ok[OF assms(2), of amount] by (auto simp: FEE_def unat_gt_0)
  next
    case False
    then show ?thesis
      using validate_capacity_cases[of "owned_outputs E kp c" amount FEE] zero nz
      by (auto simp: consume_from_cell_unfold[OF assms(1)])
  qed
  with ok show ?thesis by auto
qed

theorem consume_from_cell_errors_witness:
  "consume_from_cell example_externs example_cell 0 (example_keypair 1) = Err ZeroTransfer \<and>
   consume_from_cell example_externs example_cell 12 (example_keypair 1) = Err ExceedsAvailableFunds"
  using consume_from_cell_errors[of example_externs example_cell "example_keypair 1" 0]
    consume_from_cell_errors[of example_externs example_cell "example_keypair 1" 12]
  by (simp add: example_cell_facts FEE_def)

text \<open>
  The documented error \<open>UnspendableCell\<close> is never returned: when the key owns no output the
  capacity check before the loop fails first.
\<close>

theorem consume_from_cell_never_unspendable:
  "consume_from_cell E c amount kp \<noteq> Err UnspendableCell"
proof
  assume *: "consume_from_cell E c amount kp = Err UnspendableCell"
  let ?pkh = "public_key_hash_of E (kp_public kp)"
  have "validate_output E out \<noteq> Err UnspendableCell" for out
    by (auto simp: validate_output_def split: cell_type.splits sum.splits)
  then have "collect_owned E ?pkh (outputs c) 0 [] [] \<noteq> Err UnspendableCell"
    using collect_owned_Err by blast
  then obtain owned idx where o: "collect_owned E ?pkh (outputs c) 0 [] [] = Ok (owned, idx)"
    using * by (cases "collect_owned E ?pkh (outputs c) 0 [] []")
      (auto simp: consume_from_cell_def Let_def)
  from * o have "owned \<noteq> [] \<Longrightarrow>
      consume_loop E kp (cell_hash E c) amount idx owned 0 amount 0 0 [] = Err UnspendableCell"
    using validate_capacity_cases[of owned amount FEE]
    by (auto simp: consume_from_cell_def Let_def)
  moreover have "consume_loop E kp h amount idx os i sp res co ins \<noteq> Err e"
    for h os i sp res co ins e
    by (induction os arbitrary: i sp res co ins) (auto simp: Let_def)
  ultimately have "owned = []" by blast
  moreover have "validate_capacity [] amount FEE \<noteq> Ok ()"
    using validate_capacity_Ok[of "[]" amount] by simp
  ultimately show False
    using * o validate_capacity_cases[of "[]" amount FEE]
    by (auto simp: consume_from_cell_def Let_def)
qed

end
