(* ===== verification/Alpha_Ops.thy ===== *)
theory Alpha_Ops
  imports Cell_Operation
begin

text \<open>
  The operations that make cells, \<^verbatim>\<open>src/alpha/coinbase.rs\<close>,
  \<^verbatim>\<open>transfer.rs\<close> and \<^verbatim>\<open>stake.rs\<close>, and the genesis block built from them,
  \<^verbatim>\<open>initial_staker.rs\<close> and \<^verbatim>\<open>block.rs\<close>. The record \<open>alpha_externs\<close>
  adds the hexadecimal, base58check and key pair decoders and the block codec to the external
  functions.
\<close>

section \<open>Coinbase, transfer and stake\<close>

definition coinbase_output :: "'a externs_scheme \<Rightarrow> public_key_hash \<Rightarrow> capacity_t \<Rightarrow> cell_output" where
  "coinbase_output E pkh cap =
     \<lparr>capacity = cap, cell_type = Coinbase, data = bincode_coinbase_state E, lock = pkh\<rparr>"

definition transfer_output :: "'a externs_scheme \<Rightarrow> public_key_hash \<Rightarrow> capacity_t \<Rightarrow> cell_output" where
  "transfer_output E pkh cap =
     \<lparr>capacity = cap, cell_type = Transfer, data = bincode_transfer_state E, lock = pkh\<rparr>"

definition stake_output ::
  "'a externs_scheme \<Rightarrow> node_id \<Rightarrow> public_key_hash \<Rightarrow> capacity_t \<Rightarrow> cell_output" where
  "stake_output E nid pkh cap =
     \<lparr>capacity = cap, cell_type = Stake, data = bincode_stake_state E nid, lock = pkh\<rparr>"

definition coinbase_try_into ::
  "'a externs_scheme \<Rightarrow> (public_key_hash \<times> capacity_t) list \<Rightarrow> cell" where
  "coinbase_try_into E recipients =
     cell_new (inputs_new []) (outputs_new (map (\<lambda>(pkh, cap). coinbase_output E pkh cap) recipients))"

record transfer_operation =
  to_cell :: cell
  to_recipient_address :: public_key_hash
  to_change_address :: public_key_hash
  to_capacity :: capacity_t

definition transfer :: "'a externs_scheme \<Rightarrow> transfer_operation \<Rightarrow> keypair \<Rightarrow> (alpha_error, cell) result" where
  "transfer E op kp =
     result_bind (consume_from_cell E (to_cell op) (to_capacity op) kp) (\<lambda>r.
       let main_output = transfer_output E (to_recipient_address op) (cr_consumed r);
           outs = (if cr_residue r > FEE \<and> cr_residue r - FEE > 0
                   then [main_output, transfer_output E (to_change_address op) (cr_residue r - FEE)]
                   else [main_output])
       in Ok (cell_new (inputs_new (cr_inputs r)) (outputs_new outs)))"

record stake_operation =
  so_cell :: cell
  so_node_id :: node_id
  so_address :: public_key_hash
  so_capacity :: capacity_t

definition stake :: "'a externs_scheme \<Rightarrow> stake_operation \<Rightarrow> keypair \<Rightarrow> (alpha_error, cell) result" where
  "stake E op kp =
     result_bind (consume_from_cell E (so_cell op) (so_capacity op) kp) (\<lambda>r.
       let main_output = stake_output E (so_node_id op) (so_address op) (cr_consumed r);
           outs = (if cr_residue r > FEE \<and> cr_residue r - FEE > 0
                   then [main_output, transfer_output E (so_address op) (cr_residue r - FEE)]
                   else [main_output])
       in Ok (cell_new (inputs_new (cr_inputs r)) (outputs_new outs)))"

section \<open>The genesis block\<close>

type_synonym block_hash = hash32
type_synonym vrf_output = hash32

record alpha_block =
  ab_predecessor :: "block_hash option"
  ab_height :: u64
  ab_vrf_out :: vrf_output
  ab_cells :: "cell list"

record alpha_externs = externs +
  hex_decode :: "string \<Rightarrow> string + bytes"
  keypair_from_bytes :: "bytes \<Rightarrow> string + keypair"
  from_base58check :: "string \<Rightarrow> (u8 \<times> bytes) option"
  bincode_alpha_block :: "alpha_block \<Rightarrow> bytes"

definition hash_of_bytes :: "bytes \<Rightarrow> hash32" where
  "hash_of_bytes bs = foldl (\<lambda>h b. push_bit 8 h + ucast b) 0 bs"

datatype id_error = TryFromStringError

definition id_from_str :: "'a alpha_externs_scheme \<Rightarrow> string \<Rightarrow> (id_error, node_id) result" where
  "id_from_str E s =
     (case from_base58check E s of
        None \<Rightarrow> Err TryFromStringError
      | Some (vsn, bs) \<Rightarrow>
          if vsn \<noteq> 0 then Err TryFromStringError
          else if length bs = 32 then Ok (hash_of_bytes bs)
          else Err TryFromStringError)"

record initial_staker =
  is_keypair :: keypair
  is_node_id :: node_id
  is_total_allocation :: capacity_t
  is_staked_allocation :: capacity_t

definition staker_from_hex ::
  "'a alpha_externs_scheme \<Rightarrow> string \<Rightarrow> node_id \<Rightarrow> capacity_t \<Rightarrow> capacity_t
   \<Rightarrow> (alpha_error, initial_staker) result" where
  "staker_from_hex E kps nid tot staked =
     (case hex_decode E kps of
        Inl e \<Rightarrow> Err (AlphaHex e)
      | Inr bs \<Rightarrow> (case keypair_from_bytes E bs of
            Inl e \<Rightarrow> Err (AlphaDalek e)
          | Inr kp \<Rightarrow> Ok \<lparr>is_keypair = kp, is_node_id = nid,
                           is_total_allocation = tot, is_staked_allocation = staked\<rparr>))"

definition staker_public_key_hash :: "'a externs_scheme \<Rightarrow> initial_staker \<Rightarrow> public_key_hash" where
  "staker_public_key_hash E st = blake3 E (bincode_public_key E (kp_public (is_keypair st)))"

definition genesis_keys :: "(string \<times> string) list" where
  "genesis_keys =
    [(''ad7f2ee3958a7f3fa2c84931770f5773ef7694fdd0bb217d90f29a94199c9d7307ca3851515c89344639fe6a4077923068d1d7fc6106701213c61d34ef8e9416'',
      ''12My22AzQQosboCy6TCDFkTQwHTSuHhFN1VDcdDRPUe3H8j3DvY''),
     (''5a353c630d3faf8e2d333a0983c1c71d5e9b6aed8f4959578fbeb3d3f3172886393b576de0ac1fe86a4dd416cf032543ac1bd066eb82585f779f6ce21237c0cd'',
      ''19Y53ymnBw4LWUpiAMUzPYmYqZmukRhNHm3VyAhzMqckRcuvkf''),
     (''6f4b736b9a6894858a81696d9c96cbdacf3d49099d212213f5abce33da18716f067f8a2b9aeb602cd4163291ebbf39e0e024634f3be19bde4c490465d9095a6b'',
      ''1A2iUK1VQWMfvtmrBpXXkVJjM5eMWmTfMEcBx4TatSJeuoSH7n''),
     (''3ae38eec96146c241f6cadf01995af14f027b23b8fecbc77dbc2e3ed5fec6fc3fb4fe5534f7affc9a8f1d99e290fdb91cc26777edd6fae480cad9f735d1b3680'',
      ''12StzamTJk2jBxbdqGmT6gLfpctv9f39CmBXTsm8sBG2n6AdPxx''),
     (''aae4e1343eb40e217a60fc61e22b86925686e664d7663c09d0042eb049600e187a2049a994e5b7a3e2baa9341c697029550ee0782d83ba31fe10fa0fefd6cc52'',
      ''1tJB1qNY6R4nPGQN83hmX8bviD6dbEMXkGjfByrCVYZsNnrJSk''),
     (''8c739c713aeb69e21a37bc2aab2ab314d08627d5435754b0418a71529c3614bccdfa638fa8da6d06e98a374c1df48e3a3d2563a4c7d78d0e7589f6706a8ed0d8'',
      ''12KyV3nz5wJhqFSfEFsKAhEqMGaPD88JeeS7LA4Qsjbyf2Yqp87'')]"

text \<open>Every \<^verbatim>\<open>unwrap\<close> of \<^verbatim>\<open>genesis_stakers\<close> that fails is a panic.\<close>

fun stakers_of_keys ::
  "'a alpha_externs_scheme \<Rightarrow> (string \<times> string) list \<Rightarrow> (alpha_error, initial_staker list) result" where
  "stakers_of_keys E [] = Ok []"
| "stakers_of_keys E ((kps, ids) # ks) =
     result_bind (unwrap_result (id_from_str E ids)) (\<lambda>nid.
     result_bind (unwrap_result (staker_from_hex E kps nid 2000 1000)) (\<lambda>st.
     result_bind (stakers_of_keys E ks) (\<lambda>sts. Ok (st # sts))))"

definition genesis_stakers :: "'a alpha_externs_scheme \<Rightarrow> (alpha_error, initial_staker list) result" where
  "genesis_stakers E = stakers_of_keys E genesis_keys"

definition genesis_vrf_out :: "'a alpha_externs_scheme \<Rightarrow> (alpha_error, vrf_output) result" where
  "genesis_vrf_out E =
     (case hex_decode E ''57e1e774e97685b9dc2dbcb7a327fa96a60dcda0919ad1b75877885bd219bfc4'' of
        Inl e \<Rightarrow> Err (AlphaHex e)
      | Inr v \<Rightarrow> if length v < 32 then Panic else Ok (hash_of_bytes (take 32 v)))"

fun genesis_stakes ::
  "'a externs_scheme \<Rightarrow> cell \<Rightarrow> initial_staker list \<Rightarrow> (alpha_error, cell list) result" where
  "genesis_stakes E allocations_tx [] = Ok []"
| "genesis_stakes E allocations_tx (st # sts) =
     result_bind (stake E \<lparr>so_cell = allocations_tx, so_node_id = is_node_id st,
                          so_address = staker_public_key_hash E st,
                          so_capacity = is_staked_allocation st\<rparr> (is_keypair st)) (\<lambda>stake_tx.
     result_bind (genesis_stakes E allocations_tx sts) (\<lambda>txs. Ok (stake_tx # txs)))"

definition genesis_cells :: "'a externs_scheme \<Rightarrow> initial_staker list \<Rightarrow> (alpha_error, cell list) result" where
  "genesis_cells E sts =
     (let allocations_tx = coinbase_try_into E
            (map (\<lambda>st. (staker_public_key_hash E st, is_total_allocation st)) sts)
      in result_bind (genesis_stakes E allocations_tx sts) (\<lambda>txs. Ok (txs @ [allocations_tx])))"

definition build_genesis :: "'a alpha_externs_scheme \<Rightarrow> (alpha_error, alpha_block) result" where
  "build_genesis E =
     result_bind (genesis_stakers E) (\<lambda>sts.
     result_bind (genesis_cells E sts) (\<lambda>cs.
     result_bind (genesis_vrf_out E) (\<lambda>vrf.
       Ok \<lparr>ab_predecessor = None, ab_height = 0, ab_vrf_out = vrf, ab_cells = cs\<rparr>)))"

definition alpha_block_new :: "block_hash \<Rightarrow> u64 \<Rightarrow> vrf_output \<Rightarrow> cell list \<Rightarrow> alpha_block" where
  "alpha_block_new pred h vrf cs =
     \<lparr>ab_predecessor = Some pred, ab_height = h, ab_vrf_out = vrf, ab_cells = cs\<rparr>"

definition alpha_block_hash :: "'a alpha_externs_scheme \<Rightarrow> alpha_block \<Rightarrow> block_hash" where
  "alpha_block_hash E b = blake3 E (bincode_alpha_block E b)"

section \<open>What a spend produces\<close>

text \<open>
  A transfer and a stake pay the same way: a main output of the amount and, when the residue
  exceeds the fee, a change output of the residue less the fee.
\<close>

definition spend_outputs :: "cell_output \<Rightarrow> (capacity_t \<Rightarrow> cell_output) \<Rightarrow> capacity_t \<Rightarrow> cell_output list" where
  "spend_outputs main change res =
     outputs_new (main # (if res > FEE then [change (res - FEE)] else []))"

lemma capacity_outputs [simp]:
  "capacity (coinbase_output E pkh cap) = cap"
  "capacity (transfer_output E pkh cap) = cap"
  "capacity (stake_output E nid pkh cap) = cap"
  by (simp_all add: coinbase_output_def transfer_output_def stake_output_def)

lemma residue_exceeds_fee: "res > FEE \<and> res - FEE > 0 \<longleftrightarrow> res > FEE" for res :: capacity_t
  by (auto simp: FEE_def word_less_nat_alt unat_sub unat_gt_0 right_minus_eq)

lemma capacity_sum_mset: "mset xs = mset ys \<Longrightarrow> capacity_sum xs = capacity_sum ys"
  unfolding capacity_sum_def by (metis mset_map sum_mset_sum_list)

lemma capacity_sum_outputs_new [simp]: "capacity_sum (outputs_new os) = capacity_sum os"
  by (rule capacity_sum_mset) simp

lemma spend_outputs_sum:
  assumes "capacity main = amount" "\<And>c. capacity (change c) = c"
  shows "capacity_sum (spend_outputs main change res) + min (unat res) (unat FEE) =
         unat amount + unat res"
proof (cases "res > FEE")
  case True
  then have "unat (res - FEE) = unat res - unat FEE" "unat FEE < unat res"
    using unat_sub[of FEE res] by (auto simp: word_less_nat_alt word_le_nat_alt)
  with True assms show ?thesis by (simp add: spend_outputs_def)
next
  case False
  with assms show ?thesis by (simp add: spend_outputs_def word_less_nat_alt)
qed

lemma transfer_eq:
  "transfer E op kp = result_bind (consume_from_cell E (to_cell op) (to_capacity op) kp) (\<lambda>r.
     Ok (cell_new (inputs_new (cr_inputs r))
       (spend_outputs (transfer_output E (to_recipient_address op) (cr_consumed r))
          (transfer_output E (to_change_address op)) (cr_residue r))))"
  by (auto simp: transfer_def spend_outputs_def residue_exceeds_fee Let_def
      intro!: arg_cong2[where f = result_bind])

lemma stake_eq:
  "stake E op kp = result_bind (consume_from_cell E (so_cell op) (so_capacity op) kp) (\<lambda>r.
     Ok (cell_new (inputs_new (cr_inputs r))
       (spend_outputs (stake_output E (so_node_id op) (so_address op) (cr_consumed r))
          (transfer_output E (so_address op)) (cr_residue r))))"
  by (auto simp: stake_def spend_outputs_def residue_exceeds_fee Let_def
      intro!: arg_cong2[where f = result_bind])

text \<open>
  Value is conserved: with \<open>n\<close> the number of owned outputs that are spent, the new cell is worth
  exactly what those outputs are worth less a fee of at most \<open>FEE\<close>.
\<close>

lemma spend_spec:
  assumes "well_formed_outputs E c"
    and "capacity_sum (owned_outputs E kp c) < 2 ^ 64"
    and "0 < unat amount" "unat amount + unat FEE \<le> capacity_sum (owned_outputs E kp c)"
    and main: "capacity (main amount) = amount" and change: "\<And>x. capacity (change x) = x"
  shows "\<exists>n res c'.
    result_bind (consume_from_cell E c amount kp) (\<lambda>r.
      Ok (cell_new (inputs_new (cr_inputs r))
        (spend_outputs (main (cr_consumed r)) change (cr_residue r)))) =
    (Ok c' :: (alpha_error, cell) result) \<and>
    n \<le> length (owned_outputs E kp c) \<and>
    inputs c' = inputs_new (map (input_new E kp (cell_hash E c)) (take n (owned_positions E kp c))) \<and>
    mset (outputs c') = mset (main amount # (if res > FEE then [change (res - FEE)] else [])) \<and>
    capacity_sum (take n (owned_outputs E kp c)) = unat amount + unat res \<and>
    capacity_sum (outputs c') + min (unat res) (unat FEE) =
      capacity_sum (take n (owned_outputs E kp c))"
proof -
  have "unat amount + 3 \<le> capacity_sum (owned_outputs E kp c)"
    using assms(4) by (simp add: FEE_def)
  with assms(1-3) obtain n res where
    "n \<le> length (owned_outputs E kp c)"
    "consume_from_cell E c amount kp = Ok \<lparr>cr_consumed = amount, cr_residue = res,
       cr_inputs = map (input_new E kp (cell_hash E c)) (take n (owned_positions E kp c))\<rparr>"
    "capacity_sum (take n (owned_outputs E kp c)) = unat amount + unat res"
    by (rule consume_from_cell_spec)
  then show ?thesis
    using spend_outputs_sum[of "main amount" amount change res] main change
    by (intro exI[of _ n] exI[of _ res] exI[of _ "cell_new (inputs_new (map (input_new E kp
          (cell_hash E c)) (take n (owned_positions E kp c)))) (spend_outputs (main amount) change res)"])
       (simp add: cell_new_def spend_outputs_def)
qed

text \<open>
  C30: A transfer conserves capacity. When the owned outputs cover the amount and the fee, it
  succeeds; the new cell spends a prefix of the owned outputs, pays the amount to the recipient and
  the rest to the change address, and its outputs plus a fee of at most \<open>FEE\<close> are worth exactly
  what was spent.
\<close>

theorem transfer_conserves_capacity:
  assumes "well_formed_outputs E (to_cell op)"
    and "capacity_sum (owned_outputs E kp (to_cell op)) < 2 ^ 64"
    and "to_capacity op \<noteq> 0"
    and "unat (to_capacity op) + unat FEE \<le> capacity_sum (owned_outputs E kp (to_cell op))"
  shows "\<exists>n res c'. transfer E op kp = Ok c' \<and> n \<le> length (owned_outputs E kp (to_cell op)) \<and>
    inputs c' = inputs_new (map (input_new E kp (cell_hash E (to_cell op)))
                             (take n (owned_positions E kp (to_cell op)))) \<and>
    mset (outputs c') = mset (transfer_output E (to_recipient_address op) (to_capacity op) #
       (if res > FEE then [transfer_output E (to_change_address op) (res - FEE)] else [])) \<and>
    capacity_sum (take n (owned_outputs E kp (to_cell op))) = unat (to_capacity op) + unat res \<and>
    capacity_sum (outputs c') + min (unat res) (unat FEE) =
      capacity_sum (take n (owned_outputs E kp (to_cell op)))"
  unfolding transfer_eq
  by (rule spend_spec[where main = "transfer_output E (to_recipient_address op)"])
     (use assms in \<open>simp_all add: unat_gt_0\<close>)

theorem transfer_conserves_capacity_witness:
  "\<exists>c'. transfer example_externs \<lparr>to_cell = example_cell, to_recipient_address = 2,
      to_change_address = 1, to_capacity = 6\<rparr> (example_keypair 1) = Ok c'"
  using transfer_conserves_capacity[of example_externs "\<lparr>to_cell = example_cell,
      to_recipient_address = 2, to_change_address = 1, to_capacity = 6\<rparr>" "example_keypair 1"]
  by (auto simp: example_cell_facts FEE_def)

text \<open>
  A stake conserves capacity in the same way; its main output is a stake output for the node,
  and the change goes back to the staking address.
\<close>

theorem stake_conserves_capacity:
  assumes "well_formed_outputs E (so_cell op)"
    and "capacity_sum (owned_outputs E kp (so_cell op)) < 2 ^ 64"
    and "so_capacity op \<noteq> 0"
    and "unat (so_capacity op) + unat FEE \<le> capacity_sum (owned_outputs E kp (so_cell op))"
  shows "\<exists>n res c'. stake E op kp = Ok c' \<and> n \<le> length (owned_outputs E kp (so_cell op)) \<and>
    inputs c' = inputs_new (map (input_new E kp (cell_hash E (so_cell op)))
                             (take n (owned_positions E kp (so_cell op)))) \<and>
    mset (outputs c') = mset (stake_output E (so_node_id op) (so_address op) (so_capacity op) #
       (if res > FEE then [transfer_output E (so_address op) (res - FEE)] else [])) \<and>
    capacity_sum (take n (owned_outputs E kp (so_cell op))) = unat (so_capacity op) + unat res \<and>
    capacity_sum (outputs c') + min (unat res) (unat FEE) =
      capacity_sum (take n (owned_outputs E kp (so_cell op)))"
  unfolding stake_eq
  by (rule spend_spec[where main = "stake_output E (so_node_id op) (so_address op)"])
     (use assms in \<open>simp_all add: unat_gt_0\<close>)

theorem stake_conserves_capacity_witness:
  "\<exists>c'. stake example_externs \<lparr>so_cell = example_cell, so_node_id = 9, so_address = 1,
      so_capacity = 6\<rparr> (example_keypair 1) = Ok c'"
  using stake_conserves_capacity[of example_externs "\<lparr>so_cell = example_cell, so_node_id = 9,
      so_address = 1, so_capacity = 6\<rparr>" "example_keypair 1"]
  by (auto simp: example_cell_facts FEE_def)

section \<open>The cells of the genesis block\<close>

lemma stakers_of_keys_allocation:
  "stakers_of_keys E ks = Ok sts \<Longrightarrow> length sts = length ks \<and>
     (\<forall>st \<in> set sts. is_total_allocation st = 2000 \<and> is_staked_allocation st = 1000)"
proof (induction ks arbitrary: sts)
  case (Cons k ks)
  then obtain nid st sts' where
    "unwrap_result (staker_from_hex E (fst k) nid 2000 1000) = (Ok st :: (alpha_error, _) result)"
    "stakers_of_keys E ks = Ok sts'" "sts = st # sts'"
    by (cases k) (auto simp: result_simps)
  moreover then have "staker_from_hex E (fst k) nid 2000 1000 = Ok st"
    by (cases "staker_from_hex E (fst k) nid 2000 1000") (auto simp: unwrap_result_def)
  ultimately show ?case
    using Cons.IH by (auto simp: staker_from_hex_def split: sum.splits)
qed auto

lemma length_genesis_keys: "length genesis_keys = 6"
  by (simp add: genesis_keys_def)

definition allocations_cell :: "'a externs_scheme \<Rightarrow> initial_staker list \<Rightarrow> cell" where
  "allocations_cell E sts = coinbase_try_into E
     (map (\<lambda>st. (staker_public_key_hash E st, is_total_allocation st)) sts)"

lemma outputs_allocations_cell:
  "outputs (allocations_cell E sts) = outputs_new
     (map (\<lambda>st. coinbase_output E (staker_public_key_hash E st) (is_total_allocation st)) sts)"
  by (simp add: allocations_cell_def coinbase_try_into_def cell_new_def comp_def)

lemma filter_distinct_key:
  "distinct (map f xs) \<Longrightarrow> x \<in> set xs \<Longrightarrow> filter (\<lambda>y. f y = f x) xs = [x]"
proof (induction xs)
  case (Cons a xs)
  then show ?case
    by (cases "x = a") (force simp: filter_empty_conv image_iff)+
qed simp

lemma owned_allocation:
  assumes "distinct (map (staker_public_key_hash E) sts)" "st \<in> set sts"
  shows "owned_outputs E (is_keypair st) (allocations_cell E sts) =
    [coinbase_output E (staker_public_key_hash E st) (is_total_allocation st)]"
proof -
  let ?f = "\<lambda>st. coinbase_output E (staker_public_key_hash E st) (is_total_allocation st)"
  have pk: "public_key_hash_of E (kp_public (is_keypair st)) = staker_public_key_hash E st"
    by (simp add: public_key_hash_of_def staker_public_key_hash_def)
  have "mset (filter (\<lambda>out. lock out = staker_public_key_hash E st)
          (outputs (allocations_cell E sts))) =
        mset (filter (\<lambda>out. lock out = staker_public_key_hash E st) (map ?f sts))"
    by (simp add: outputs_allocations_cell)
  also have "\<dots> = mset (map ?f (filter (\<lambda>s. staker_public_key_hash E s = staker_public_key_hash E st) sts))"
    by (simp add: filter_map comp_def coinbase_output_def)
  also have "\<dots> = {#?f st#}"
    using filter_distinct_key[OF assms] by simp
  finally show ?thesis by (simp only: outputs_of_owner_def pk mset_single_iff)
qed

lemma allocations_well_formed:
  assumes "unbincode_coinbase_state E (bincode_coinbase_state E) = Inr ()"
  shows "well_formed_outputs E (allocations_cell E sts)"
  using assms by (auto simp: well_formed_outputs_def outputs_allocations_cell validate_output_def
      coinbase_output_def)

text \<open>One staker's stake out of the allocations.\<close>

lemma genesis_stake:
  assumes "unbincode_coinbase_state E (bincode_coinbase_state E) = Inr ()"
    and "distinct (map (staker_public_key_hash E) sts)" "st \<in> set sts"
    and alloc: "is_total_allocation st = 2000" "is_staked_allocation st = 1000"
  shows "\<exists>i tx. stake E \<lparr>so_cell = allocations_cell E sts, so_node_id = is_node_id st,
      so_address = staker_public_key_hash E st, so_capacity = is_staked_allocation st\<rparr>
      (is_keypair st) = Ok tx \<and>
    inputs tx = [input_new E (is_keypair st) (cell_hash E (allocations_cell E sts)) i] \<and>
    mset (outputs tx) = {#stake_output E (is_node_id st) (staker_public_key_hash E st) 1000,
                         transfer_output E (staker_public_key_hash E st) 997#}"
proof -
  let ?c = "allocations_cell E sts" and ?kp = "is_keypair st"
  let ?o = "[coinbase_output E (staker_public_key_hash E st) 2000]"
  have own: "owned_outputs E ?kp ?c = ?o"
    using owned_allocation[OF assms(2,3)] alloc by simp
  obtain n res where n: "0 < n" "n \<le> length ?o"
    and run: "consume_from_cell E ?c 1000 ?kp = Ok \<lparr>cr_consumed = 1000, cr_residue = res,
       cr_inputs = map (input_new E ?kp (cell_hash E ?c)) (take n (owned_positions E ?kp ?c))\<rparr>"
    and tot: "capacity_sum (take n ?o) = unat (1000 :: u64) + unat res"
    using consume_from_cell_ex[OF allocations_well_formed[OF assms(1)], of sts ?kp 1000]
    unfolding own by (auto simp: FEE_def)
  have n1: "n = 1" using n by simp
  then have "unat res = unat (1000 :: u64)" using tot by simp
  then have res: "res = 1000" by (simp only: word_unat_eq_iff)
  have "length (owned_positions E ?kp ?c) = 1"
    using arg_cong[OF own, of length] by (simp add: outputs_of_owner_def)
  then obtain i where "owned_positions E ?kp ?c = [i]"
    by (cases "owned_positions E ?kp ?c") auto
  then show ?thesis
    using run n1 res alloc
    by (auto simp: stake_eq cell_new_def spend_outputs_def inputs_new_def hs_extend_def
        hs_insert_def FEE_def)
qed

definition is_genesis_stake :: "'a externs_scheme \<Rightarrow> cell \<Rightarrow> initial_staker \<Rightarrow> cell \<Rightarrow> bool" where
  "is_genesis_stake E alloc st tx \<longleftrightarrow>
     (\<exists>i. inputs tx = [input_new E (is_keypair st) (cell_hash E alloc) i]) \<and>
     mset (outputs tx) = {#stake_output E (is_node_id st) (staker_public_key_hash E st) 1000,
                          transfer_output E (staker_public_key_hash E st) 997#}"

lemma genesis_stakes_all:
  assumes "unbincode_coinbase_state E (bincode_coinbase_state E) = Inr ()"
    and "distinct (map (staker_public_key_hash E) sts)"
    and "\<forall>st \<in> set sts. is_total_allocation st = 2000 \<and> is_staked_allocation st = 1000"
    and "set xs \<subseteq> set sts"
  shows "\<exists>txs. genesis_stakes E (allocations_cell E sts) xs = Ok txs \<and>
               list_all2 (is_genesis_stake E (allocations_cell E sts)) xs txs"
  using assms(4)
proof (induction xs)
  case (Cons st xs)
  then show ?case
    using genesis_stake[OF assms(1,2), of st] assms(3) by (auto simp: is_genesis_stake_def)
qed simp

lemma allocations_capacity:
  "\<forall>st \<in> set sts. is_total_allocation st = 2000 \<Longrightarrow>
   capacity_sum (outputs (allocations_cell E sts)) = 2000 * length sts"
  unfolding outputs_allocations_cell capacity_sum_outputs_new
  by (induction sts) (auto simp: capacity_sum_def)

text \<open>
  C31: The genesis block exists and has the intended cells. When the built-in keys decode to
  stakers with different addresses and the coinbase state decodes, \<^verbatim>\<open>build_genesis\<close>
  returns a block of height zero without predecessor holding one stake cell per staker, which
  stakes 1000 of its 2000 and returns 997 after the fee, and the coinbase cell with all 12000.
\<close>

theorem build_genesis_cells:
  assumes "genesis_stakers E = Ok sts" "genesis_vrf_out E = Ok vrf"
    and "distinct (map (staker_public_key_hash E) sts)"
    and "unbincode_coinbase_state E (bincode_coinbase_state E) = Inr ()"
  shows "\<exists>txs. build_genesis E = Ok \<lparr>ab_predecessor = None, ab_height = 0, ab_vrf_out = vrf,
            ab_cells = txs @ [allocations_cell E sts]\<rparr> \<and>
          length txs = 6 \<and>
          list_all2 (is_genesis_stake E (allocations_cell E sts)) sts txs \<and>
          capacity_sum (outputs (allocations_cell E sts)) = 12000"
proof -
  have len: "length sts = 6" and
    alloc: "\<forall>st \<in> set sts. is_total_allocation st = 2000 \<and> is_staked_allocation st = 1000"
    using stakers_of_keys_allocation[of E genesis_keys sts] assms(1)
    by (auto simp: genesis_stakers_def length_genesis_keys)
  obtain txs where txs: "genesis_stakes E (allocations_cell E sts) sts = Ok txs"
    "list_all2 (is_genesis_stake E (allocations_cell E sts)) sts txs"
    using genesis_stakes_all[OF assms(4,3) alloc] by blast
  moreover from txs have "genesis_cells E sts = Ok (txs @ [allocations_cell E sts])"
    by (simp add: genesis_cells_def Let_def flip: allocations_cell_def)
  ultimately show ?thesis
    using assms len alloc allocations_capacity[of sts E] list_all2_lengthD[OF txs(2)]
    by (simp add: build_genesis_def)
qed

definition example_hex_decode :: "string \<Rightarrow> string + bytes" where
  "example_hex_decode s = Inr (of_char (s ! 0) # of_char (s ! 1) # replicate 62 0)"

definition example_keypair_from_bytes :: "bytes \<Rightarrow> string + keypair" where
  "example_keypair_from_bytes bs = Inr (example_keypair (ucast (bs ! 0 + bs ! 1)))"

definition example_alpha_externs :: alpha_externs where
  "example_alpha_externs = externs.extend example_externs
     (alpha_externs.fields example_hex_decode example_keypair_from_bytes
       (\<lambda>s. Some (0, replicate 32 0)) (\<lambda>b. []))"

lemma example_alpha_externs_simps [simp]:
  "blake3 example_alpha_externs = foldl (\<lambda>h b. 256 * h + ucast b) 0"
  "bincode_public_key example_alpha_externs = (\<lambda>pk. [ucast pk])"
  "bincode_coinbase_state example_alpha_externs = []"
  "unbincode_coinbase_state example_alpha_externs = (\<lambda>bs. Inr ())"
  "hex_decode example_alpha_externs = example_hex_decode"
  "keypair_from_bytes example_alpha_externs = example_keypair_from_bytes"
  "from_base58check example_alpha_externs = (\<lambda>s. Some (0, replicate 32 0))"
  by (simp_all add: example_alpha_externs_def externs.defs alpha_externs.defs)

lemma example_id: "id_from_str example_alpha_externs s = Ok (hash_of_bytes (replicate 32 0))"
  by (simp add: id_from_str_def)

lemma example_staker:
  "staker_from_hex example_alpha_externs (c # d # s) nid a b =
     Ok \<lparr>is_keypair = example_keypair (ucast (of_char c + of_char d :: u8)), is_node_id = nid,
         is_total_allocation = a, is_staked_allocation = b\<rparr>"
  by (simp add: staker_from_hex_def example_hex_decode_def example_keypair_from_bytes_def)

lemma example_genesis:
  "genesis_vrf_out example_alpha_externs = Ok (hash_of_bytes (take 32 (53 # 55 # replicate 62 0)))"
  "\<exists>sts. genesis_stakers example_alpha_externs = Ok sts \<and>
     map (staker_public_key_hash example_alpha_externs) sts = [197, 150, 156, 148, 194, 155]"
proof -
  show "genesis_vrf_out example_alpha_externs = Ok (hash_of_bytes (take 32 (53 # 55 # replicate 62 0)))"
    by (simp add: genesis_vrf_out_def example_hex_decode_def del: take_Cons_numeral)
  show "\<exists>sts. genesis_stakers example_alpha_externs = Ok sts \<and>
     map (staker_public_key_hash example_alpha_externs) sts = [197, 150, 156, 148, 194, 155]"
    by (simp add: genesis_stakers_def genesis_keys_def example_id example_staker unwrap_result_def
        staker_public_key_hash_def)
qed

theorem build_genesis_cells_witness:
  "\<exists>b. build_genesis example_alpha_externs = Ok b \<and> length (ab_cells b) = 7"
proof -
  obtain sts where s: "genesis_stakers example_alpha_externs = Ok sts"
    "map (staker_public_key_hash example_alpha_externs) sts = [197, 150, 156, 148, 194, 155]"
    using example_genesis(2) by (elim exE conjE) (rule that)
  have d: "distinct (map (staker_public_key_hash example_alpha_externs) sts)"
    unfolding s(2) by simp
  have cod: "unbincode_coinbase_state example_alpha_externs
      (bincode_coinbase_state example_alpha_externs) = Inr ()"
    by simp
  obtain txs vrf where "build_genesis example_alpha_externs = Ok \<lparr>ab_predecessor = None,
      ab_height = 0, ab_vrf_out = vrf, ab_cells = txs @ [allocations_cell example_alpha_externs sts]\<rparr>"
    "length txs = 6"
    using build_genesis_cells[OF s(1) example_genesis(1) d cod] by (elim exE conjE) (rule that)
  then show ?thesis by simp
qed

end
