(* ===== verification/Util.thy ===== *)
theory Util
  imports Alpha_Ops Complex_Main
begin

text \<open>
  Node identities (\<^verbatim>\<open>src/zfx_id.rs\<close>) and the helpers of the consensus components
  (\<^verbatim>\<open>src/util.rs\<close>): weights, weighted sampling, parsing of peers.

  An \<^verbatim>\<open>f64\<close> that the sources compute is finite and not negative, positive infinity or not a
  number; a finite one is its rational value. Addition, division and the conversion from
  integers round, and the rounding is the parameter \<open>rnd\<close> of the definitions that calculate with
  weights.
\<close>

section \<open>Identities\<close>

text \<open>The keyed hash of \<^verbatim>\<open>zfx_id.rs\<close> comes from the crate \<^verbatim>\<open>blake2\<close>; it is the parameter \<open>H\<close>.\<close>

definition u64_to_be_bytes :: "u64 \<Rightarrow> bytes" where
  "u64_to_be_bytes w = map (\<lambda>i. ucast (drop_bit (8 * (7 - i)) w)) [0..<8]"

definition id_new :: "(bytes \<Rightarrow> hash32) \<Rightarrow> bytes \<Rightarrow> node_id" where
  "id_new H bs = H bs"

definition id_from_hash :: "bytes \<Rightarrow> node_id" where
  "id_from_hash bs = hash_of_bytes (take 32 bs @ replicate (32 - length bs) 0)"

definition id_from_ip :: "(bytes \<Rightarrow> hash32) \<Rightarrow> ('ip \<Rightarrow> bytes) \<Rightarrow> 'ip \<Rightarrow> node_id" where
  "id_from_ip H fmt ip = id_new H (fmt ip)"

definition id_zero :: node_id where "id_zero = hash_of_bytes (replicate 32 0)"

definition id_max :: node_id where "id_max = hash_of_bytes (replicate 32 255)"

definition id_one :: node_id where "id_one = hash_of_bytes (replicate 32 1)"

definition id_two :: node_id where "id_two = hash_of_bytes (replicate 32 2)"

definition id_bytes :: "node_id \<Rightarrow> bytes" where
  "id_bytes i = bytes_of_hash i"

definition id_hash_prefix :: "(bytes \<Rightarrow> hash32) \<Rightarrow> node_id \<Rightarrow> u64 \<Rightarrow> node_id" where
  "id_hash_prefix H i p = H (u64_to_be_bytes p @ id_bytes i)"

definition id_prefix :: "(bytes \<Rightarrow> hash32) \<Rightarrow> node_id \<Rightarrow> u64 \<Rightarrow> bytes" where
  "id_prefix H i p = bytes_of_hash (H (u64_to_be_bytes p)) @ id_bytes i"

definition id_prefix_id :: "node_id \<Rightarrow> node_id \<Rightarrow> bytes" where
  "id_prefix_id i p = id_bytes p @ id_bytes i"

definition id_suffix :: "node_id \<Rightarrow> bytes \<Rightarrow> bytes" where
  "id_suffix i s = id_bytes i @ take 8 s"

definition id_index :: "node_id \<Rightarrow> nat \<Rightarrow> ('e, u8) result" where
  "id_index i n = (if n < 32 then Ok (id_bytes i ! n) else Panic)"

section \<open>Weights\<close>

datatype f64 = Fin rat | PInf | NaN

fun f64_add :: "(rat \<Rightarrow> rat) \<Rightarrow> f64 \<Rightarrow> f64 \<Rightarrow> f64" where
  "f64_add rnd (Fin a) (Fin b) = Fin (rnd (a + b))"
| "f64_add rnd NaN b = NaN"
| "f64_add rnd a NaN = NaN"
| "f64_add rnd PInf b = PInf"
| "f64_add rnd a PInf = PInf"

fun f64_div :: "(rat \<Rightarrow> rat) \<Rightarrow> f64 \<Rightarrow> f64 \<Rightarrow> f64" where
  "f64_div rnd (Fin a) (Fin b) = (if b = 0 then (if a = 0 then NaN else PInf) else Fin (rnd (a / b)))"
| "f64_div rnd PInf (Fin b) = PInf"
| "f64_div rnd (Fin a) PInf = Fin 0"
| "f64_div rnd a b = NaN"

text \<open>Comparisons with an operand that is not a number are false.\<close>

fun f64_ge :: "f64 \<Rightarrow> f64 \<Rightarrow> bool" where
  "f64_ge (Fin a) (Fin b) = (a \<ge> b)"
| "f64_ge PInf (Fin b) = True"
| "f64_ge PInf PInf = True"
| "f64_ge a b = False"

fun f64_lt :: "f64 \<Rightarrow> f64 \<Rightarrow> bool" where
  "f64_lt (Fin a) (Fin b) = (a < b)"
| "f64_lt (Fin a) PInf = True"
| "f64_lt a b = False"

abbreviation f64_gt :: "f64 \<Rightarrow> f64 \<Rightarrow> bool" where
  "f64_gt a b \<equiv> f64_lt b a"

definition f64_of_u64 :: "(rat \<Rightarrow> rat) \<Rightarrow> u64 \<Rightarrow> f64" where
  "f64_of_u64 rnd w = Fin (rnd (of_nat (unat w)))"

type_synonym weight = f64

definition percent_of :: "(rat \<Rightarrow> rat) \<Rightarrow> u64 \<Rightarrow> u64 \<Rightarrow> f64" where
  "percent_of rnd qty tot = f64_div rnd (f64_of_u64 rnd qty) (f64_of_u64 rnd tot)"

definition sum_outcomes :: "(rat \<Rightarrow> rat) \<Rightarrow> (node_id \<times> weight \<times> bool) list \<Rightarrow> f64" where
  "sum_outcomes rnd outcomes =
     foldl (\<lambda>acc (_, w, res). if res then f64_add rnd acc w else acc) (Fin 0) outcomes"

text \<open>
  The loop of \<^verbatim>\<open>sample_weighted\<close>; the list comes shuffled, and the shuffle of the crate
  \<^verbatim>\<open>rand\<close> is a parameter.
\<close>

fun sample_loop ::
  "(rat \<Rightarrow> rat) \<Rightarrow> weight \<Rightarrow> (node_id \<times> 'ip \<times> weight) list \<Rightarrow> (node_id \<times> 'ip) list \<Rightarrow> weight
   \<Rightarrow> (node_id \<times> 'ip) list \<times> weight" where
  "sample_loop rnd min_w [] sample w = (sample, w)"
| "sample_loop rnd min_w ((i, ip, w_v) # vs) sample w =
     (if f64_ge w min_w then (sample, w)
      else sample_loop rnd min_w vs (sample @ [(i, ip)]) (f64_add rnd w w_v))"

definition sample_weighted ::
  "(rat \<Rightarrow> rat) \<Rightarrow> ((node_id \<times> 'ip \<times> weight) list \<Rightarrow> (node_id \<times> 'ip \<times> weight) list) \<Rightarrow> weight
   \<Rightarrow> (node_id \<times> 'ip \<times> weight) list \<Rightarrow> (node_id \<times> 'ip) list option" where
  "sample_weighted rnd shuffle min_w vs =
     (case sample_loop rnd min_w (shuffle vs) [] (Fin 0) of
        (sample, w) \<Rightarrow> if f64_lt w min_w then None else Some sample)"

section \<open>Peer descriptions\<close>

datatype peer_error = PeerParseError

fun split_at_from :: "string \<Rightarrow> string \<Rightarrow> string list" where
  "split_at_from part [] = [part]"
| "split_at_from part (c # cs) = (if c = CHR ''@'' then part # split_at_from [] cs else split_at_from (part @ [c]) cs)"

text \<open>
  \<^verbatim>\<open>to_socket_addrs\<close> asks the resolver of the operating system: \<open>resolve\<close> is the list of
  addresses it returns, if it succeeds. An empty list makes the \<^verbatim>\<open>unwrap\<close> panic.
\<close>

definition first_address :: "(string \<Rightarrow> 'ip list option) \<Rightarrow> string \<Rightarrow> (peer_error, 'ip) result" where
  "first_address resolve s =
     (case resolve s of None \<Rightarrow> Err PeerParseError | Some [] \<Rightarrow> Panic | Some (ip # _) \<Rightarrow> Ok ip)"

definition parse_id_and_ip ::
  "'a alpha_externs_scheme \<Rightarrow> (bytes \<Rightarrow> hash32) \<Rightarrow> ('ip \<Rightarrow> bytes) \<Rightarrow> (string \<Rightarrow> 'ip list option)
   \<Rightarrow> string \<Rightarrow> (peer_error, node_id \<times> 'ip) result" where
  "parse_id_and_ip E H fmt resolve s =
     (case split_at_from [] s of
        [ip_str] \<Rightarrow> result_bind (first_address resolve ip_str) (\<lambda>ip. Ok (id_from_ip H fmt ip, ip))
      | [id_str, ip_str] \<Rightarrow>
          result_bind (map_err (\<lambda>_. PeerParseError) (id_from_str E id_str)) (\<lambda>i.
          result_bind (first_address resolve ip_str) (\<lambda>ip. Ok (i, ip)))
      | _ \<Rightarrow> Err PeerParseError)"

section \<open>Lemmas\<close>

lemma append_byte:
  fixes h :: "'a::len word"
  shows "push_bit 8 (drop_bit (k + 8) h) + ucast (ucast (drop_bit k h) :: u8) = drop_bit k h"
proof -
  have "ucast (ucast (drop_bit k h) :: u8) = take_bit 8 (drop_bit k h)"
    by (rule bit_word_eqI) (simp add: bit_simps)
  moreover have "drop_bit (k + 8) h = drop_bit 8 (drop_bit k h)" by (simp add: add.commute)
  ultimately show ?thesis by (simp only: bits_ident)
qed

lemma hash_of_bytes_prefix:
  "n \<le> 32 \<Longrightarrow> hash_of_bytes (take n (bytes_of_hash h)) = drop_bit (8 * (32 - n)) h"
proof (induction n)
  case 0
  show ?case by (simp add: hash_of_bytes_def)
next
  case (Suc n)
  have "take (Suc n) (bytes_of_hash h) = take n (bytes_of_hash h) @ [ucast (drop_bit (8 * (31 - n)) h)]"
    using Suc.prems by (simp add: take_Suc_conv_app_nth) (simp add: bytes_of_hash_def)
  moreover have "8 * (32 - n) = 8 * (31 - n) + 8" using Suc.prems by simp
  ultimately have "hash_of_bytes (take (Suc n) (bytes_of_hash h)) =
      push_bit 8 (drop_bit (8 * (31 - n) + 8) h) + ucast (ucast (drop_bit (8 * (31 - n)) h) :: u8)"
    using Suc by (simp add: hash_of_bytes_def)
  then show ?case using append_byte[of "8 * (31 - n)" h] by simp
qed

lemma hash_of_bytes_of_hash [simp]: "hash_of_bytes (bytes_of_hash h) = h"
  using hash_of_bytes_prefix[of 32 h] by simp

lemma bytes_of_hash_eq_iff [simp]: "bytes_of_hash a = bytes_of_hash b \<longleftrightarrow> a = b"
  by (metis hash_of_bytes_of_hash)

definition weight_sum :: "(rat \<Rightarrow> rat) \<Rightarrow> (node_id \<times> 'ip \<times> weight) list \<Rightarrow> weight" where
  "weight_sum rnd vs = foldl (\<lambda>w (_, _, w_v). f64_add rnd w w_v) (Fin 0) vs"

lemma weight_sum_snoc: "weight_sum rnd (vs @ [(i, ip, w)]) = f64_add rnd (weight_sum rnd vs) w"
  by (simp add: weight_sum_def)

lemma f64_ge_not_lt: "f64_ge a b \<Longrightarrow> \<not> f64_lt a b"
  by (cases a; cases b) auto

lemma sample_loop_spec:
  assumes "sample_loop rnd min_w vs (map (\<lambda>(i, ip, _). (i, ip)) pre) (weight_sum rnd pre) = (sample, w)"
  shows "\<exists>k \<le> length vs. sample = map (\<lambda>(i, ip, _). (i, ip)) (pre @ take k vs) \<and>
    w = weight_sum rnd (pre @ take k vs) \<and>
    (\<forall>j < k. \<not> f64_ge (weight_sum rnd (pre @ take j vs)) min_w) \<and>
    (k = length vs \<or> f64_ge w min_w)"
  using assms
proof (induction vs arbitrary: pre)
  case (Cons v vs)
  obtain i ip wv where v: "v = (i, ip, wv)" by (cases v)
  show ?case
  proof (cases "f64_ge (weight_sum rnd pre) min_w")
    case True
    with Cons.prems v show ?thesis by (intro exI[of _ 0]) auto
  next
    case False
    with Cons.prems v have "sample_loop rnd min_w vs (map (\<lambda>(i, ip, _). (i, ip)) (pre @ [v]))
        (weight_sum rnd (pre @ [v])) = (sample, w)"
      by (simp add: weight_sum_snoc)
    from Cons.IH[OF this] obtain k where k: "k \<le> length vs"
      "sample = map (\<lambda>(i, ip, _). (i, ip)) (pre @ v # take k vs)"
      "w = weight_sum rnd (pre @ v # take k vs)"
      "\<forall>j < k. \<not> f64_ge (weight_sum rnd (pre @ v # take j vs)) min_w"
      "k = length vs \<or> f64_ge w min_w"
      by auto
    have "\<not> f64_ge (weight_sum rnd (pre @ take j (v # vs))) min_w" if "j < Suc k" for j
      using that k(4) False by (cases j) auto
    with k show ?thesis by (intro exI[of _ "Suc k"]) auto
  qed
qed (intro exI[of _ 0], simp)

section \<open>Properties\<close>

text \<open>
  C35: Weighted sampling. The sample is a prefix of the shuffled validators, hence no validator occurs
  in it more often than in the committee; its weight is not below the minimum and no shorter prefix
  reaches the minimum. Sampling fails only if all the validators together weigh less than the
  minimum.
\<close>

theorem sample_weighted_minimal:
  assumes "mset (shuffle vs) = mset vs"
  shows "case sample_weighted rnd shuffle min_w vs of
      Some sample \<Rightarrow> \<exists>k \<le> length vs. sample = map (\<lambda>(i, ip, _). (i, ip)) (take k (shuffle vs)) \<and>
        mset sample \<subseteq># mset (map (\<lambda>(i, ip, _). (i, ip)) vs) \<and>
        \<not> f64_lt (weight_sum rnd (take k (shuffle vs))) min_w \<and>
        (\<forall>j < k. \<not> f64_ge (weight_sum rnd (take j (shuffle vs))) min_w)
    | None \<Rightarrow> f64_lt (weight_sum rnd (shuffle vs)) min_w"
proof -
  obtain sample w where l: "sample_loop rnd min_w (shuffle vs) [] (Fin 0) = (sample, w)" by fastforce
  have len: "length (shuffle vs) = length vs" using assms by (rule mset_eq_length)
  from l sample_loop_spec[of rnd min_w "shuffle vs" "[]" sample w] obtain k where k: "k \<le> length vs"
    "sample = map (\<lambda>(i, ip, _). (i, ip)) (take k (shuffle vs))"
    "w = weight_sum rnd (take k (shuffle vs))"
    "\<forall>j < k. \<not> f64_ge (weight_sum rnd (take j (shuffle vs))) min_w"
    "k = length vs \<or> f64_ge w min_w"
    using len by (auto simp: weight_sum_def)
  have "mset (map (\<lambda>(i, ip, _). (i, ip)) (take k (shuffle vs))) \<subseteq>#
      mset (map (\<lambda>(i, ip, _). (i, ip)) (take k (shuffle vs) @ drop k (shuffle vs)))"
    unfolding map_append mset_append by simp
  then have "mset sample \<subseteq># mset (map (\<lambda>(i, ip, _). (i, ip)) vs)"
    using k(2) assms by simp
  moreover have "f64_lt (weight_sum rnd (shuffle vs)) min_w" if "f64_lt w min_w"
    using that k(3,5) f64_ge_not_lt[of w min_w] len by auto
  ultimately show ?thesis
    using k l by (auto simp: sample_weighted_def)
qed

theorem sample_weighted_minimal_witness:
  "sample_weighted id rev (Fin (1/2)) [(1, 10 :: nat, Fin (3/10)), (2, 20, Fin (3/10)), (3, 30, Fin (4/10))]
     = Some [(3, 30), (2, 20)]"
  using sample_weighted_minimal[of rev "[(1, 10 :: nat, Fin (3/10)), (2, 20, Fin (3/10)), (3, 30, Fin (4/10))]"
      id "Fin (1/2)"]
  by (simp add: sample_weighted_def)

text \<open>
  Identities and their bytes. The bytes of an identity restore it, the two identities in a
  prefixed key can be told apart, and so can those of a suffixed key.
\<close>

theorem id_bytes_roundtrip:
  "id_from_hash (id_bytes i) = i \<and> length (id_prefix_id i p) = 64 \<and>
   (id_prefix_id i p = id_prefix_id i' p' \<longleftrightarrow> i = i' \<and> p = p') \<and>
   (id_suffix i s = id_suffix i' s' \<longleftrightarrow> i = i' \<and> take 8 s = take 8 s')"
  by (auto simp: id_from_hash_def id_bytes_def id_prefix_id_def id_suffix_def)

end
