(* ===== verification/Storage.thy ===== *)
theory Storage
  imports Util
begin

text \<open>
  The storage layer \<^verbatim>\<open>src/storage\<close> over the embedded database \<^verbatim>\<open>sled\<close>, and the data it
  stores: transactions (\<^verbatim>\<open>sleet/tx.rs\<close>) and consensus blocks (\<^verbatim>\<open>hail/block.rs\<close>).

  The database and the codec are third-party crates: the record \<open>storage_externs\<close> has the calls
  the sources make, over a type of databases and a type of encoded values. \<open>sled_ok\<close> is the documented
  behaviour of a database that does not fail, \<open>tx_codec_ok\<close> that a transaction can be decoded again.
\<close>

section \<open>What is stored\<close>

datatype tx_status = TxPending | TxQueried | TxAccepted | TxRejected | TxRemoved

type_synonym tx_hash_t = hash32
type_synonym socket_addr = "bytes \<times> 16 word"

record tx =
  tx_parents :: "tx_hash_t list"
  tx_cell :: cell
  tx_status :: tx_status

definition tx_new :: "tx_hash_t list \<Rightarrow> cell \<Rightarrow> tx" where
  "tx_new ps c = \<lparr>tx_parents = ps, tx_cell = c, tx_status = TxPending\<rparr>"

definition tx_hash :: "'a externs_scheme \<Rightarrow> tx \<Rightarrow> tx_hash_t" where
  "tx_hash E t = cell_hash E (tx_cell t)"

record vertex =
  vx_height :: u64
  vx_block_hash :: block_hash

record hail_block =
  hb_parent :: "vertex option"
  hb_block :: alpha_block

definition hail_block_new :: "vertex option \<Rightarrow> alpha_block \<Rightarrow> hail_block" where
  "hail_block_new p b = \<lparr>hb_parent = p, hb_block = b\<rparr>"

definition hb_height :: "hail_block \<Rightarrow> u64" where
  "hb_height b = ab_height (hb_block b)"

definition hb_vrf_output :: "hail_block \<Rightarrow> vrf_output" where
  "hb_vrf_output b = ab_vrf_out (hb_block b)"

definition hb_hash :: "'a alpha_externs_scheme \<Rightarrow> hail_block \<Rightarrow> block_hash" where
  "hb_hash E b = alpha_block_hash E (hb_block b)"

definition hb_vertex :: "'a alpha_externs_scheme \<Rightarrow> hail_block \<Rightarrow> vertex" where
  "hb_vertex E b = \<lparr>vx_height = hb_height b, vx_block_hash = hb_hash E b\<rparr>"

section \<open>Errors\<close>

datatype hail_error =
    HailActixMailbox
  | HailAlpha alpha_error
  | HailSled string
  | HailGraph graph_error
  | InvalidBlock alpha_block
  | InvalidBlockHash block_hash
  | InvalidBlockHeight u64
  | InvalidParent
  | HailInvalidConflictSet
  | HailInsufficientWeight
  | EmptyDAG

datatype storage_error =
    StorageBincode string
  | StorageSled string
  | StorageCell cell_error
  | StorageAlpha alpha_error
  | StorageHail hail_error
  | InvalidGenesis
  | UndefinedGenesis
  | InvalidHeight
  | InvalidPredecessor
  | InvalidLast
  | InvalidCell
  | InvalidTx
  | InvalidHailBlock

section \<open>The database and the codec\<close>

record ('db, 'v) storage_externs = alpha_externs +
  sled_temporary :: 'db
  sled_contains_key :: "'db \<Rightarrow> bytes \<Rightarrow> string + bool"
  sled_get :: "'db \<Rightarrow> bytes \<Rightarrow> string + 'v option"
  sled_insert :: "'db \<Rightarrow> bytes \<Rightarrow> 'v \<Rightarrow> (string + 'v option) \<times> 'db"
  sled_update_and_fetch :: "'db \<Rightarrow> bytes \<Rightarrow> ('v option \<Rightarrow> 'v option) \<Rightarrow> (string + 'v option) \<times> 'db"
  sled_first :: "'db \<Rightarrow> string + (bytes \<times> 'v) option"
  sled_last :: "'db \<Rightarrow> string + (bytes \<times> 'v) option"
  sled_range :: "'db \<Rightarrow> bytes \<Rightarrow> bytes \<Rightarrow> (string + bytes \<times> 'v) list"
  encode_tx :: "tx \<Rightarrow> 'v"
  decode_tx :: "'v \<Rightarrow> string + tx"
  encode_block :: "alpha_block \<Rightarrow> 'v"
  decode_block :: "'v \<Rightarrow> string + alpha_block"
  encode_hail_block :: "hail_block \<Rightarrow> 'v"
  decode_hail_block :: "'v \<Rightarrow> string + hail_block"
  encode_cell :: "cell \<Rightarrow> 'v"
  decode_cell :: "'v \<Rightarrow> string + cell"

definition of_sled :: "string + 'a \<Rightarrow> (storage_error, 'a) result" where
  "of_sled r = (case r of Inl e \<Rightarrow> Err (StorageSled e) | Inr a \<Rightarrow> Ok a)"

definition of_codec :: "string + 'a \<Rightarrow> (storage_error, 'a) result" where
  "of_codec r = (case r of Inl e \<Rightarrow> Err (StorageBincode e) | Inr a \<Rightarrow> Ok a)"

section \<open>Transactions\<close>

definition tx_key :: "tx_hash_t \<Rightarrow> bytes" where
  "tx_key h = bytes_of_hash h"

definition is_known_tx :: "('db, 'v, 'a) storage_externs_scheme \<Rightarrow> 'db \<Rightarrow> tx_hash_t \<Rightarrow> (storage_error, bool) result" where
  "is_known_tx E db h = of_sled (sled_contains_key E db (tx_key h))"

definition insert_tx ::
  "('db, 'v, 'a) storage_externs_scheme \<Rightarrow> 'db \<Rightarrow> tx \<Rightarrow> (storage_error, 'v option) result \<times> 'db" where
  "insert_tx E db t =
     (case sled_insert E db (tx_key (tx_hash E t)) (encode_tx E t) of (r, db') \<Rightarrow> (of_sled r, db'))"

definition get_tx ::
  "('db, 'v, 'a) storage_externs_scheme \<Rightarrow> 'db \<Rightarrow> tx_hash_t \<Rightarrow> (storage_error, tx_hash_t \<times> tx) result" where
  "get_tx E db h =
     (case sled_get E db (tx_key h) of
        Inr (Some v) \<Rightarrow> result_bind (of_codec (decode_tx E v)) (\<lambda>t. Ok (h, t))
      | Inr None \<Rightarrow> Err InvalidTx
      | Inl e \<Rightarrow> Err (StorageSled e))"

definition is_accepted_tx ::
  "('db, 'v, 'a) storage_externs_scheme \<Rightarrow> 'db \<Rightarrow> tx_hash_t \<Rightarrow> (storage_error, bool) result" where
  "is_accepted_tx E db h =
     (case sled_get E db (tx_key h) of
        Inr (Some v) \<Rightarrow> result_bind (of_codec (decode_tx E v)) (\<lambda>t. Ok (tx_status t = TxAccepted))
      | Inr None \<Rightarrow> Err InvalidTx
      | Inl e \<Rightarrow> Err (StorageSled e))"

definition is_removed_tx ::
  "('db, 'v, 'a) storage_externs_scheme \<Rightarrow> 'db \<Rightarrow> tx_hash_t \<Rightarrow> (storage_error, bool) result" where
  "is_removed_tx E db h =
     (case sled_get E db (tx_key h) of
        Inr (Some v) \<Rightarrow> result_bind (of_codec (decode_tx E v)) (\<lambda>t. Ok (tx_status t = TxRemoved))
      | Inr None \<Rightarrow> Err InvalidTx
      | Inl e \<Rightarrow> Err (StorageSled e))"

definition cannot_be_accepted ::
  "('db, 'v, 'a) storage_externs_scheme \<Rightarrow> 'db \<Rightarrow> tx_hash_t \<Rightarrow> (storage_error, bool) result" where
  "cannot_be_accepted E db h =
     (case sled_get E db (tx_key h) of
        Inr (Some v) \<Rightarrow> result_bind (of_codec (decode_tx E v))
                          (\<lambda>t. Ok (tx_status t = TxRemoved \<or> tx_status t = TxRejected))
      | Inr None \<Rightarrow> Err InvalidTx
      | Inl e \<Rightarrow> Err (StorageSled e))"

text \<open>A stored value that cannot be decoded makes the closure return nothing, which deletes the entry.\<close>

definition update_closure ::
  "('db, 'v, 'a) storage_externs_scheme \<Rightarrow> (tx option \<Rightarrow> tx option) \<Rightarrow> 'v option \<Rightarrow> 'v option" where
  "update_closure E f maybe_tx =
     (case maybe_tx of
        Some v \<Rightarrow> (case decode_tx E v of Inl _ \<Rightarrow> None | Inr t \<Rightarrow> map_option (encode_tx E) (f (Some t)))
      | None \<Rightarrow> map_option (encode_tx E) (f None))"

definition update_and_fetch ::
  "('db, 'v, 'a) storage_externs_scheme \<Rightarrow> 'db \<Rightarrow> tx_hash_t \<Rightarrow> (tx option \<Rightarrow> tx option)
   \<Rightarrow> (storage_error, tx) result \<times> 'db" where
  "update_and_fetch E db h f =
     (case sled_update_and_fetch E db (tx_key h) (update_closure E f) of
        (Inr (Some v), db') \<Rightarrow> (of_codec (decode_tx E v), db')
      | (Inr None, db') \<Rightarrow> (Err InvalidTx, db')
      | (Inl e, db') \<Rightarrow> (Err (StorageSled e), db'))"

definition set_tx_status ::
  "('db, 'v, 'a) storage_externs_scheme \<Rightarrow> 'db \<Rightarrow> tx_hash_t \<Rightarrow> tx_status
   \<Rightarrow> (storage_error, unit) result \<times> 'db" where
  "set_tx_status E db h st =
     (case update_and_fetch E db h (map_option (\<lambda>t. t\<lparr>tx_status := st\<rparr>)) of
        (r, db') \<Rightarrow> (result_bind r (\<lambda>_. Ok ()), db'))"

section \<open>Blocks of the alpha chain\<close>

text \<open>The key of a block is its height in big-endian order followed by its hash.\<close>

definition block_key :: "u64 \<Rightarrow> block_hash \<Rightarrow> bytes" where
  "block_key h bh = u64_to_be_bytes h @ bytes_of_hash bh"

definition block_key_prefix :: "u64 \<Rightarrow> bytes" where
  "block_key_prefix h = u64_to_be_bytes h"

definition u64_of_be_bytes :: "bytes \<Rightarrow> u64" where
  "u64_of_be_bytes bs = foldl (\<lambda>w b. push_bit 8 w + ucast b) 0 bs"

text \<open>\<^verbatim>\<open>Key::read_from\<close> accepts exactly the byte strings of the size of a key.\<close>

definition read_block_key :: "bytes \<Rightarrow> (u64 \<times> block_hash) option" where
  "read_block_key bs =
     (if length bs = 40 then Some (u64_of_be_bytes (take 8 bs), hash_of_bytes (drop 8 bs)) else None)"

definition exists_genesis :: "('db, 'v, 'a) storage_externs_scheme \<Rightarrow> 'db \<Rightarrow> bool" where
  "exists_genesis E db = (case sled_first E db of Inr (Some _) \<Rightarrow> True | _ \<Rightarrow> False)"

definition get_genesis ::
  "('db, 'v, 'a) storage_externs_scheme \<Rightarrow> 'db \<Rightarrow> (storage_error, block_hash \<times> alpha_block) result" where
  "get_genesis E db =
     (case sled_first E db of
        Inr (Some (k, v)) \<Rightarrow> result_bind (unwrap_option (read_block_key k)) (\<lambda>(_, bh).
                               result_bind (of_codec (decode_block E v)) (\<lambda>b. Ok (bh, b)))
      | Inr None \<Rightarrow> Err InvalidGenesis
      | Inl e \<Rightarrow> Err (StorageSled e))"

definition accept_genesis ::
  "('db, 'v, 'a) storage_externs_scheme \<Rightarrow> 'db \<Rightarrow> alpha_block \<Rightarrow> (storage_error, block_hash) result \<times> 'db" where
  "accept_genesis E db genesis =
     (let key = block_key (ab_height genesis) (alpha_block_hash E genesis) in
      case sled_insert E db key (encode_block E genesis) of
        (r, db') \<Rightarrow> (result_bind (of_sled r) (\<lambda>_. Ok (alpha_block_hash E genesis)), db'))"

definition accept_next_block ::
  "('db, 'v, 'a) storage_externs_scheme \<Rightarrow> 'db \<Rightarrow> alpha_block \<Rightarrow> (storage_error, block_hash) result \<times> 'db" where
  "accept_next_block E db block =
     (case sled_last E db of
        Inr (Some (k, _)) \<Rightarrow>
          (case read_block_key k of
             None \<Rightarrow> (Err InvalidLast, db)
           | Some (h, bh) \<Rightarrow>
               if ab_height block \<noteq> h - 1 then (Err InvalidHeight, db)
               else if ab_predecessor block \<noteq> Some bh then (Err InvalidPredecessor, db)
               else
                 (let hash = alpha_block_hash E block in
                  case sled_insert E db (block_key (ab_height block) hash) (encode_block E block) of
                    (r, db') \<Rightarrow> (result_bind (of_sled r) (\<lambda>_. Ok hash), db')))
      | Inr None \<Rightarrow> (Err UndefinedGenesis, db)
      | Inl e \<Rightarrow> (Err (StorageSled e), db))"

definition is_known_block ::
  "('db, 'v, 'a) storage_externs_scheme \<Rightarrow> 'db \<Rightarrow> u64 \<Rightarrow> block_hash \<Rightarrow> (storage_error, bool) result" where
  "is_known_block E db h bh = of_sled (sled_contains_key E db (block_key h bh))"

definition insert_block ::
  "('db, 'v, 'a) storage_externs_scheme \<Rightarrow> 'db \<Rightarrow> alpha_block \<Rightarrow> (storage_error, 'v option) result \<times> 'db" where
  "insert_block E db block =
     (case sled_insert E db (block_key (ab_height block) (alpha_block_hash E block)) (encode_block E block) of
        (r, db') \<Rightarrow> (of_sled r, db'))"

definition get_last_accepted_hash ::
  "('db, 'v, 'a) storage_externs_scheme \<Rightarrow> 'db \<Rightarrow> (storage_error, block_hash) result" where
  "get_last_accepted_hash E db =
     (case sled_last E db of
        Inr (Some (k, _)) \<Rightarrow> result_bind (unwrap_option (read_block_key k)) (\<lambda>(_, bh). Ok bh)
      | Inr None \<Rightarrow> Err InvalidLast
      | Inl e \<Rightarrow> Err (StorageSled e))"

definition get_last_accepted ::
  "('db, 'v, 'a) storage_externs_scheme \<Rightarrow> 'db \<Rightarrow> (storage_error, block_hash \<times> alpha_block) result" where
  "get_last_accepted E db =
     (case sled_last E db of
        Inr (Some (k, v)) \<Rightarrow> result_bind (unwrap_option (read_block_key k)) (\<lambda>(_, bh).
                               result_bind (of_codec (decode_block E v)) (\<lambda>b. Ok (bh, b)))
      | Inr None \<Rightarrow> Err InvalidLast
      | Inl e \<Rightarrow> Err (StorageSled e))"

fun collect_blocks ::
  "('db, 'v, 'a) storage_externs_scheme \<Rightarrow> (string + bytes \<times> 'v) list \<Rightarrow> (storage_error, alpha_block list) result" where
  "collect_blocks E [] = Ok []"
| "collect_blocks E (kv # kvs) =
     (case kv of
        Inr (_, v) \<Rightarrow> result_bind (of_codec (decode_block E v)) (\<lambda>b.
                        result_bind (collect_blocks E kvs) (\<lambda>bs. Ok (b # bs)))
      | Inl e \<Rightarrow> Err (StorageSled e))"

definition get_blocks_in_range ::
  "('db, 'v, 'a) storage_externs_scheme \<Rightarrow> 'db \<Rightarrow> u64 \<Rightarrow> block_hash \<Rightarrow> u64 \<Rightarrow> block_hash
   \<Rightarrow> (storage_error, alpha_block list) result" where
  "get_blocks_in_range E db start_height start_hash end_height end_hash =
     collect_blocks E (rev (sled_range E db (block_key start_height start_hash) (block_key end_height end_hash)))"

section \<open>Consensus blocks and cells\<close>

definition is_known_hail_block ::
  "('db, 'v, 'a) storage_externs_scheme \<Rightarrow> 'db \<Rightarrow> block_hash \<Rightarrow> (storage_error, bool) result" where
  "is_known_hail_block E db bh = of_sled (sled_contains_key E db (bytes_of_hash bh))"

definition insert_hail_block ::
  "('db, 'v, 'a) storage_externs_scheme \<Rightarrow> 'db \<Rightarrow> hail_block \<Rightarrow> (storage_error, 'v option) result \<times> 'db" where
  "insert_hail_block E db b =
     (case sled_insert E db (bytes_of_hash (hb_hash E b)) (encode_hail_block E b) of (r, db') \<Rightarrow> (of_sled r, db'))"

definition get_hail_block ::
  "('db, 'v, 'a) storage_externs_scheme \<Rightarrow> 'db \<Rightarrow> block_hash \<Rightarrow> (storage_error, block_hash \<times> hail_block) result" where
  "get_hail_block E db bh =
     (case sled_get E db (bytes_of_hash bh) of
        Inr (Some v) \<Rightarrow> result_bind (of_codec (decode_hail_block E v)) (\<lambda>b. Ok (bh, b))
      | Inr None \<Rightarrow> Err InvalidHailBlock
      | Inl e \<Rightarrow> Err (StorageSled e))"

definition is_known_cell ::
  "('db, 'v, 'a) storage_externs_scheme \<Rightarrow> 'db \<Rightarrow> cell_hash_t \<Rightarrow> (storage_error, bool) result" where
  "is_known_cell E db h = of_sled (sled_contains_key E db (bytes_of_hash h))"

definition insert_stored_cell ::
  "('db, 'v, 'a) storage_externs_scheme \<Rightarrow> 'db \<Rightarrow> cell \<Rightarrow> (storage_error, 'v option) result \<times> 'db" where
  "insert_stored_cell E db c =
     (case sled_insert E db (bytes_of_hash (cell_hash E c)) (encode_cell E c) of (r, db') \<Rightarrow> (of_sled r, db'))"

definition get_stored_cell ::
  "('db, 'v, 'a) storage_externs_scheme \<Rightarrow> 'db \<Rightarrow> cell_hash_t \<Rightarrow> (storage_error, cell_hash_t \<times> cell) result" where
  "get_stored_cell E db h =
     (case sled_get E db (bytes_of_hash h) of
        Inr (Some v) \<Rightarrow> result_bind (of_codec (decode_cell E v)) (\<lambda>c. Ok (h, c))
      | Inr None \<Rightarrow> Err InvalidCell
      | Inl e \<Rightarrow> Err (StorageSled e))"

section \<open>Big-endian keys\<close>

definition be_val :: "bytes \<Rightarrow> nat" where
  "be_val bs = foldl (\<lambda>n b. 256 * n + unat b) 0 bs"

lemma be_val_snoc [simp]: "be_val (bs @ [b]) = 256 * be_val bs + unat b"
  by (simp add: be_val_def)

lemma be_val_append: "be_val (xs @ ys) = be_val xs * 256 ^ length ys + be_val ys"
proof (induction ys rule: rev_induct)
  case (snoc y ys)
  then show ?case
    using be_val_snoc[of "xs @ ys" y] by (simp add: algebra_simps)
qed (simp add: be_val_def)

lemma be_val_Cons: "be_val (x # xs) = unat x * 256 ^ length xs + be_val xs"
  using be_val_append[of "[x]" xs] by (simp add: be_val_def)

lemma be_val_less: "be_val xs < 256 ^ length xs"
proof (induction xs rule: rev_induct)
  case (snoc x xs)
  then have "be_val xs + 1 \<le> 256 ^ length xs" by simp
  then have "256 * (be_val xs + 1) \<le> 256 ^ length (xs @ [x])" by simp
  then show ?case using unat_u8_less[of x] by simp
qed (simp add: be_val_def)

lemma digits_less:
  fixes a b c d m :: nat
  assumes "c < m" and "d < m"
  shows "a * m + c < b * m + d \<longleftrightarrow> a < b \<or> a = b \<and> c < d"
proof -
  have lt: "x * m + u < y * m + v" if "x < y" "u < m" for x y u v
  proof -
    have "x * m + u < Suc x * m" using that(2) by simp
    also have "\<dots> \<le> y * m" using that(1) by (intro mult_le_mono1) simp
    finally show ?thesis by simp
  qed
  consider "a < b" | "a = b" | "b < a" by linarith
  then show ?thesis
    using lt[of a b c d] lt[of b a d c] assms by cases auto
qed

lemma be_val_mono:
  "length xs = length ys \<Longrightarrow> xs < ys \<longleftrightarrow> be_val xs < be_val ys"
proof (induction xs ys rule: list_induct2)
  case (Cons x xs y ys)
  let ?m = "256 ^ length ys :: nat"
  have b: "be_val xs < ?m" "be_val ys < ?m" using be_val_less[of xs] be_val_less[of ys] Cons.hyps by auto
  show ?case
    using digits_less[OF b, of "unat x" "unat y"] Cons.IH Cons.hyps
    by (auto simp: be_val_Cons word_less_nat_alt word_unat_eq_iff)
qed simp

lemma be_val_word:
  fixes w :: "'a::len word"
  assumes "8 * n \<ge> LENGTH('a)" and "k \<le> n"
  shows "be_val (map (\<lambda>i. ucast (drop_bit (8 * (n - 1 - i)) w)) [0..<k]) = unat (drop_bit (8 * (n - k)) w)"
  using assms(2)
proof (induction k)
  case 0
  have "drop_bit (8 * n) w = 0" using assms(1) by (intro bit_word_eqI) (simp add: bit_simps)
  then show ?case by (simp add: be_val_def)
next
  case (Suc k)
  let ?x = "drop_bit (8 * (n - Suc k)) w"
  have e: "8 * (n - k) = 8 * (n - Suc k) + 8" using Suc.prems by simp
  have "be_val (map (\<lambda>i. ucast (drop_bit (8 * (n - 1 - i)) w)) [0..<Suc k]) =
      256 * unat (drop_bit (8 * (n - k)) w) + unat (ucast ?x :: u8)"
    using Suc be_val_snoc by simp
  also have "unat (drop_bit (8 * (n - k)) w) = unat ?x div 256"
    unfolding e unat_drop_bit_eq by (simp add: drop_bit_eq_div power_add div_mult2_eq)
  also have "unat (ucast ?x :: u8) = unat ?x mod 256"
    by (simp add: unsigned_ucast_eq take_bit_eq_mod)
  finally show ?case by simp
qed

lemma be_val_hash [simp]: "be_val (bytes_of_hash h) = unat h"
  using be_val_word[of 32 32 h] by (simp add: bytes_of_hash_def)

lemma be_val_u64 [simp]: "be_val (u64_to_be_bytes w) = unat w"
  using be_val_word[of 8 8 w] by (simp add: u64_to_be_bytes_def)

lemma length_block_key [simp]: "length (block_key h bh) = 40" "length (u64_to_be_bytes h) = 8"
  by (simp_all add: block_key_def u64_to_be_bytes_def)

lemma be_val_block_key: "be_val (block_key h bh) = unat h * 2 ^ 256 + unat bh"
  by (simp add: block_key_def be_val_append)

lemma u64_of_be_bytes_snoc:
  "u64_of_be_bytes (bs @ [b]) = push_bit 8 (u64_of_be_bytes bs) + ucast b"
  by (simp add: u64_of_be_bytes_def)

lemma u64_be_roundtrip [simp]: "u64_of_be_bytes (u64_to_be_bytes w) = w"
proof -
  have "u64_of_be_bytes (take n (u64_to_be_bytes w)) = drop_bit (8 * (8 - n)) w" if "n \<le> 8" for n
    using that
  proof (induction n)
    case 0
    show ?case by (simp add: u64_of_be_bytes_def)
  next
    case (Suc n)
    have "take (Suc n) (u64_to_be_bytes w) = take n (u64_to_be_bytes w) @ [ucast (drop_bit (8 * (7 - n)) w)]"
      using Suc.prems by (simp add: take_Suc_conv_app_nth) (simp add: u64_to_be_bytes_def)
    moreover have "8 * (8 - n) = 8 * (7 - n) + 8" using Suc.prems by simp
    ultimately have "u64_of_be_bytes (take (Suc n) (u64_to_be_bytes w)) =
        push_bit 8 (drop_bit (8 * (7 - n) + 8) w) + ucast (ucast (drop_bit (8 * (7 - n)) w) :: u8)"
      using Suc by (simp add: u64_of_be_bytes_snoc)
    then show ?case using append_byte[of "8 * (7 - n)" w] by simp
  qed
  from this[of 8] show ?thesis by simp
qed

lemma read_block_key [simp]: "read_block_key (block_key h bh) = Some (h, bh)"
  by (simp add: read_block_key_def) (simp add: block_key_def)

section \<open>The laws of the database\<close>

definition sled_map :: "('db, 'v, 'a) storage_externs_scheme \<Rightarrow> 'db \<Rightarrow> bytes \<Rightarrow> 'v option" where
  "sled_map E db k = (case sled_get E db k of Inr v \<Rightarrow> v | Inl _ \<Rightarrow> None)"

definition sled_ok :: "('db, 'v, 'a) storage_externs_scheme \<Rightarrow> bool" where
  "sled_ok E \<longleftrightarrow>
     (\<forall>db k. sled_get E db k = Inr (sled_map E db k)) \<and>
     (\<forall>db k. sled_contains_key E db k = Inr (sled_map E db k \<noteq> None)) \<and>
     (\<forall>db k v. fst (sled_insert E db k v) = Inr (sled_map E db k)) \<and>
     (\<forall>db k v. sled_map E (snd (sled_insert E db k v)) = (sled_map E db)(k \<mapsto> v)) \<and>
     (\<forall>db k f. fst (sled_update_and_fetch E db k f) = Inr (f (sled_map E db k))) \<and>
     (\<forall>db k f. sled_map E (snd (sled_update_and_fetch E db k f)) = (sled_map E db)(k := f (sled_map E db k)))"

definition tx_codec_ok :: "('db, 'v, 'a) storage_externs_scheme \<Rightarrow> bool" where
  "tx_codec_ok E \<longleftrightarrow> (\<forall>t. decode_tx E (encode_tx E t) = Inr t)"

definition storage_ok :: "('db, 'v, 'a) storage_externs_scheme \<Rightarrow> bool" where
  "storage_ok E \<longleftrightarrow> sled_ok E \<and> tx_codec_ok E"

text \<open>Every entry under the key of a transaction can be decoded; \<open>stored_tx\<close> is the map it denotes.\<close>

definition tx_db_ok :: "('db, 'v, 'a) storage_externs_scheme \<Rightarrow> 'db \<Rightarrow> bool" where
  "tx_db_ok E db \<longleftrightarrow> (\<forall>h v. sled_map E db (tx_key h) = Some v \<longrightarrow> (\<exists>t. decode_tx E v = Inr t))"

definition stored_tx :: "('db, 'v, 'a) storage_externs_scheme \<Rightarrow> 'db \<Rightarrow> tx_hash_t \<Rightarrow> tx option" where
  "stored_tx E db h = map_option (\<lambda>v. projr (decode_tx E v)) (sled_map E db (tx_key h))"

lemma sled_okD:
  assumes "storage_ok E"
  shows "sled_get E db k = Inr (sled_map E db k)"
    "sled_contains_key E db k = Inr (sled_map E db k \<noteq> None)"
    "sled_insert E db k v = (r, db') \<Longrightarrow> r = Inr (sled_map E db k) \<and> sled_map E db' = (sled_map E db)(k \<mapsto> v)"
    "sled_update_and_fetch E db k f = (r, db') \<Longrightarrow>
       r = Inr (f (sled_map E db k)) \<and> sled_map E db' = (sled_map E db)(k := f (sled_map E db k))"
    "decode_tx E (encode_tx E t) = Inr t"
  using assms unfolding storage_ok_def sled_ok_def tx_codec_ok_def
  by (blast, blast, metis fst_conv snd_conv, metis fst_conv snd_conv, blast)

lemma tx_db_okD: "tx_db_ok E db \<Longrightarrow> sled_map E db (tx_key h) = Some v \<Longrightarrow> decode_tx E v \<noteq> Inl e"
  by (metis sum.distinct(1) tx_db_ok_def)

lemma tx_key_eq_iff [simp]: "tx_key a = tx_key b \<longleftrightarrow> a = b"
  by (simp add: tx_key_def)

lemma stored_tx_lookup:
  assumes "storage_ok E" "tx_db_ok E db"
  shows "is_known_tx E db h = Ok (stored_tx E db h \<noteq> None)"
    "get_tx E db h = (case stored_tx E db h of None \<Rightarrow> Err InvalidTx | Some t \<Rightarrow> Ok (h, t))"
    "is_accepted_tx E db h = (case stored_tx E db h of None \<Rightarrow> Err InvalidTx | Some t \<Rightarrow> Ok (tx_status t = TxAccepted))"
    "is_removed_tx E db h = (case stored_tx E db h of None \<Rightarrow> Err InvalidTx | Some t \<Rightarrow> Ok (tx_status t = TxRemoved))"
    "cannot_be_accepted E db h = (case stored_tx E db h of None \<Rightarrow> Err InvalidTx
       | Some t \<Rightarrow> Ok (tx_status t = TxRemoved \<or> tx_status t = TxRejected))"
proof -
  note g = sled_okD(1,2)[OF assms(1)]
  show "is_known_tx E db h = Ok (stored_tx E db h \<noteq> None)"
    by (simp add: is_known_tx_def g of_sled_def stored_tx_def)
  show "get_tx E db h = (case stored_tx E db h of None \<Rightarrow> Err InvalidTx | Some t \<Rightarrow> Ok (h, t))"
    "is_accepted_tx E db h = (case stored_tx E db h of None \<Rightarrow> Err InvalidTx | Some t \<Rightarrow> Ok (tx_status t = TxAccepted))"
    "is_removed_tx E db h = (case stored_tx E db h of None \<Rightarrow> Err InvalidTx | Some t \<Rightarrow> Ok (tx_status t = TxRemoved))"
    "cannot_be_accepted E db h = (case stored_tx E db h of None \<Rightarrow> Err InvalidTx
       | Some t \<Rightarrow> Ok (tx_status t = TxRemoved \<or> tx_status t = TxRejected))"
    using tx_db_okD[OF assms(2), of h]
    by (auto simp: get_tx_def is_accepted_tx_def is_removed_tx_def cannot_be_accepted_def
        g stored_tx_def of_codec_def split: option.splits sum.splits)
qed

lemma stored_tx_insert:
  assumes "storage_ok E" "tx_db_ok E db" "insert_tx E db t = (r, db')"
  shows "\<exists>v. r = Ok v" "tx_db_ok E db'" "stored_tx E db' = (stored_tx E db)(tx_hash E t \<mapsto> t)"
proof -
  obtain r0 where i: "sled_insert E db (tx_key (tx_hash E t)) (encode_tx E t) = (r0, db')" "r = of_sled r0"
    using assms(3) by (auto simp: insert_tx_def split: prod.splits)
  note m = sled_okD(3)[OF assms(1) i(1)] and d = sled_okD(5)[OF assms(1)]
  show "\<exists>v. r = Ok v" using m i(2) by (simp add: of_sled_def)
  show "tx_db_ok E db'" using assms(2) d m by (auto simp: tx_db_ok_def)
  show "stored_tx E db' = (stored_tx E db)(tx_hash E t \<mapsto> t)" using d m by (auto simp: stored_tx_def fun_eq_iff)
qed

lemma stored_tx_set_status:
  assumes "storage_ok E" "tx_db_ok E db" "set_tx_status E db h st = (r, db')"
  shows "r = (if stored_tx E db h = None then Err InvalidTx else Ok ())" "tx_db_ok E db'"
    "stored_tx E db' = (stored_tx E db)(h := map_option (\<lambda>t. t\<lparr>tx_status := st\<rparr>) (stored_tx E db h))"
proof -
  let ?f = "update_closure E (map_option (\<lambda>t. t\<lparr>tx_status := st\<rparr>))"
  note d = sled_okD(5)[OF assms(1)]
  obtain r0 db0 where u: "sled_update_and_fetch E db (tx_key h) ?f = (r0, db0)" by fastforce
  note m0 = sled_okD(4)[OF assms(1) u]
  then have r0: "r0 = Inr (?f (sled_map E db (tx_key h)))"
    and m: "sled_map E db0 = (sled_map E db)(tx_key h := ?f (sled_map E db (tx_key h)))" by simp_all
  have f: "?f (sled_map E db (tx_key h)) = map_option (\<lambda>t. encode_tx E (t\<lparr>tx_status := st\<rparr>)) (stored_tx E db h)"
    using tx_db_okD[OF assms(2), of h]
    by (auto simp: update_closure_def stored_tx_def split: option.splits sum.splits)
  have "db' = db0" using assms(3) u r0 by (auto simp: set_tx_status_def update_and_fetch_def split: option.splits)
  then show "tx_db_ok E db'"
    "stored_tx E db' = (stored_tx E db)(h := map_option (\<lambda>t. t\<lparr>tx_status := st\<rparr>) (stored_tx E db h))"
    using assms(2) d f by (auto simp: tx_db_ok_def stored_tx_def m fun_eq_iff option.map_comp comp_def)
  show "r = (if stored_tx E db h = None then Err InvalidTx else Ok ())"
    using assms(3) u r0 d unfolding f
    by (auto simp: set_tx_status_def update_and_fetch_def of_codec_def split: option.splits)
qed

section \<open>A concrete database\<close>

text \<open>An in-memory database that never fails, with the values themselves as their encoding.\<close>

datatype encoded = EncTx tx | EncBlock alpha_block | EncHailBlock hail_block | EncCell cell

type_synonym example_db = "(bytes, encoded) hashmap"

definition example_update :: "example_db \<Rightarrow> bytes \<Rightarrow> encoded option \<Rightarrow> example_db" where
  "example_update db k new = (case new of Some v \<Rightarrow> hm_insert k v db | None \<Rightarrow> hm_remove k db)"

definition example_ends :: "bytes list \<Rightarrow> example_db \<Rightarrow> (bytes \<times> encoded) option" where
  "example_ends ks db =
     (case ks of [] \<Rightarrow> None | k # _ \<Rightarrow> map_option (\<lambda>v. (k, v)) (hm_get db k))"

definition example_storage_externs :: "(example_db, encoded) storage_externs" where
  "example_storage_externs = alpha_externs.extend example_alpha_externs
     (storage_externs.fields []
        (\<lambda>db k. Inr (hm_get db k \<noteq> None)) (\<lambda>db k. Inr (hm_get db k))
        (\<lambda>db k v. (Inr (hm_get db k), hm_insert k v db))
        (\<lambda>db k f. (Inr (f (hm_get db k)), example_update db k (f (hm_get db k))))
        (\<lambda>db. Inr (example_ends (sort (map fst db)) db)) (\<lambda>db. Inr (example_ends (rev (sort (map fst db))) db))
        (\<lambda>db a b. map Inr (sort_key fst (filter (\<lambda>(k, v). a \<le> k \<and> k < b) db)))
        EncTx (\<lambda>v. case v of EncTx t \<Rightarrow> Inr t | _ \<Rightarrow> Inl [])
        EncBlock (\<lambda>v. case v of EncBlock b \<Rightarrow> Inr b | _ \<Rightarrow> Inl [])
        EncHailBlock (\<lambda>v. case v of EncHailBlock b \<Rightarrow> Inr b | _ \<Rightarrow> Inl [])
        EncCell (\<lambda>v. case v of EncCell c \<Rightarrow> Inr c | _ \<Rightarrow> Inl []))"

lemmas example_storage_defs = example_storage_externs_def alpha_externs.defs storage_externs.defs
  example_alpha_externs_def externs.defs

lemma example_storage_simps [simp]:
  "sled_temporary example_storage_externs = []"
  "sled_contains_key example_storage_externs = (\<lambda>db k. Inr (hm_get db k \<noteq> None))"
  "sled_get example_storage_externs = (\<lambda>db k. Inr (hm_get db k))"
  "sled_insert example_storage_externs = (\<lambda>db k v. (Inr (hm_get db k), hm_insert k v db))"
  "sled_update_and_fetch example_storage_externs =
     (\<lambda>db k f. (Inr (f (hm_get db k)), example_update db k (f (hm_get db k))))"
  "sled_first example_storage_externs = (\<lambda>db. Inr (example_ends (sort (map fst db)) db))"
  "sled_last example_storage_externs = (\<lambda>db. Inr (example_ends (rev (sort (map fst db))) db))"
  "encode_tx example_storage_externs = EncTx"
  "encode_block example_storage_externs = EncBlock"
  "encode_hail_block example_storage_externs = EncHailBlock"
  "decode_tx example_storage_externs (EncTx t) = Inr t"
  "decode_block example_storage_externs (EncBlock b) = Inr b"
  "decode_hail_block example_storage_externs (EncHailBlock hb) = Inr hb"
  by (simp_all add: example_storage_defs)

lemma example_storage_base [simp]:
  "blake3 example_storage_externs = blake3 example_externs"
  "bincode_bytes example_storage_externs = bincode_bytes example_externs"
  "bincode_cell example_storage_externs = bincode_cell example_externs"
  "bincode_public_key example_storage_externs = bincode_public_key example_externs"
  "bincode_signature example_storage_externs = bincode_signature example_externs"
  "bincode_alpha_block example_storage_externs = bincode_alpha_block example_alpha_externs"
  by (simp_all add: example_storage_defs)

lemma example_storage_ok: "storage_ok example_storage_externs"
  by (auto simp: storage_ok_def sled_ok_def tx_codec_ok_def sled_map_def example_update_def fun_eq_iff
      split: option.splits)

lemma example_storage_cells:
  "cell_hash example_storage_externs c = cell_hash example_externs c"
  "cell_ids_from_inputs example_storage_externs is = cell_ids_from_inputs example_externs is"
  "cell_ids_from_outputs example_storage_externs h os = cell_ids_from_outputs example_externs h os"
  by (simp_all add: cell_hash_def inputs_sorted_def cell_ids_from_inputs_def cell_ids_from_outputs_def
      input_cell_id_def[abs_def] output_index_cell_id_def cell_id_from_output_def input_key_def[abs_def] unlock_key_def)

section \<open>Properties\<close>

text \<open>
  C34: The store of transactions is a map. On a database that behaves as documented and holds
  decodable transactions, inserting a transaction makes exactly that transaction known under its
  hash and retrievable, setting a status changes that status and nothing else and fails exactly on
  an unknown hash, and both keep the database decodable.
\<close>

theorem tx_store_is_a_map:
  assumes "storage_ok E" and "tx_db_ok E db"
    and "insert_tx E db t = (r1, db1)" and "set_tx_status E db1 h st = (r2, db2)"
  shows "tx_db_ok E db2 \<and> get_tx E db1 (tx_hash E t) = Ok (tx_hash E t, t) \<and>
    is_known_tx E db1 h = Ok (h = tx_hash E t \<or> stored_tx E db h \<noteq> None) \<and>
    (h \<noteq> tx_hash E t \<longrightarrow> get_tx E db1 h = get_tx E db h) \<and>
    (r2 = Err InvalidTx \<longleftrightarrow> is_known_tx E db1 h = Ok False) \<and>
    (\<forall>u. get_tx E db1 h = Ok (h, u) \<longrightarrow> get_tx E db2 h = Ok (h, u\<lparr>tx_status := st\<rparr>)) \<and>
    (\<forall>k. k \<noteq> h \<longrightarrow> get_tx E db2 k = get_tx E db1 k)"
proof -
  note i = stored_tx_insert[OF assms(1-3)]
  note u = stored_tx_set_status[OF assms(1) i(2) assms(4)]
  note l = stored_tx_lookup[OF assms(1,2)] stored_tx_lookup[OF assms(1) i(2)] stored_tx_lookup[OF assms(1) u(2)]
  show ?thesis using u(1,2) by (auto simp: l u(3) i(3) split: option.splits)
qed

theorem tx_store_is_a_map_witness:
  "\<exists>r1 db1 r2 db2. insert_tx example_storage_externs [] (tx_new [] (spend_cell [7] 6)) = (r1, db1) \<and>
     set_tx_status example_storage_externs db1 262 TxAccepted = (r2, db2) \<and>
     get_tx example_storage_externs db2 262 = Ok (262, (tx_new [] (spend_cell [7] 6))\<lparr>tx_status := TxAccepted\<rparr>)"
proof -
  let ?E = example_storage_externs and ?t = "tx_new [] (spend_cell [7] 6)"
  obtain r1 db1 where i: "insert_tx ?E [] ?t = (r1, db1)" by fastforce
  obtain r2 db2 where u: "set_tx_status ?E db1 262 TxAccepted = (r2, db2)" by fastforce
  have h: "tx_hash ?E ?t = 262" by (simp add: tx_hash_def tx_new_def example_storage_cells example_inputs)
  have "tx_db_ok ?E []" by (simp add: tx_db_ok_def sled_map_def)
  from tx_store_is_a_map[OF example_storage_ok this i u]
  have "get_tx ?E db2 262 = Ok (262, ?t\<lparr>tx_status := TxAccepted\<rparr>)" unfolding h by blast
  with i u show ?thesis by blast
qed

text \<open>
  The byte order of the keys of stored blocks is the order of their heights, and at one height
  the order of their hashes, and a key read back is the one written; so the first block of the
  database is a lowest one and the last a highest one.
\<close>

theorem block_key_order:
  "(block_key h a < block_key h' b \<longleftrightarrow> h < h' \<or> h = h' \<and> a < b) \<and>
   (block_key h a = block_key h' b \<longleftrightarrow> h = h' \<and> a = b) \<and>
   read_block_key (block_key h a) = Some (h, a)"
proof -
  have b: "unat w < 2 ^ 256" for w :: hash32 using unsigned_less[of w] by simp
  have "block_key h a < block_key h' b \<longleftrightarrow> be_val (block_key h a) < be_val (block_key h' b)"
    by (rule be_val_mono) simp
  then have "block_key h a < block_key h' b \<longleftrightarrow> h < h' \<or> h = h' \<and> a < b"
    unfolding be_val_block_key digits_less[OF b b] word_less_nat_alt word_unat_eq_iff .
  moreover have "block_key h a = block_key h' b \<longleftrightarrow> h = h' \<and> a = b"
    by (metis option.inject prod.inject read_block_key)
  ultimately show ?thesis by simp
qed

text \<open>
  A block at the height after the last stored one is refused. The check is meant to ask for the
  height of the predecessor plus one and asks for that height minus one, so a successor of the last
  block is rejected with an invalid height and the database stays as it is.
\<close>

theorem accept_next_block_refuses_successor:
  assumes "sled_last E db = Inr (Some (block_key h bh, v))" and "ab_height block = h + 1"
  shows "accept_next_block E db block = (Err InvalidHeight, db)"
proof -
  have "h + 1 \<noteq> h - 1"
  proof
    assume "h + 1 = h - 1"
    then have "(2 :: u64) = 0" by (simp add: algebra_simps)
    then show False by simp
  qed
  then show ?thesis using assms by (simp add: accept_next_block_def)
qed

theorem accept_next_block_refuses_successor_witness:
  "(let E = example_storage_externs;
        genesis = \<lparr>ab_predecessor = None, ab_height = 0, ab_vrf_out = 0, ab_cells = []\<rparr>;
        db = [(block_key 0 5, EncBlock genesis)];
        block = \<lparr>ab_predecessor = Some 5, ab_height = 1, ab_vrf_out = 0, ab_cells = []\<rparr> in
    accept_next_block E db block = (Err InvalidHeight, db))"
  unfolding Let_def
  by (rule accept_next_block_refuses_successor) (simp_all add: example_ends_def)

end
