(* ===== verification/Messages.thy ===== *)
theory Messages
  imports Storage
begin

text \<open>
  The errors of the crate (\<^verbatim>\<open>src/lib.rs\<close>) and the messages nodes exchange: \<^verbatim>\<open>src/protocol.rs\<close> with the payloads the components define for it
  (\<^verbatim>\<open>version.rs\<close>, \<^verbatim>\<open>ice/choice.rs\<close>, \<^verbatim>\<open>ice/query.rs\<close>, and the message structs of
  \<^verbatim>\<open>ice.rs\<close>, \<^verbatim>\<open>sleet.rs\<close>, \<^verbatim>\<open>hail.rs\<close>, \<^verbatim>\<open>alpha.rs\<close>), what the components ask of
  the network client, and the remaining parameters of a node.
\<close>

section \<open>Errors of the crate\<close>

datatype crate_error =
    ErrIO string
  | ErrDalek string
  | ErrSled string
  | ErrActix
  | InvalidResponse
  | ChannelError string
  | JoinError
  | Byzantine
  | Crash
  | GenesisUndefined
  | ErrInvalidHeight
  | ErrInvalidPredecessor
  | ErrInvalidGenesis
  | ErrInvalidLast
  | ErrTryFromString
  | ErrPeerParse
  | UnexpectedPeerConnected

section \<open>Payloads\<close>

type_synonym peer = "node_id \<times> socket_addr"

datatype choice = Live | Faulty

record query =
  q_peer_id :: node_id
  q_peer_ip :: socket_addr
  q_choice :: choice

record outcome =
  o_peer_id :: node_id
  o_choice :: choice

definition outcome_new :: "node_id \<Rightarrow> choice \<Rightarrow> outcome" where
  "outcome_new i c = \<lparr>o_peer_id = i, o_choice = c\<rparr>"

datatype gossip = Joiner node_id

record ping =
  ping_id :: node_id
  ping_queries :: "query list"
  ping_rumours :: "gossip list"

record ack =
  ack_id :: node_id
  ack_outcomes :: "outcome list"

record version_ack =
  va_id :: node_id
  va_ip :: socket_addr
  va_peer_list :: "peer list"

record query_tx =
  qt_id :: node_id
  qt_ip :: socket_addr
  qt_tx :: tx

record query_tx_ack =
  qta_id :: node_id
  qta_tx_hash :: tx_hash_t
  qta_outcome :: bool

record query_block =
  qb_id :: node_id
  qb_block :: hail_block

record query_block_ack =
  qba_id :: node_id
  qba_block_hash :: block_hash
  qba_outcome :: bool

record node_status =
  ns_bootstrapped :: bool
  ns_height :: u64
  ns_peers :: "(node_id \<times> socket_addr \<times> choice) list"
  ns_validators :: "(node_id \<times> socket_addr \<times> weight) list"

section \<open>Requests and responses\<close>

datatype request =
    ReqVersion peer
  | ReqPing ping
  | ReqGetLastAccepted
  | ReqGetAncestors
  | ReqGetNodeStatus
  | ReqGetCellHashes
  | ReqGetAcceptedCellHashes
  | ReqGetCell cell_hash_t
  | ReqGetAcceptedCell cell_hash_t
  | ReqGenerateTx cell
  | ReqQueryTx query_tx
  | ReqGetTxAncestors tx_hash_t
  | ReqGetAcceptedFrontier
  | ReqFetchTx tx_hash_t
  | ReqGetLiveFrontier
  | ReqGetBlock block_hash
  | ReqGetBlockByHeight u64
  | ReqQueryBlock query_block

datatype response =
    RespVersionAck version_ack
  | RespAck ack
  | RespLastAccepted block_hash
  | RespAncestors
  | RespCellHashes "cell_hash_t list"
  | RespAcceptedCellHashes "cell_hash_t list"
  | RespNodeStatus node_status
  | RespCellAck "cell option"
  | RespAcceptedCellAck "cell option"
  | RespGenerateTxAck "cell_hash_t option"
  | RespQueryTxAck query_tx_ack
  | RespTxAncestors "tx list"
  | RespAcceptedFrontier "tx_hash_t hashset"
  | RespFetchedTx "tx option"
  | RespLiveFrontier "tx_hash_t hashset"
  | RespBlockAck "alpha_block option"
  | RespQueryBlockAck query_block_ack
  | RespUnknown
  | RespRequestRefused

datatype client_request =
    Oneshot node_id socket_addr request
  | Fanout "peer list" request

datatype client_response =
    OneshotResponse "response option"
  | FanoutResponse "response list"

section \<open>Parameters of a node\<close>

text \<open>
  What the components use beyond storage: the rounding of floating point arithmetic and the
  sortition of the crate \<^verbatim>\<open>zfx_sortition\<close>. Shuffles of the crate \<^verbatim>\<open>rand\<close> are arguments of
  the calls that shuffle, since every call has its own.
\<close>

record ('db, 'v) node_externs = "('db, 'v) storage_externs" +
  f64_round :: "rat \<Rightarrow> rat"
  sortition_select :: "u64 \<Rightarrow> u64 \<Rightarrow> f64 \<Rightarrow> hash32 \<Rightarrow> u64"

definition example_node_externs :: "(example_db, encoded) node_externs" where
  "example_node_externs = storage_externs.extend example_storage_externs
     (node_externs.fields id (\<lambda>stake total_stake size h. if stake > 0 then 1 else 0))"

lemmas example_node_defs = example_node_externs_def storage_externs.defs node_externs.defs
  example_storage_externs_def alpha_externs.defs example_alpha_externs_def externs.defs

lemma example_node_simps [simp]:
  "f64_round example_node_externs = id"
  "sortition_select example_node_externs = (\<lambda>stake total_stake size h. if stake > 0 then 1 else 0)"
  "sled_temporary example_node_externs = []"
  "sled_contains_key example_node_externs = (\<lambda>db k. Inr (hm_get db k \<noteq> None))"
  "sled_get example_node_externs = (\<lambda>db k. Inr (hm_get db k))"
  "sled_insert example_node_externs = (\<lambda>db k v. (Inr (hm_get db k), hm_insert k v db))"
  "sled_update_and_fetch example_node_externs =
     (\<lambda>db k f. (Inr (f (hm_get db k)), example_update db k (f (hm_get db k))))"
  "sled_first example_node_externs = (\<lambda>db. Inr (example_ends (sort (map fst db)) db))"
  "sled_last example_node_externs = (\<lambda>db. Inr (example_ends (rev (sort (map fst db))) db))"
  "encode_tx example_node_externs = EncTx"
  "encode_block example_node_externs = EncBlock"
  "encode_hail_block example_node_externs = EncHailBlock"
  "decode_tx example_node_externs (EncTx t) = Inr t"
  "decode_block example_node_externs (EncBlock b) = Inr b"
  "decode_hail_block example_node_externs (EncHailBlock hb) = Inr hb"
  by (simp_all add: example_node_defs)

lemma example_node_base [simp]:
  "blake3 example_node_externs = blake3 example_externs"
  "bincode_bytes example_node_externs = bincode_bytes example_externs"
  "bincode_cell example_node_externs = bincode_cell example_externs"
  "bincode_public_key example_node_externs = bincode_public_key example_externs"
  "bincode_signature example_node_externs = bincode_signature example_externs"
  "bincode_alpha_block example_node_externs = bincode_alpha_block example_alpha_externs"
  by (simp_all add: example_node_defs)

lemma example_node_ok: "storage_ok example_node_externs"
  by (auto simp: storage_ok_def sled_ok_def tx_codec_ok_def sled_map_def example_update_def fun_eq_iff
      split: option.splits)

lemma example_node_cells:
  "cell_hash example_node_externs c = cell_hash example_externs c"
  "cell_ids_from_inputs example_node_externs is = cell_ids_from_inputs example_externs is"
  "cell_ids_from_outputs example_node_externs h os = cell_ids_from_outputs example_externs h os"
  by (simp_all add: cell_hash_def inputs_sorted_def cell_ids_from_inputs_def cell_ids_from_outputs_def
      input_cell_id_def[abs_def] output_index_cell_id_def cell_id_from_output_def input_key_def[abs_def] unlock_key_def)

end
