(* ===== verification/Dissemination.thy ===== *)
theory Dissemination
  imports Messages
begin

text \<open>
  Gossip: \<^verbatim>\<open>src/ice/dissemination.rs\<close>. A rumour has a number and, in a priority queue, the count
  of times it was handed out. The queue is the crate \<^verbatim>\<open>priority_queue\<close>: its operations are the
  fields of \<open>pqueue\<close>. The theorems on gossip state what their documentation promises, in terms of the
  finite map from items to priorities that a queue represents, as \<open>pqueue_ok\<close>.
\<close>

section \<open>The queue\<close>

type_synonym gossip_id = u64

record 'q pqueue =
  pq_new :: 'q
  pq_push :: "'q \<Rightarrow> gossip_id \<Rightarrow> nat \<Rightarrow> 'q"
  pq_push_increase :: "'q \<Rightarrow> gossip_id \<Rightarrow> nat \<Rightarrow> 'q"
  pq_pop_max :: "'q \<Rightarrow> (gossip_id \<times> nat) option \<times> 'q"
  pq_pop_min :: "'q \<Rightarrow> (gossip_id \<times> nat) option \<times> 'q"
  pq_peek_max :: "'q \<Rightarrow> (gossip_id \<times> nat) option"
  pq_len :: "'q \<Rightarrow> nat"

section \<open>The rumours\<close>

definition GOSSIP_LIMIT :: nat where "GOSSIP_LIMIT = 3"

record 'q priority_map =
  pm_c :: gossip_id
  pm_h :: "(gossip_id, gossip) hashmap"
  pm_q :: 'q

definition pm_new :: "'q pqueue \<Rightarrow> 'q priority_map" where
  "pm_new P = \<lparr>pm_c = 0, pm_h = [], pm_q = pq_new P\<rparr>"

definition pm_push :: "'q pqueue \<Rightarrow> 'q priority_map \<Rightarrow> gossip \<Rightarrow> 'q priority_map" where
  "pm_push P m g =
     \<lparr>pm_c = pm_c m + 1, pm_h = hm_insert (pm_c m) g (pm_h m), pm_q = pq_push P (pm_q m) (pm_c m) 0\<rparr>"

definition has_over_limit :: "'q pqueue \<Rightarrow> 'q priority_map \<Rightarrow> nat \<Rightarrow> bool" where
  "has_over_limit P m limit = (case pq_peek_max P (pm_q m) of None \<Rightarrow> False | Some (_, p) \<Rightarrow> p \<ge> limit)"

text \<open>The loop of \<^verbatim>\<open>cleanup\<close>; the outer option is its termination, which rests on the queue.\<close>

partial_function (option) pm_cleanup ::
  "'q pqueue \<Rightarrow> nat \<Rightarrow> nat \<Rightarrow> 'q priority_map \<Rightarrow> ((unit, nat) result \<times> 'q priority_map) option" where
  "pm_cleanup P limit deleted m =
     (if has_over_limit P m limit then
        (case pq_pop_max P (pm_q m) of
           (None, q) \<Rightarrow> Some (Panic, m\<lparr>pm_q := q\<rparr>)
         | (Some (i, _), q) \<Rightarrow>
             pm_cleanup P limit (deleted + 1) (m\<lparr>pm_q := q, pm_h := hm_remove i (pm_h m)\<rparr>))
      else Some (Ok deleted, m))"

declare pm_cleanup.simps [code]

fun pop_n :: "'q pqueue \<Rightarrow> nat \<Rightarrow> 'q \<Rightarrow> (gossip_id \<times> nat) list \<times> 'q" where
  "pop_n P 0 q = ([], q)"
| "pop_n P (Suc n) q =
     (case pq_pop_min P q of
        (None, q') \<Rightarrow> ([], q')
      | (Some kv, q') \<Rightarrow> (case pop_n P n q' of (kvs, q'') \<Rightarrow> (kv # kvs, q'')))"

fun push_back_taken :: "'q pqueue \<Rightarrow> (gossip_id \<times> nat) list \<Rightarrow> 'q \<Rightarrow> 'q" where
  "push_back_taken P [] q = q"
| "push_back_taken P ((i, p) # kvs) q = push_back_taken P kvs (pq_push_increase P q i (p + 1))"

fun lookup_all :: "(gossip_id, gossip) hashmap \<Rightarrow> (gossip_id \<times> nat) list \<Rightarrow> (unit, gossip list) result" where
  "lookup_all h [] = Ok []"
| "lookup_all h ((i, _) # kvs) =
     result_bind (unwrap_option (hm_get h i)) (\<lambda>g. result_bind (lookup_all h kvs) (\<lambda>gs. Ok (g # gs)))"

definition pm_take_n :: "'q pqueue \<Rightarrow> nat \<Rightarrow> 'q priority_map \<Rightarrow> (unit, gossip list) result \<times> 'q priority_map" where
  "pm_take_n P n m =
     (case pop_n P n (pm_q m) of
        (v, q) \<Rightarrow> (lookup_all (pm_h m) v, m\<lparr>pm_q := push_back_taken P v q\<rparr>))"

definition pm_empty :: "'q pqueue \<Rightarrow> 'q priority_map \<Rightarrow> bool" where
  "pm_empty P m = (pq_len P (pm_q m) = 0)"

definition pm_len :: "'q pqueue \<Rightarrow> 'q priority_map \<Rightarrow> nat" where
  "pm_len P m = pq_len P (pm_q m)"

section \<open>Handlers\<close>

text \<open>
  \<^verbatim>\<open>(n as f64).log2().ceil() as usize\<close>: the least exponent of two that reaches \<open>n\<close>. The logarithm
  of zero is minus infinity, which the cast turns into zero.
\<close>

definition ceil_log2 :: "nat \<Rightarrow> nat" where
  "ceil_log2 n = length (filter (\<lambda>k. 2 ^ k < n) [0..<n])"

definition handle_gossip :: "'q pqueue \<Rightarrow> gossip \<Rightarrow> 'q priority_map \<Rightarrow> 'q priority_map" where
  "handle_gossip P g m = pm_push P m g"

definition handle_gossip_query ::
  "'q pqueue \<Rightarrow> nat \<Rightarrow> 'q priority_map \<Rightarrow> ((unit, gossip list) result \<times> 'q priority_map) option" where
  "handle_gossip_query P network_size m =
     (let rumours_limit = ceil_log2 network_size in
      case pm_take_n P GOSSIP_LIMIT m of
        (Ok rumours, m1) \<Rightarrow>
          map_option (\<lambda>(r, m2). (result_bind r (\<lambda>_. Ok rumours), m2)) (pm_cleanup P rumours_limit 0 m1)
      | (Err e, m1) \<Rightarrow> Some (Err e, m1)
      | (Panic, m1) \<Rightarrow> Some (Panic, m1))"

end
