(* ===== verification/Gossip_Theorems.thy ===== *)
theory Gossip_Theorems
  imports Dissemination "HOL-Library.AList"
begin

text \<open>
  What the gossip component guarantees, given a priority queue that does what the crate
  \<^verbatim>\<open>priority_queue\<close> documents (\<open>pqueue_ok\<close>): a query always answers, hands out the rumours told
  least often so far, and forgets exactly those that were told often enough.
\<close>

section \<open>The queue crate\<close>

text \<open>
  A queue represents a finite map from items to priorities, read by \<open>ab\<close>. Pushing sets a priority,
  \<^verbatim>\<open>push_increase\<close> never lowers one, and the pops and the peek return an entry of extreme priority.
\<close>

definition pops ::
  "('q \<Rightarrow> gossip_id \<rightharpoonup> nat) \<Rightarrow> (nat \<Rightarrow> nat \<Rightarrow> bool) \<Rightarrow> ('q \<Rightarrow> (gossip_id \<times> nat) option \<times> 'q) \<Rightarrow> bool" where
  "pops ab le pop \<longleftrightarrow> (\<forall>q. case pop q of
      (None, q') \<Rightarrow> ab q = Map.empty \<and> ab q' = Map.empty
    | (Some (i, p), q') \<Rightarrow> ab q i = Some p \<and> (\<forall>j p'. ab q j = Some p' \<longrightarrow> le p p') \<and> ab q' = (ab q)(i := None))"

definition pqueue_ok :: "'q pqueue \<Rightarrow> ('q \<Rightarrow> gossip_id \<rightharpoonup> nat) \<Rightarrow> bool" where
  "pqueue_ok P ab \<longleftrightarrow>
     ab (pq_new P) = Map.empty \<and>
     (\<forall>q i p. ab (pq_push P q i p) = (ab q)(i \<mapsto> p)) \<and>
     (\<forall>q i p. ab (pq_push_increase P q i p) =
        (ab q)(i \<mapsto> (case ab q i of None \<Rightarrow> p | Some p' \<Rightarrow> max p p'))) \<and>
     pops ab (\<ge>) (pq_pop_max P) \<and> pops ab (\<le>) (pq_pop_min P) \<and>
     (\<forall>q. case pq_peek_max P q of None \<Rightarrow> ab q = Map.empty
        | Some (i, p) \<Rightarrow> ab q i = Some p \<and> (\<forall>j p'. ab q j = Some p' \<longrightarrow> p' \<le> p)) \<and>
     (\<forall>q. finite (dom (ab q)) \<and> pq_len P q = card (dom (ab q)))"

lemma pqueue_okD:
  assumes "pqueue_ok P ab"
  shows "ab (pq_new P) = Map.empty"
    and "ab (pq_push P q i p) = (ab q)(i \<mapsto> p)"
    and "ab (pq_push_increase P q i p) = (ab q)(i \<mapsto> (case ab q i of None \<Rightarrow> p | Some p' \<Rightarrow> max p p'))"
    and "pops ab (\<ge>) (pq_pop_max P)"
    and "pops ab (\<le>) (pq_pop_min P)"
    and "case pq_peek_max P q of None \<Rightarrow> ab q = Map.empty
      | Some (i, p) \<Rightarrow> ab q i = Some p \<and> (\<forall>j p'. ab q j = Some p' \<longrightarrow> p' \<le> p)"
    and "finite (dom (ab q))"
    and "pq_len P q = card (dom (ab q))"
  using assms unfolding pqueue_ok_def by simp_all

lemma pops_None:
  assumes "pops ab le pop" "pop q = (None, q')"
  shows "ab q = Map.empty" "ab q' = Map.empty"
  using assms(1)[unfolded pops_def, rule_format, of q] assms(2) by simp_all

lemma pops_Some:
  assumes "pops ab le pop" "pop q = (Some (i, p), q')"
  shows "ab q i = Some p" "ab q j = Some p' \<Longrightarrow> le p p'" "ab q' = (ab q)(i := None)"
  using assms(1)[unfolded pops_def, rule_format, of q] assms(2) by simp_all

section \<open>Taking rumours\<close>

text \<open>The loop of pops takes distinct entries of least priority and leaves the others alone.\<close>

lemma pop_n_spec:
  assumes P: "pqueue_ok P ab"
  shows "pop_n P n q = (kvs, q') \<Longrightarrow>
    length kvs = min n (card (dom (ab q))) \<and> distinct (map fst kvs) \<and>
    (\<forall>(i, p) \<in> set kvs. ab q i = Some p) \<and>
    (\<forall>i. ab q' i = (if i \<in> fst ` set kvs then None else ab q i)) \<and>
    (\<forall>(i, p) \<in> set kvs. \<forall>j p'. ab q' j = Some p' \<longrightarrow> p \<le> p')"
proof (induction n arbitrary: q kvs)
  case 0
  then show ?case by simp
next
  case (Suc n)
  note min = pqueue_okD(5)[OF P]
  show ?case
  proof (cases "pq_pop_min P q")
    case (Pair r q1)
    show ?thesis
    proof (cases r)
      case None
      have "kvs = []" "q' = q1" using Suc.prems Pair None by simp_all
      moreover have "ab q = Map.empty" "ab q1 = Map.empty" using pops_None[OF min] Pair None by blast+
      ultimately show ?thesis by simp
    next
      case (Some ip)
      obtain i p where ip: "ip = (i, p)" by (cases ip)
      obtain kvs1 where rec: "pop_n P n q1 = (kvs1, q')" "kvs = (i, p) # kvs1"
        using Suc.prems Pair Some ip by (auto split: prod.splits)
      note pop = pops_Some[OF min Pair[unfolded Some ip]]
      note IH = Suc.IH[OF rec(1)]
      have dom: "dom (ab q1) = dom (ab q) - {i}" using pop(3) by simp
      have "card (dom (ab q)) = Suc (card (dom (ab q1)))"
        using pqueue_okD(7)[OF P, of q] pop(1) unfolding dom by (metis card.remove domI)
      moreover have fresh: "i \<notin> fst ` set kvs1" using IH pop(3) by fastforce
      moreover have "\<forall>(j, p') \<in> set kvs1. ab q j = Some p'" using IH pop(3) by (fastforce split: if_splits)
      moreover have "ab q' j = (if j \<in> fst ` set kvs then None else ab q j)" for j
        using IH pop(3) unfolding rec(2) by simp
      ultimately show ?thesis using IH pop(1) pop(2) unfolding rec(2)
        by (auto simp: split_def split: if_splits)
    qed
  qed
qed

lemma push_back_taken_spec:
  assumes P: "pqueue_ok P ab"
  shows "distinct (map fst kvs) \<Longrightarrow> (\<forall>i \<in> fst ` set kvs. ab q i = None) \<Longrightarrow>
    ab (push_back_taken P kvs q) i = (case map_of kvs i of Some p \<Rightarrow> Some (p + 1) | None \<Rightarrow> ab q i)"
proof (induction kvs arbitrary: q)
  case Nil
  then show ?case by simp
next
  case (Cons kv kvs)
  obtain j p where kv: "kv = (j, p)" by (cases kv)
  have j: "map_of kvs j = None" using Cons.prems(1) unfolding kv by (simp add: map_of_eq_None_iff)
  have "ab (push_back_taken P kvs (pq_push_increase P q j (p + 1))) i =
      (case map_of kvs i of Some p \<Rightarrow> Some (p + 1) | None \<Rightarrow> ab (pq_push_increase P q j (p + 1)) i)"
    using Cons.prems unfolding kv by (intro Cons.IH) (auto simp: pqueue_okD(3)[OF P])
  then show ?case using j Cons.prems(2) unfolding kv
    by (auto simp: pqueue_okD(3)[OF P] split: option.splits)
qed

lemma lookup_all_Ok:
  "(\<forall>i \<in> fst ` set kvs. hm_get h i \<noteq> None) \<Longrightarrow>
   lookup_all h kvs = Ok (map (\<lambda>(i, _). the (hm_get h i)) kvs)"
  by (induction h kvs rule: lookup_all.induct) (auto simp: unwrap_option_def)

section \<open>Forgetting rumours\<close>

text \<open>A rumour is in the queue exactly when its text is kept.\<close>

definition rumours_ok :: "('q \<Rightarrow> gossip_id \<rightharpoonup> nat) \<Rightarrow> 'q priority_map \<Rightarrow> bool" where
  "rumours_ok ab m \<longleftrightarrow> (\<forall>i. ab (pm_q m) i = None \<longleftrightarrow> hm_get (pm_h m) i = None)"

lemma has_over_limit_iff:
  assumes "pqueue_ok P ab"
  shows "has_over_limit P m limit \<longleftrightarrow> (\<exists>i p. ab (pm_q m) i = Some p \<and> limit \<le> p)"
  using pqueue_okD(6)[OF assms, of "pm_q m"]
  by (auto simp: has_over_limit_def split: option.splits) (meson le_trans)

text \<open>The loop ends, keeps the entries below the limit and the texts of those only.\<close>

lemma pm_cleanup_spec:
  assumes P: "pqueue_ok P ab"
  shows "rumours_ok ab m \<Longrightarrow> \<exists>d m'. pm_cleanup P limit deleted m = Some (Ok d, m') \<and> pm_c m' = pm_c m \<and>
    (\<forall>i. ab (pm_q m') i = (case ab (pm_q m) i of Some p \<Rightarrow> if p < limit then Some p else None | None \<Rightarrow> None)) \<and>
    (\<forall>i. hm_get (pm_h m') i =
       (case ab (pm_q m) i of Some p \<Rightarrow> if p < limit then hm_get (pm_h m) i else None | None \<Rightarrow> None))"
proof (induction "card (dom (ab (pm_q m)))" arbitrary: m deleted)
  case 0
  then have e: "ab (pm_q m) = Map.empty" using pqueue_okD(7)[OF P, of "pm_q m"] by simp
  then have "pm_cleanup P limit deleted m = Some (Ok deleted, m)"
    by (subst pm_cleanup.simps) (simp add: has_over_limit_iff[OF P])
  with 0(2) e show ?case by (simp add: rumours_ok_def)
next
  case (Suc n)
  note max = pqueue_okD(4)[OF P]
  obtain i p q where pop: "pq_pop_max P (pm_q m) = (Some (i, p), q)"
    using Suc.hyps(2) pops_None(1)[OF max, of "pm_q m"] by (cases "pq_pop_max P (pm_q m)"; cases "fst (pq_pop_max P (pm_q m))") auto
  note pops = pops_Some[OF max pop]
  show ?case
  proof (cases "p < limit")
    case True
    have below: "ab (pm_q m) j = Some p' \<Longrightarrow> p' < limit" for j p' using pops(2)[of j p'] True by simp
    then have "\<not> has_over_limit P m limit" by (auto simp: has_over_limit_iff[OF P] not_le)
    then have "pm_cleanup P limit deleted m = Some (Ok deleted, m)" by (subst pm_cleanup.simps) simp
    with below show ?thesis using Suc.prems by (auto simp: rumours_ok_def split: option.splits)
  next
    case False
    let ?m = "m\<lparr>pm_q := q, pm_h := hm_remove i (pm_h m)\<rparr>"
    have "has_over_limit P m limit" using pops(1) False unfolding has_over_limit_iff[OF P] by (meson not_le)
    then have step: "pm_cleanup P limit deleted m = pm_cleanup P limit (deleted + 1) ?m"
      by (subst pm_cleanup.simps) (simp add: pop)
    have "i \<in> dom (ab (pm_q m))" using pops(1) by blast
    then have "card (dom (ab q)) = n"
      using Suc.hyps(2) pqueue_okD(7)[OF P, of "pm_q m"] unfolding pops(3) by simp
    moreover have "rumours_ok ab ?m" using Suc.prems by (simp add: rumours_ok_def pops(3))
    ultimately obtain d m' where r: "pm_cleanup P limit (deleted + 1) ?m = Some (Ok d, m')" "pm_c m' = pm_c m"
        "\<forall>j. ab (pm_q m') j = (case ab q j of Some p \<Rightarrow> if p < limit then Some p else None | None \<Rightarrow> None)"
        "\<forall>j. hm_get (pm_h m') j =
           (case ab q j of Some p \<Rightarrow> if p < limit then hm_get (pm_h ?m) j else None | None \<Rightarrow> None)"
      using Suc.hyps(1)[of ?m "deleted + 1"] by auto
    show ?thesis unfolding step
      by (rule exI[of _ d], rule exI[of _ m']) (use r pops(1) False in \<open>auto simp: pops(3) split: option.splits\<close>)
  qed
qed

section \<open>Queries\<close>

text \<open>The limit is the least exponent of two that reaches the size of the network.\<close>

lemma ceil_log2_least: "ceil_log2 n \<le> k \<longleftrightarrow> n \<le> 2 ^ k"
proof -
  have "{j. j < n \<and> 2 ^ j < n} = {j. 2 ^ j < n}"
    by (auto intro: less_trans[OF less_exp])
  then have c: "ceil_log2 n = card {j. (2::nat) ^ j < n}"
    unfolding ceil_log2_def by (simp add: distinct_length_filter Collect_conj_eq Int_commute atLeast0LessThan lessThan_def)
  have fin: "finite {j. (2::nat) ^ j < n}"
    by (rule finite_subset[of _ "{..<n}"]) (auto intro: less_trans[OF less_exp])
  show ?thesis
  proof
    assume "n \<le> 2 ^ k"
    then have "{j. (2::nat) ^ j < n} \<subseteq> {..<k}"
      by (metis (no_types, lifting) lessThan_iff linorder_not_less mem_Collect_eq order.strict_trans2
          power_increasing one_le_numeral subsetI)
    then have "card {j. (2::nat) ^ j < n} \<le> card {..<k}" by (intro card_mono) simp_all
    then show "ceil_log2 n \<le> k" by (simp add: c)
  next
    assume le: "ceil_log2 n \<le> k"
    show "n \<le> 2 ^ k"
    proof (rule ccontr)
      assume "\<not> n \<le> 2 ^ k"
      then have "{..k} \<subseteq> {j. (2::nat) ^ j < n}"
        by (auto intro: le_less_trans[OF power_increasing])
      then have "card {..k} \<le> card {j. (2::nat) ^ j < n}" by (intro card_mono fin)
      then show False using le by (simp add: c)
    qed
  qed
qed

definition told :: "nat \<Rightarrow> gossip_id list \<Rightarrow> (gossip_id \<rightharpoonup> nat) \<Rightarrow> (gossip_id \<rightharpoonup> nat)" where
  "told limit T ps i = (case ps i of
     Some p \<Rightarrow> (let p' = (if i \<in> set T then p + 1 else p) in if p' < limit then Some p' else None)
   | None \<Rightarrow> None)"

lemma handle_gossip_query_spec:
  assumes P: "pqueue_ok P ab" and ok: "rumours_ok ab m"
  shows "\<exists>T m'. handle_gossip_query P n m = Some (Ok (map (\<lambda>i. the (hm_get (pm_h m) i)) T), m') \<and>
    distinct T \<and> length T = min GOSSIP_LIMIT (pm_len P m) \<and> set T \<subseteq> dom (ab (pm_q m)) \<and>
    (\<forall>i \<in> set T. \<forall>j \<in> dom (ab (pm_q m)) - set T. the (ab (pm_q m) i) \<le> the (ab (pm_q m) j)) \<and>
    ab (pm_q m') = told (ceil_log2 n) T (ab (pm_q m)) \<and>
    (\<forall>i. hm_get (pm_h m') i = (if ab (pm_q m') i = None then None else hm_get (pm_h m) i)) \<and> rumours_ok ab m'"
proof -
  obtain kvs q where pop: "pop_n P GOSSIP_LIMIT (pm_q m) = (kvs, q)" by fastforce
  note spec = pop_n_spec[OF P pop]
  let ?T = "map fst kvs" and ?q = "push_back_taken P kvs q"
  let ?m = "m\<lparr>pm_q := ?q\<rparr>"
  have dist: "distinct ?T" using spec by simp
  have in_dom: "ab (pm_q m) i = Some p" if "(i, p) \<in> set kvs" for i p using spec that by fastforce
  have gone: "\<forall>i \<in> fst ` set kvs. ab q i = None" using spec by simp
  have pushed: "ab ?q i = (case ab (pm_q m) i of Some p \<Rightarrow> Some (if i \<in> set ?T then p + 1 else p) | None \<Rightarrow> None)" for i
  proof (cases "map_of kvs i")
    case None
    then have "i \<notin> set ?T" by (simp add: map_of_eq_None_iff)
    then show ?thesis using push_back_taken_spec[OF P dist gone, of i] None spec by (auto split: option.splits)
  next
    case (Some p)
    then have "(i, p) \<in> set kvs" "i \<in> set ?T" by (auto dest: map_of_SomeD) (force dest: map_of_SomeD)
    then show ?thesis using push_back_taken_spec[OF P dist gone, of i] Some in_dom by simp
  qed
  have "\<forall>i \<in> fst ` set kvs. hm_get (pm_h m) i \<noteq> None"
  proof
    fix i assume "i \<in> fst ` set kvs"
    then obtain p where "(i, p) \<in> set kvs" by force
    then show "hm_get (pm_h m) i \<noteq> None" using in_dom ok unfolding rumours_ok_def by (metis option.distinct(1))
  qed
  from lookup_all_Ok[OF this] have look: "lookup_all (pm_h m) kvs = Ok (map (\<lambda>i. the (hm_get (pm_h m) i)) ?T)"
    by (simp add: comp_def split_def)
  have "rumours_ok ab ?m" using ok unfolding rumours_ok_def
    by (simp add: pushed split: option.splits) (metis not_None_eq)
  from pm_cleanup_spec[OF P this, of "ceil_log2 n" 0] obtain d m' where
    cl: "pm_cleanup P (ceil_log2 n) 0 ?m = Some (Ok d, m')"
      "\<forall>i. ab (pm_q m') i = (case ab ?q i of Some p \<Rightarrow> if p < ceil_log2 n then Some p else None | None \<Rightarrow> None)"
      "\<forall>i. hm_get (pm_h m') i =
         (case ab ?q i of Some p \<Rightarrow> if p < ceil_log2 n then hm_get (pm_h ?m) i else None | None \<Rightarrow> None)"
    by auto
  have "handle_gossip_query P n m = Some (Ok (map (\<lambda>i. the (hm_get (pm_h m) i)) ?T), m')"
    unfolding handle_gossip_query_def pm_take_n_def by (simp add: pop look cl(1))
  moreover have "length ?T = min GOSSIP_LIMIT (pm_len P m)" using spec by (simp add: pm_len_def pqueue_okD(8)[OF P])
  moreover have "set ?T \<subseteq> dom (ab (pm_q m))" using in_dom by force
  moreover have "the (ab (pm_q m) i) \<le> the (ab (pm_q m) j)"
    if "i \<in> set ?T" "j \<in> dom (ab (pm_q m)) - set ?T" for i j
  proof -
    from that(1) obtain p where ip: "(i, p) \<in> set kvs" by auto
    from that(2) obtain p' where "ab (pm_q m) j = Some p'" "ab q j = Some p'" using spec by auto
    then show ?thesis using spec ip in_dom[OF ip] by fastforce
  qed
  moreover have "ab (pm_q m') = told (ceil_log2 n) ?T (ab (pm_q m))"
    using cl(2) by (auto simp: told_def pushed Let_def fun_eq_iff split: option.splits)
  moreover have "hm_get (pm_h m') i = (if ab (pm_q m') i = None then None else hm_get (pm_h m) i)" for i
    using cl(2,3) by (auto split: option.splits)
  moreover have "rumours_ok ab m'"
    using cl(2,3) ok unfolding rumours_ok_def by (auto simp: pushed split: option.splits) (metis not_None_eq)
  ultimately show ?thesis using dist by blast
qed

lemma handle_gossip_ok:
  assumes "pqueue_ok P ab" "rumours_ok ab m"
  shows "rumours_ok ab (handle_gossip P g m)"
    and "ab (pm_q (handle_gossip P g m)) = (ab (pm_q m))(pm_c m \<mapsto> 0)"
  using assms by (auto simp: rumours_ok_def handle_gossip_def pm_push_def pqueue_okD(2) update_conv)

lemma pm_new_ok: "pqueue_ok P ab \<Longrightarrow> rumours_ok ab (pm_new P)"
  by (simp add: rumours_ok_def pm_new_def pqueue_okD(1))

section \<open>A concrete queue\<close>

fun extreme :: "(nat \<Rightarrow> nat \<Rightarrow> bool) \<Rightarrow> (gossip_id \<times> nat) list \<Rightarrow> (gossip_id \<times> nat) option" where
  "extreme le [] = None"
| "extreme le (x # xs) =
     (case extreme le xs of None \<Rightarrow> Some x | Some y \<Rightarrow> Some (if le (snd x) (snd y) then x else y))"

definition list_pop ::
  "(nat \<Rightarrow> nat \<Rightarrow> bool) \<Rightarrow> (gossip_id, nat) hashmap \<Rightarrow> (gossip_id \<times> nat) option \<times> (gossip_id, nat) hashmap" where
  "list_pop le q = (case extreme le (AList.clearjunk q) of
     None \<Rightarrow> (None, q) | Some (i, p) \<Rightarrow> (Some (i, p), hm_remove i q))"

definition list_queue :: "(gossip_id, nat) hashmap pqueue" where
  "list_queue = \<lparr>pq_new = [], pq_push = (\<lambda>q i p. hm_insert i p q),
     pq_push_increase = (\<lambda>q i p. hm_insert i (case hm_get q i of None \<Rightarrow> p | Some p' \<Rightarrow> max p p') q),
     pq_pop_max = list_pop (\<ge>), pq_pop_min = list_pop (\<le>),
     pq_peek_max = (\<lambda>q. fst (list_pop (\<ge>) q)), pq_len = (\<lambda>q. length (AList.clearjunk q))\<rparr>"

lemma extreme_spec:
  assumes "\<And>x y. le x y \<or> le y x" "\<And>x y z. le x y \<Longrightarrow> le y z \<Longrightarrow> le x z"
  shows "case extreme le xs of None \<Rightarrow> xs = [] | Some x \<Rightarrow> x \<in> set xs \<and> (\<forall>y \<in> set xs. le (snd x) (snd y))"
proof (induction xs)
  case Nil
  then show ?case by simp
next
  case (Cons x xs)
  have refl: "le z z" for z using assms(1)[of z z] by blast
  show ?case
  proof (cases "extreme le xs")
    case None
    with Cons refl show ?thesis by simp
  next
    case (Some y)
    with Cons refl show ?thesis using assms by (auto; blast)
  qed
qed

lemma list_pop_pops:
  assumes "\<And>x y. le x y \<or> le y x" "\<And>x y z. le x y \<Longrightarrow> le y z \<Longrightarrow> le x z"
  shows "pops hm_get le (list_pop le)"
  unfolding pops_def
proof
  fix q :: "(gossip_id, nat) hashmap"
  have get: "hm_get q i = Some p \<longleftrightarrow> (i, p) \<in> set (AList.clearjunk q)" for i p
    by (metis distinct_clearjunk map_of_clearjunk map_of_eq_Some_iff)
  show "case list_pop le q of (None, q') \<Rightarrow> hm_get q = Map.empty \<and> hm_get q' = Map.empty
      | (Some (i, p), q') \<Rightarrow> hm_get q i = Some p \<and> (\<forall>j p'. hm_get q j = Some p' \<longrightarrow> le p p') \<and>
          hm_get q' = (hm_get q)(i := None)"
  proof (cases "extreme le (AList.clearjunk q)")
    case None
    then have "AList.clearjunk q = []" using extreme_spec[of le "AList.clearjunk q", OF assms] by simp
    then have "q = []" by (cases q) auto
    with None show ?thesis by (simp add: list_pop_def)
  next
    case (Some x)
    obtain i p where x: "x = (i, p)" by (cases x)
    have "(i, p) \<in> set (AList.clearjunk q)" "\<forall>y \<in> set (AList.clearjunk q). le p (snd y)"
      using extreme_spec[of le "AList.clearjunk q", OF assms] Some x by simp_all
    then show ?thesis using Some x get by (auto simp: list_pop_def delete_conv)
  qed
qed

lemma list_queue_ok: "pqueue_ok list_queue hm_get"
proof -
  have len: "length (AList.clearjunk q) = card (dom (hm_get q))" for q :: "(gossip_id, nat) hashmap"
    by (metis distinct_card distinct_clearjunk dom_clearjunk dom_map_of_conv_image_fst length_map set_map)
  have lp: "pops hm_get (\<ge>) (list_pop (\<ge>))" "pops hm_get (\<le>) (list_pop (\<le>))"
    by (rule list_pop_pops; auto)+
  have "case fst (list_pop (\<ge>) q) of None \<Rightarrow> hm_get q = Map.empty
      | Some (i, p) \<Rightarrow> hm_get q i = Some p \<and> (\<forall>j p'. hm_get q j = Some p' \<longrightarrow> p' \<le> p)" for q
    using lp(1)[unfolded pops_def, rule_format, of q] by (auto split: prod.splits option.splits)
  with lp show ?thesis unfolding pqueue_ok_def list_queue_def
    by (auto simp: update_conv finite_dom_map_of len)
qed

section \<open>Properties\<close>

text \<open>
  C21: A gossip query always answers, without a panic. It hands out at most three rumours, as many as there
  are up to that, and those told least often so far. Each of them counts as told once more, and the node
  then forgets exactly the rumours told at least \<open>ceil_log2\<close> of the network size often.
\<close>

theorem gossip_query_tells_least_told:
  assumes "pqueue_ok P ab" "rumours_ok ab m"
  shows "\<exists>T m'. handle_gossip_query P n m = Some (Ok (map (\<lambda>i. the (hm_get (pm_h m) i)) T), m') \<and>
    distinct T \<and> length T = min GOSSIP_LIMIT (pm_len P m) \<and> set T \<subseteq> dom (ab (pm_q m)) \<and>
    (\<forall>i \<in> set T. \<forall>j \<in> dom (ab (pm_q m)) - set T. the (ab (pm_q m) i) \<le> the (ab (pm_q m) j)) \<and>
    ab (pm_q m') = told (ceil_log2 n) T (ab (pm_q m)) \<and>
    (\<forall>i. hm_get (pm_h m') i = (if ab (pm_q m') i = None then None else hm_get (pm_h m) i)) \<and> rumours_ok ab m'"
  using assms by (rule handle_gossip_query_spec)

definition two_rumours :: "(gossip_id, nat) hashmap priority_map" where
  "two_rumours = handle_gossip list_queue (Joiner 2) (handle_gossip list_queue (Joiner 1) (pm_new list_queue))"

theorem gossip_query_tells_least_told_witness:
  "rumours_ok hm_get two_rumours \<and> (\<exists>rs m'. handle_gossip_query list_queue 4 two_rumours = Some (Ok rs, m') \<and> length rs = 2)"
proof -
  have ok: "rumours_ok hm_get two_rumours"
    unfolding two_rumours_def by (intro handle_gossip_ok(1) pm_new_ok list_queue_ok)
  have "pm_len list_queue two_rumours = 2"
    by (simp add: pm_len_def two_rumours_def handle_gossip_def pm_push_def pm_new_def list_queue_def)
  then show ?thesis using gossip_query_tells_least_told[OF list_queue_ok ok, of 4] ok
    by (auto simp: GOSSIP_LIMIT_def)
qed

text \<open>
  Every rumour the component is given stays until it was told: with at least two nodes in the network a
  query only forgets what it just handed out or was handed out before.
\<close>

lemma untold_rumour_stays:
  assumes "2 \<le> n" "ps i = Some 0" "i \<notin> set T"
  shows "told (ceil_log2 n) T ps i = Some 0"
  using assms ceil_log2_least[of n 0] by (auto simp: told_def)

text \<open>Below that size the limit is zero and a query forgets every rumour, told or not.\<close>

lemma lonely_node_forgets:
  assumes "n \<le> 1"
  shows "told (ceil_log2 n) T ps = Map.empty"
  using assms ceil_log2_least[of n 0] by (auto simp: told_def fun_eq_iff split: option.splits)

end
