(* ===== verification/Bounded.thy ===== *)
theory Bounded
  imports Errors
begin

text \<open>
  The bounded collections of \<^verbatim>\<open>src/sleet/sleet/sleet_utils.rs\<close>. Both keep the keys in the order
  of insertion and drop the oldest when full; the locale \<open>bounded_cache\<close> is that contract, and it is
  interpreted on the set and on the map. An insertion that would panic is \<open>None\<close>.
\<close>

section \<open>Sets and maps\<close>

record 'a bounded_set =
  bs_size :: nat
  bs_elems :: "'a hashset"
  bs_queue :: "'a list"

definition bounded_set_new :: "nat \<Rightarrow> 'a bounded_set" where
  "bounded_set_new n = \<lparr>bs_size = n, bs_elems = [], bs_queue = []\<rparr>"

definition bounded_set_insert :: "'a \<Rightarrow> 'a bounded_set \<Rightarrow> 'a bounded_set option" where
  "bounded_set_insert e s =
     (if e \<in> set (bs_elems s) then Some s
      else
        let elems = hs_insert e (bs_elems s) in
        if length elems \<ge> bs_size s then
          (case bs_queue s of
             [] \<Rightarrow> None
           | x # q \<Rightarrow> Some (s\<lparr>bs_elems := hs_remove x elems, bs_queue := q @ [e]\<rparr>))
        else Some (s\<lparr>bs_elems := elems, bs_queue := bs_queue s @ [e]\<rparr>))"

record ('k, 'v) bounded_map =
  bm_size :: nat
  bm_elems :: "('k, 'v) hashmap"
  bm_queue :: "'k list"

definition bounded_map_new :: "nat \<Rightarrow> ('k, 'v) bounded_map" where
  "bounded_map_new n = \<lparr>bm_size = n, bm_elems = [], bm_queue = []\<rparr>"

definition bounded_map_insert :: "'k \<Rightarrow> 'v \<Rightarrow> ('k, 'v) bounded_map \<Rightarrow> ('k, 'v) bounded_map option" where
  "bounded_map_insert k v m =
     (let elems = hm_insert k v (bm_elems m) in
      if hm_get (bm_elems m) k \<noteq> None then Some (m\<lparr>bm_elems := elems\<rparr>)
      else if length elems \<ge> bm_size m then
        (case bm_queue m of
           [] \<Rightarrow> None
         | x # q \<Rightarrow> Some (m\<lparr>bm_elems := hm_remove x elems, bm_queue := q @ [k]\<rparr>))
      else Some (m\<lparr>bm_elems := elems, bm_queue := bm_queue m @ [k]\<rparr>))"

section \<open>First in, first out\<close>

primrec insert_each :: "('k \<Rightarrow> 's \<Rightarrow> 's option) \<Rightarrow> 'k list \<Rightarrow> 's \<Rightarrow> 's option" where
  "insert_each ins [] s = Some s"
| "insert_each ins (k # ks) s = Option.bind (ins k s) (insert_each ins ks)"

text \<open>
  A cache of capacity \<open>cap\<close> with the keys \<open>keys\<close>, oldest first. Inserting a known key changes
  nothing; a new key is put last and, if the cache would then hold \<open>cap\<close> keys, the oldest goes.
\<close>

locale bounded_cache =
  fixes inv :: "'s \<Rightarrow> bool" and keys :: "'s \<Rightarrow> 'k list" and cap :: "'s \<Rightarrow> nat"
    and ins :: "'k \<Rightarrow> 's \<Rightarrow> 's option"
  assumes keys_bounded: "inv s \<Longrightarrow> distinct (keys s) \<and> length (keys s) < cap s"
    and ins_known: "inv s \<Longrightarrow> k \<in> set (keys s) \<Longrightarrow>
      \<exists>s'. ins k s = Some s' \<and> inv s' \<and> keys s' = keys s \<and> cap s' = cap s"
    and ins_new: "inv s \<Longrightarrow> k \<notin> set (keys s) \<Longrightarrow>
      \<exists>s'. ins k s = Some s' \<and> inv s' \<and> cap s' = cap s \<and>
        keys s' = (if Suc (length (keys s)) \<ge> cap s then tl (keys s) else keys s) @ [k]"
begin

lemma ins_total: "inv s \<Longrightarrow> \<exists>s'. ins k s = Some s' \<and> inv s' \<and> cap s' = cap s \<and> k \<in> set (keys s')"
  using ins_known[of s k] ins_new[of s k] by (cases "k \<in> set (keys s)") auto

text \<open>Of fresh keys inserted one after the other the cache holds the last \<open>cap - 1\<close>.\<close>

lemma insert_each_fifo:
  assumes "inv s" "distinct (keys s @ ks)"
  shows "\<exists>s'. insert_each ins ks s = Some s' \<and> inv s' \<and> cap s' = cap s \<and>
    keys s' = drop (length (keys s @ ks) - (cap s - 1)) (keys s @ ks)"
  using assms
proof (induction ks arbitrary: s)
  case Nil
  then show ?case using keys_bounded[of s] by auto
next
  case (Cons k ks)
  from ins_new[OF Cons.prems(1), of k] Cons.prems(2) obtain s1 where s1: "ins k s = Some s1" "inv s1"
    "cap s1 = cap s" "keys s1 = (if Suc (length (keys s)) \<ge> cap s then tl (keys s) else keys s) @ [k]"
    by auto
  have kb: "length (keys s) < cap s" using keys_bounded[OF Cons.prems(1)] by simp
  let ?all = "keys s @ k # ks"
  have d: "distinct (keys s1 @ ks)"
    using Cons.prems(2) by (cases "keys s") (auto simp: s1(4))
  from Cons.IH[OF s1(2) d] obtain s' where s': "insert_each ins ks s1 = Some s'" "inv s'" "cap s' = cap s"
    "keys s' = drop (length (keys s1 @ ks) - (cap s - 1)) (keys s1 @ ks)"
    using s1(3) by auto
  have "drop (length (keys s1 @ ks) - (cap s - 1)) (keys s1 @ ks) = drop (length ?all - (cap s - 1)) ?all"
  proof (cases "Suc (length (keys s)) \<ge> cap s")
    case True
    show ?thesis
    proof (cases "keys s")
      case Nil
      then show ?thesis using True s1(4) kb by simp
    next
      case (Cons x q)
      then have a: "keys s1 @ ks = tl ?all" using s1(4) True by simp
      have b: "Suc (length (tl ?all) - (cap s - 1)) = length ?all - (cap s - 1)"
        using True Cons kb by simp
      show ?thesis unfolding a drop_Suc[symmetric] b ..
    qed
  next
    case False
    then show ?thesis using s1(4) by simp
  qed
  then have "keys s' = drop (length ?all - (cap s - 1)) ?all" using s'(4) by (rule trans[rotated])
  then show ?case using s1(1) s'(1-3) by (intro exI[of _ s']) simp
qed

end

definition bs_inv :: "'a bounded_set \<Rightarrow> bool" where
  "bs_inv s \<longleftrightarrow> 2 \<le> bs_size s \<and> distinct (bs_queue s) \<and> length (bs_queue s) < bs_size s \<and>
     distinct (bs_elems s) \<and> set (bs_elems s) = set (bs_queue s)"

definition bm_inv :: "('k, 'v) bounded_map \<Rightarrow> bool" where
  "bm_inv m \<longleftrightarrow> 2 \<le> bm_size m \<and> distinct (bm_queue m) \<and> length (bm_queue m) < bm_size m \<and>
     hm_wf (bm_elems m) \<and> hm_keys (bm_elems m) = set (bm_queue m)"

lemma bs_inv_length: "bs_inv s \<Longrightarrow> length (bs_elems s) = length (bs_queue s)"
  by (metis bs_inv_def distinct_card)

lemma bm_inv_length: "bm_inv m \<Longrightarrow> length (bm_elems m) = length (bm_queue m)"
  by (metis bm_inv_def distinct_card length_map list.set_map)

interpretation bset: bounded_cache bs_inv bs_queue bs_size bounded_set_insert
proof
  fix s :: "'a bounded_set" and k
  assume i: "bs_inv s"
  then show "distinct (bs_queue s) \<and> length (bs_queue s) < bs_size s" by (simp add: bs_inv_def)
  show "k \<in> set (bs_queue s) \<Longrightarrow> \<exists>s'. bounded_set_insert k s = Some s' \<and> bs_inv s' \<and>
      bs_queue s' = bs_queue s \<and> bs_size s' = bs_size s"
    using i by (simp add: bounded_set_insert_def bs_inv_def)
  show "\<exists>s'. bounded_set_insert k s = Some s' \<and> bs_inv s' \<and> bs_size s' = bs_size s \<and>
      bs_queue s' = (if bs_size s \<le> Suc (length (bs_queue s)) then tl (bs_queue s) else bs_queue s) @ [k]"
    if "k \<notin> set (bs_queue s)"
    using i that bs_inv_length[OF i]
    by (cases "bs_queue s") (auto simp: bounded_set_insert_def bs_inv_def Let_def length_hs_insert)
qed

interpretation bmap: bounded_cache bm_inv bm_queue bm_size "\<lambda>k. bounded_map_insert k v" for v :: 'v
proof
  fix m :: "('k, 'v) bounded_map" and k
  assume i: "bm_inv m"
  then show "distinct (bm_queue m) \<and> length (bm_queue m) < bm_size m" by (simp add: bm_inv_def)
  show "\<exists>m'. bounded_map_insert k v m = Some m' \<and> bm_inv m' \<and> bm_queue m' = bm_queue m \<and> bm_size m' = bm_size m"
    if "k \<in> set (bm_queue m)"
    using i that by (auto simp: bounded_map_insert_def bm_inv_def Let_def hm_get_None_iff)
  show "\<exists>m'. bounded_map_insert k v m = Some m' \<and> bm_inv m' \<and> bm_size m' = bm_size m \<and>
      bm_queue m' = (if bm_size m \<le> Suc (length (bm_queue m)) then tl (bm_queue m) else bm_queue m) @ [k]"
    if "k \<notin> set (bm_queue m)"
    using i that bm_inv_length[OF i]
    by (cases "bm_queue m") (auto simp: bounded_map_insert_def bm_inv_def Let_def hm_get_None_iff hm_insert_length)
qed

text \<open>The same contract when the value is a function of the key, with the values in the invariant.\<close>

definition bm_values :: "('k \<Rightarrow> 'v) \<Rightarrow> ('k, 'v) bounded_map \<Rightarrow> bool" where
  "bm_values f m \<longleftrightarrow> (\<forall>k v. hm_get (bm_elems m) k = Some v \<longrightarrow> v = f k)"

lemma bm_values_insert:
  "bm_values f m \<Longrightarrow> bounded_map_insert k (f k) m = Some m' \<Longrightarrow> bm_values f m'"
  by (auto simp: bm_values_def bounded_map_insert_def Let_def split: if_splits list.splits)

interpretation fmap: bounded_cache "\<lambda>m. bm_inv m \<and> bm_values f m" bm_queue bm_size
    "\<lambda>k. bounded_map_insert k (f k)" for f :: "'k \<Rightarrow> 'v"
proof
  fix m :: "('k, 'v) bounded_map" and k
  assume i: "bm_inv m \<and> bm_values f m"
  then show "distinct (bm_queue m) \<and> length (bm_queue m) < bm_size m"
    using bmap.keys_bounded by blast
  show "\<exists>m'. bounded_map_insert k (f k) m = Some m' \<and> (bm_inv m' \<and> bm_values f m') \<and>
      bm_queue m' = bm_queue m \<and> bm_size m' = bm_size m" if "k \<in> set (bm_queue m)"
  proof -
    have "bm_inv m" using i by simp
    from bmap.ins_known[OF this that, where v = "f k"] obtain m' where
      "bounded_map_insert k (f k) m = Some m'" "bm_inv m'" "bm_queue m' = bm_queue m" "bm_size m' = bm_size m"
      by auto
    then show ?thesis using i bm_values_insert[of f m k m'] by (intro exI[of _ m']) simp
  qed
  show "\<exists>m'. bounded_map_insert k (f k) m = Some m' \<and> (bm_inv m' \<and> bm_values f m') \<and> bm_size m' = bm_size m \<and>
      bm_queue m' = (if bm_size m \<le> Suc (length (bm_queue m)) then tl (bm_queue m) else bm_queue m) @ [k]"
    if "k \<notin> set (bm_queue m)"
  proof -
    have "bm_inv m" using i by simp
    from bmap.ins_new[OF this that, where v = "f k"] obtain m' where "bounded_map_insert k (f k) m = Some m'" "bm_inv m'"
      "bm_size m' = bm_size m"
      "bm_queue m' = (if bm_size m \<le> Suc (length (bm_queue m)) then tl (bm_queue m) else bm_queue m) @ [k]"
      by auto
    then show ?thesis using i bm_values_insert[of f m k m'] by (intro exI[of _ m']) simp
  qed
qed

lemma bounded_map_insert_total: "bm_inv m \<Longrightarrow> \<exists>m'. bounded_map_insert k v m = Some m' \<and> bm_inv m'"
  using bmap.ins_total[where v = v and s = m and k = k] by auto

lemma bounded_set_insert_total: "bs_inv s \<Longrightarrow> \<exists>s'. bounded_set_insert e s = Some s' \<and> bs_inv s'"
  using bset.ins_total[where s = s and k = e] by auto

lemma bounded_map_new_inv: "2 \<le> n \<Longrightarrow> bm_inv (bounded_map_new n) \<and> bm_values f (bounded_map_new n)"
  by (simp add: bm_inv_def bm_values_def bounded_map_new_def)

text \<open>
  The bounded map is a first in, first out cache that never panics. Starting from an empty map
  of size at least two, inserting distinct keys one after the other leaves exactly the last
  \<open>size - 1\<close> of them, each with its value.
\<close>

theorem bounded_map_keeps_newest:
  assumes "2 \<le> n" and "distinct ks"
  shows "\<exists>m. insert_each (\<lambda>k. bounded_map_insert k (f k)) ks (bounded_map_new n) = Some m \<and>
    bm_queue m = drop (length ks - (n - 1)) ks \<and>
    (\<forall>k. hm_get (bm_elems m) k = (if k \<in> set (drop (length ks - (n - 1)) ks) then Some (f k) else None))"
proof -
  have "bm_queue (bounded_map_new n :: ('a, 'b) bounded_map) = []" "bm_size (bounded_map_new n :: ('a, 'b) bounded_map) = n"
    by (simp_all add: bounded_map_new_def)
  with fmap.insert_each_fifo[OF bounded_map_new_inv[OF assms(1)], where f = f and ks = ks] assms(2) obtain m where m:
    "insert_each (\<lambda>k. bounded_map_insert k (f k)) ks (bounded_map_new n) = Some m"
    "bm_inv m" "bm_values f m" "bm_queue m = drop (length ks - (n - 1)) ks"
    by auto
  have "hm_get (bm_elems m) k = (if k \<in> set (bm_queue m) then Some (f k) else None)" for k
  proof (cases "hm_get (bm_elems m) k")
    case None
    then have "k \<notin> hm_keys (bm_elems m)" by (rule hm_get_None_iff[THEN iffD1])
    then have "k \<notin> set (bm_queue m)" using m(2) by (simp add: bm_inv_def)
    then show ?thesis using None by simp
  next
    case (Some v)
    then have "k \<in> hm_keys (bm_elems m)" by (rule hm_get_Some_keys)
    then have "k \<in> set (bm_queue m)" using m(2) by (simp only: bm_inv_def)
    then show ?thesis using Some m(3) by (simp add: bm_values_def)
  qed
  then show ?thesis using m(1,4) by (intro exI[of _ m]) simp
qed

theorem bounded_map_keeps_newest_witness:
  "\<exists>m. insert_each (\<lambda>k. bounded_map_insert k (k * 10)) [1, 2, 3, 4 :: nat] (bounded_map_new 3) = Some m \<and>
     bm_queue m = [3, 4]"
  using bounded_map_keeps_newest[of 3 "[1, 2, 3, 4 :: nat]" "\<lambda>k. k * 10"] by auto

end
