(* ===== verification/Conflict_Graph.thy ===== *)
theory Conflict_Graph
  imports Cells
begin

text \<open>
  The conflicts between transactions: \<^verbatim>\<open>src/sleet/conflict_set.rs\<close> and
  \<^verbatim>\<open>src/graph/conflict_graph.rs\<close>. The vertices of the hypergraph are spendable outputs,
  each with the cells that try to spend it; every cell has a conflict set of its own. The invariant
  \<open>cg_wf\<close> says that the conflict set of a cell holds exactly the cells that share an input with it.
\<close>

section \<open>Conflict sets\<close>

definition SLEET_BETA2 :: u8 where
  "SLEET_BETA2 = 20"

record 'a conflict_set =
  conflicts :: "'a hashset"
  pref :: 'a
  last_queried :: 'a
  cnt :: u8

definition conflict_set_new :: "'a \<Rightarrow> 'a conflict_set" where
  "conflict_set_new t = \<lparr>conflicts = [t], pref = t, last_queried = t, cnt = 0\<rparr>"

definition cset_is_equivalent :: "'a conflict_set \<Rightarrow> 'a hashset \<Rightarrow> bool" where
  "cset_is_equivalent cs hs = (set (conflicts cs) = set hs)"

definition cset_is_preferred :: "'a conflict_set \<Rightarrow> 'a \<Rightarrow> bool" where
  "cset_is_preferred cs t = (pref cs = t)"

definition cset_is_singleton :: "'a conflict_set \<Rightarrow> bool" where
  "cset_is_singleton cs = (length (conflicts cs) = 1)"

definition set_conflicts :: "'a conflict_set \<Rightarrow> 'a hashset \<Rightarrow> 'a conflict_set" where
  "set_conflicts cs hs = cs\<lparr>conflicts := hs\<rparr>"

definition remove_from_conflict_set :: "'a conflict_set \<Rightarrow> 'a \<Rightarrow> 'a conflict_set" where
  "remove_from_conflict_set cs elt =
     (if length (conflicts cs) \<le> 1 then cs else cs\<lparr>conflicts := hs_remove elt (conflicts cs)\<rparr>)"

section \<open>The conflict graph\<close>

datatype output_status = Pending | Accepted | Rejected

record vertex_data =
  spenders :: "cell_hash_t hashset"
  vertex_status :: output_status

record conflict_graph =
  cg_vertices :: "(cell_id, vertex_data) hashmap"
  cg_cells :: "(cell_hash_t, cell) hashmap"
  cg_cs :: "(cell_hash_t, cell_hash_t conflict_set) hashmap"
  cg_order :: "cell_hash_t list"

fun insert_vertices :: "output_status \<Rightarrow> cell_id list \<Rightarrow> (cell_id, vertex_data) hashmap \<Rightarrow> (cell_id, vertex_data) hashmap" where
  "insert_vertices st [] vs = vs"
| "insert_vertices st (i # is) vs =
     insert_vertices st is (hm_insert i \<lparr>spenders = [], vertex_status = st\<rparr> vs)"

definition cg_new :: "cell_ids \<Rightarrow> conflict_graph" where
  "cg_new genesis = \<lparr>cg_vertices = insert_vertices Accepted genesis [], cg_cells = [], cg_cs = [],
                     cg_order = []\<rparr>"

definition cg_append :: "conflict_graph \<Rightarrow> cell_ids \<Rightarrow> conflict_graph" where
  "cg_append G ids = G\<lparr>cg_vertices := insert_vertices Accepted
     (filter (\<lambda>i. \<not> hm_contains (cg_vertices G) i) ids) (cg_vertices G)\<rparr>"

text \<open>
  The loop of \<^verbatim>\<open>insert_cell\<close> over the consumed ids collects the current spenders and adds
  the cell to them; what was added before an undefined id stays.
\<close>

fun insert_spenders ::
  "cell_hash_t \<Rightarrow> cell_id list \<Rightarrow> (cell_id, vertex_data) hashmap \<Rightarrow> cell_hash_t hashset
   \<Rightarrow> (graph_error, cell_hash_t hashset) result \<times> (cell_id, vertex_data) hashmap" where
  "insert_spenders h [] vs confl = (Ok confl, vs)"
| "insert_spenders h (i # is) vs confl =
     (case hm_get vs i of
        Some d \<Rightarrow> insert_spenders h is
                    (hm_insert i (d\<lparr>spenders := hs_insert h (spenders d)\<rparr>) vs)
                    (hs_extend confl (spenders d))
      | None \<Rightarrow> (Err UndefinedCell, vs))"

fun link_conflicts ::
  "cell_hash_t \<Rightarrow> cell_hash_t list \<Rightarrow> (cell_hash_t, cell_hash_t conflict_set) hashmap
   \<Rightarrow> cell_hash_t conflict_set
   \<Rightarrow> (graph_error, cell_hash_t conflict_set) result \<times> (cell_hash_t, cell_hash_t conflict_set) hashmap" where
  "link_conflicts h [] m own = (Ok own, m)"
| "link_conflicts h (k # ks) m own =
     (case hm_get m k of
        None \<Rightarrow> (Panic, m)
      | Some cs \<Rightarrow> link_conflicts h ks
                     (hm_insert k (cs\<lparr>conflicts := hs_insert h (conflicts cs)\<rparr>) m)
                     (own\<lparr>conflicts := hs_insert k (conflicts own)\<rparr>))"

definition inherit_preference ::
  "cell_hash_t hashset \<Rightarrow> cell_hash_t list \<Rightarrow> (cell_hash_t, cell_hash_t conflict_set) hashmap
   \<Rightarrow> cell_hash_t conflict_set \<Rightarrow> (graph_error, cell_hash_t conflict_set) result" where
  "inherit_preference confl order m own =
     (if length confl > 0 then
        (case List.find (\<lambda>k. k \<in> set confl) order of
           None \<Rightarrow> Panic
         | Some first_conflict \<Rightarrow>
             (case hm_get m first_conflict of
                None \<Rightarrow> Panic
              | Some cs \<Rightarrow> Ok (own\<lparr>pref := pref cs, last_queried := last_queried cs, cnt := cnt cs\<rparr>)))
      else Ok own)"

definition insert_cell ::
  "'a externs_scheme \<Rightarrow> conflict_graph \<Rightarrow> cell \<Rightarrow> (graph_error, unit) result \<times> conflict_graph" where
  "insert_cell E G c =
     (let h = cell_hash E c;
          old = hm_get (cg_cells G) h;
          G1 = G\<lparr>cg_cells := hm_insert h c (cg_cells G)\<rparr> in
      if old \<noteq> None then (Err DuplicateCell, G1)
      else
        (case insert_spenders h (cell_ids_from_inputs E (inputs c)) (cg_vertices G1) [] of
           (Ok confl, vs) \<Rightarrow>
             (let vs' = insert_vertices Pending (cell_ids_from_outputs E h (outputs c)) vs;
                  G2 = G1\<lparr>cg_vertices := vs', cg_order := cg_order G1 @ [h]\<rparr> in
              case link_conflicts h confl (cg_cs G2) (conflict_set_new h) of
                (Ok own, m) \<Rightarrow>
                  (case inherit_preference confl (cg_order G2) m own of
                     Ok own' \<Rightarrow> (Ok (), G2\<lparr>cg_cs := hm_insert h own' m\<rparr>)
                   | Err e \<Rightarrow> (Err e, G2\<lparr>cg_cs := m\<rparr>)
                   | Panic \<Rightarrow> (Panic, G2\<lparr>cg_cs := m\<rparr>))
              | (Err e, m) \<Rightarrow> (Err e, G2\<lparr>cg_cs := m\<rparr>)
              | (Panic, m) \<Rightarrow> (Panic, G2\<lparr>cg_cs := m\<rparr>))
         | (Err e, vs) \<Rightarrow> (Err e, G1\<lparr>cg_vertices := vs\<rparr>)
         | (Panic, vs) \<Rightarrow> (Panic, G1\<lparr>cg_vertices := vs\<rparr>)))"

fun set_status ::
  "output_status \<Rightarrow> cell_id list \<Rightarrow> (cell_id, vertex_data) hashmap
   \<Rightarrow> (graph_error, unit) result \<times> (cell_id, vertex_data) hashmap" where
  "set_status st [] vs = (Ok (), vs)"
| "set_status st (i # is) vs =
     (case hm_get vs i of
        None \<Rightarrow> (Panic, vs)
      | Some d \<Rightarrow> set_status st is (hm_insert i (d\<lparr>vertex_status := st\<rparr>) vs))"

fun remove_spender ::
  "cell_hash_t \<Rightarrow> cell_id list \<Rightarrow> (cell_id, vertex_data) hashmap
   \<Rightarrow> (graph_error, unit) result \<times> (cell_id, vertex_data) hashmap" where
  "remove_spender h [] vs = (Ok (), vs)"
| "remove_spender h (i # is) vs =
     (case hm_get vs i of
        None \<Rightarrow> (Panic, vs)
      | Some d \<Rightarrow> remove_spender h is (hm_insert i (d\<lparr>spenders := hs_remove h (spenders d)\<rparr>) vs))"

definition remove_from_vertices ::
  "'a externs_scheme \<Rightarrow> conflict_graph \<Rightarrow> cell_hash_t \<Rightarrow> (graph_error, unit) result \<times> conflict_graph" where
  "remove_from_vertices E G h =
     (case hm_get (cg_cells G) h of
        None \<Rightarrow> (Panic, G)
      | Some c \<Rightarrow>
          (case set_status Rejected (cell_ids_from_outputs E h (outputs c)) (cg_vertices G) of
             (Ok _, vs) \<Rightarrow>
               (case remove_spender h (cell_ids_from_inputs E (inputs c)) vs of
                  (r, vs') \<Rightarrow> (r, G\<lparr>cg_vertices := vs'\<rparr>))
           | (r, vs) \<Rightarrow> (r, G\<lparr>cg_vertices := vs\<rparr>)))"

fun unlink_conflicts ::
  "cell_hash_t \<Rightarrow> cell_hash_t list \<Rightarrow> (cell_hash_t, cell_hash_t conflict_set) hashmap
   \<Rightarrow> (cell_hash_t, cell_hash_t conflict_set) hashmap" where
  "unlink_conflicts h [] m = m"
| "unlink_conflicts h (k # ks) m =
     (if h = k then unlink_conflicts h ks m
      else (case hm_get m k of
              Some cs \<Rightarrow> unlink_conflicts h ks (hm_insert k (remove_from_conflict_set cs h) m)
            | None \<Rightarrow> unlink_conflicts h ks m))"

definition remove_cell ::
  "'a externs_scheme \<Rightarrow> conflict_graph \<Rightarrow> cell_hash_t \<Rightarrow> (graph_error, unit) result \<times> conflict_graph" where
  "remove_cell E G h =
     (case hm_get (cg_cs G) h of
        Some cs \<Rightarrow>
          (case remove_from_vertices E G h of
             (Ok _, G1) \<Rightarrow>
               (Ok (), G1\<lparr>cg_cs := hm_remove h (unlink_conflicts h (conflicts cs) (cg_cs G1)),
                         cg_cells := hm_remove h (cg_cells G1),
                         cg_order := filter (\<lambda>k. k \<noteq> h) (cg_order G1)\<rparr>)
           | (r, G1) \<Rightarrow> (r, G1))
      | None \<Rightarrow> (Err UndefinedCell, G))"

fun remove_competitors ::
  "'a externs_scheme \<Rightarrow> cell_hash_t \<Rightarrow> cell_hash_t list \<Rightarrow> conflict_graph
   \<Rightarrow> (graph_error, unit) result \<times> conflict_graph" where
  "remove_competitors E h [] G = (Ok (), G)"
| "remove_competitors E h (k # ks) G =
     (if h = k then remove_competitors E h ks G
      else (case remove_cell E G k of
              (Ok _, G') \<Rightarrow> remove_competitors E h ks G'
            | (r, G') \<Rightarrow> (r, G')))"

definition accept_cell ::
  "'a externs_scheme \<Rightarrow> conflict_graph \<Rightarrow> cell
   \<Rightarrow> (graph_error, cell_hash_t list) result \<times> conflict_graph" where
  "accept_cell E G c =
     (let h = cell_hash E c in
      case set_status Accepted (cell_ids_from_outputs E h (outputs c)) (cg_vertices G) of
        (Ok _, vs) \<Rightarrow>
          (let G1 = G\<lparr>cg_vertices := vs\<rparr> in
           case hm_get (cg_cs G1) h of
             Some cs \<Rightarrow>
               (case remove_competitors E h (conflicts cs) G1 of
                  (Ok _, G2) \<Rightarrow>
                    (Ok (filter (\<lambda>k. k \<noteq> h) (conflicts cs)),
                     G2\<lparr>cg_cs := hm_insert h ((conflict_set_new h)\<lparr>cnt := cnt cs\<rparr>) (cg_cs G2)\<rparr>)
                | (Err e, G2) \<Rightarrow> (Err e, G2)
                | (Panic, G2) \<Rightarrow> (Panic, G2))
           | None \<Rightarrow> (Err UndefinedCell, G1))
      | (Err e, vs) \<Rightarrow> (Err e, G\<lparr>cg_vertices := vs\<rparr>)
      | (Panic, vs) \<Rightarrow> (Panic, G\<lparr>cg_vertices := vs\<rparr>))"

definition conflicting_cells :: "conflict_graph \<Rightarrow> cell_hash_t \<Rightarrow> cell_hash_t conflict_set option" where
  "conflicting_cells G h = hm_get (cg_cs G) h"

definition cg_is_singleton :: "conflict_graph \<Rightarrow> cell_hash_t \<Rightarrow> (graph_error, bool) result" where
  "cg_is_singleton G h =
     (case conflicting_cells G h of
        Some cs \<Rightarrow> Ok (cset_is_singleton cs) | None \<Rightarrow> Err (UndefinedCellHash h))"

definition get_preferred :: "conflict_graph \<Rightarrow> cell_hash_t \<Rightarrow> (graph_error, cell_hash_t) result" where
  "get_preferred G h =
     (case conflicting_cells G h of Some cs \<Rightarrow> Ok (pref cs) | None \<Rightarrow> Err (UndefinedCellHash h))"

definition cg_is_preferred :: "conflict_graph \<Rightarrow> cell_hash_t \<Rightarrow> (graph_error, bool) result" where
  "cg_is_preferred G h =
     (case conflicting_cells G h of
        Some cs \<Rightarrow> Ok (cset_is_preferred cs h) | None \<Rightarrow> Err (UndefinedCellHash h))"

definition get_confidence :: "conflict_graph \<Rightarrow> cell_hash_t \<Rightarrow> (graph_error, u8) result" where
  "get_confidence G h =
     (case conflicting_cells G h of Some cs \<Rightarrow> Ok (cnt cs) | None \<Rightarrow> Err (UndefinedCellHash h))"

definition update_cset :: "cell_hash_t \<Rightarrow> u8 \<Rightarrow> u8 \<Rightarrow> cell_hash_t conflict_set \<Rightarrow> cell_hash_t conflict_set" where
  "update_cset h d1 d2 cs =
     (let cs1 = (if d1 > d2 then cs\<lparr>pref := h\<rparr> else cs) in
      if h \<noteq> last_queried cs1 then cs1\<lparr>last_queried := h\<rparr>
      else if cnt cs1 < SLEET_BETA2 then cs1\<lparr>cnt := cnt cs1 + 1\<rparr> else cs1)"

definition update_conflict_set ::
  "conflict_graph \<Rightarrow> cell_hash_t \<Rightarrow> u8 \<Rightarrow> u8 \<Rightarrow> (graph_error, unit) result \<times> conflict_graph" where
  "update_conflict_set G h d1 d2 =
     (if length (cg_cs G) > 0 then
        (case hm_get (cg_cs G) h of
           Some cs \<Rightarrow> (Ok (), G\<lparr>cg_cs := hm_insert h (update_cset h d1 d2 cs) (cg_cs G)\<rparr>)
         | None \<Rightarrow> (Err (UndefinedCellHash h), G))
      else (Err EmptyConflictGraph, G))"

definition reset_count ::
  "conflict_graph \<Rightarrow> cell_hash_t \<Rightarrow> (graph_error, unit) result \<times> conflict_graph" where
  "reset_count G h =
     (if length (cg_cs G) > 0 then
        (case hm_get (cg_cs G) h of
           Some cs \<Rightarrow> (Ok (), G\<lparr>cg_cs := hm_insert h (cs\<lparr>cnt := 0\<rparr>) (cg_cs G)\<rparr>)
         | None \<Rightarrow> (Err (UndefinedCellHash h), G))
      else (Err EmptyConflictGraph, G))"

section \<open>The invariant\<close>

definition spends :: "'a externs_scheme \<Rightarrow> conflict_graph \<Rightarrow> cell_hash_t \<Rightarrow> cell_id \<Rightarrow> bool" where
  "spends E G h i \<longleftrightarrow>
     (\<exists>c. hm_get (cg_cells G) h = Some c \<and> i \<in> set (cell_ids_from_inputs E (inputs c)))"

definition spenders_of :: "conflict_graph \<Rightarrow> cell_id \<Rightarrow> cell_hash_t set" where
  "spenders_of G i = (case hm_get (cg_vertices G) i of Some d \<Rightarrow> set (spenders d) | None \<Rightarrow> {})"

definition conflicts_of :: "conflict_graph \<Rightarrow> cell_hash_t \<Rightarrow> cell_hash_t set" where
  "conflicts_of G h = (case hm_get (cg_cs G) h of Some cs \<Rightarrow> set (conflicts cs) | None \<Rightarrow> {})"

text \<open>The cells that conflict with a cell: itself and those sharing an input with it.\<close>

definition competitors :: "'a externs_scheme \<Rightarrow> conflict_graph \<Rightarrow> cell_hash_t \<Rightarrow> cell_hash_t set" where
  "competitors E G h =
     {k \<in> hm_keys (cg_cells G). k = h \<or> (\<exists>i. spends E G h i \<and> spends E G k i)}"

definition cg_wf :: "'a externs_scheme \<Rightarrow> conflict_graph \<Rightarrow> bool" where
  "cg_wf E G \<longleftrightarrow>
     hm_wf (cg_vertices G) \<and> hm_wf (cg_cells G) \<and> hm_wf (cg_cs G) \<and>
     hm_keys (cg_cs G) = hm_keys (cg_cells G) \<and>
     distinct (cg_order G) \<and> set (cg_order G) = hm_keys (cg_cells G) \<and>
     (\<forall>h c. hm_get (cg_cells G) h = Some c \<longrightarrow>
        set (cell_ids_from_inputs E (inputs c)) \<subseteq> hm_keys (cg_vertices G) \<and>
        set (cell_ids_from_outputs E h (outputs c)) \<subseteq> hm_keys (cg_vertices G)) \<and>
     (\<forall>i. spenders_of G i = {h. spends E G h i}) \<and>
     (\<forall>h \<in> hm_keys (cg_cells G). conflicts_of G h = competitors E G h) \<and>
     (\<forall>h cs. hm_get (cg_cs G) h = Some cs \<longrightarrow> distinct (conflicts cs) \<and> cnt cs \<le> SLEET_BETA2)"

lemma cg_wfD:
  assumes "cg_wf E G"
  shows "hm_wf (cg_vertices G)" "hm_wf (cg_cells G)" "hm_wf (cg_cs G)"
    "hm_keys (cg_cs G) = hm_keys (cg_cells G)"
    "distinct (cg_order G)" "set (cg_order G) = hm_keys (cg_cells G)"
    "\<And>h c. hm_get (cg_cells G) h = Some c \<Longrightarrow> set (cell_ids_from_inputs E (inputs c)) \<subseteq> hm_keys (cg_vertices G)"
    "\<And>h c. hm_get (cg_cells G) h = Some c \<Longrightarrow> set (cell_ids_from_outputs E h (outputs c)) \<subseteq> hm_keys (cg_vertices G)"
    "\<And>i. spenders_of G i = {h. spends E G h i}"
    "\<And>h. h \<in> hm_keys (cg_cells G) \<Longrightarrow> conflicts_of G h = competitors E G h"
    "\<And>h cs. hm_get (cg_cs G) h = Some cs \<Longrightarrow> distinct (conflicts cs)"
    "\<And>h cs. hm_get (cg_cs G) h = Some cs \<Longrightarrow> cnt cs \<le> SLEET_BETA2"
  using assms unfolding cg_wf_def by (blast, blast, blast, blast, blast, blast, blast, blast, blast, blast, blast, blast)

lemma spends_cell: "spends E G h i \<Longrightarrow> h \<in> hm_keys (cg_cells G)"
  by (auto simp: spends_def dest: hm_get_Some_keys)

lemma hm_get_insert_vertices [simp]:
  "hm_get (insert_vertices st is vs) i =
     (if i \<in> set is then Some \<lparr>spenders = [], vertex_status = st\<rparr> else hm_get vs i)"
  by (induction "is" arbitrary: vs) auto

lemma hm_keys_insert_vertices [simp]: "hm_keys (insert_vertices st is vs) = hm_keys vs \<union> set is"
  by (induction "is" arbitrary: vs) auto

lemma hm_wf_insert_vertices [simp]: "hm_wf vs \<Longrightarrow> hm_wf (insert_vertices st is vs)"
  by (induction "is" arbitrary: vs) auto

lemma cg_wf_new: "cg_wf E (cg_new genesis)"
  by (simp add: cg_wf_def cg_new_def spenders_of_def spends_def)

lemma cg_wf_append:
  assumes "cg_wf E G"
  shows "cg_wf E (cg_append G ids)"
proof -
  note w = cg_wfD[OF assms]
  let ?G = "cg_append G ids"
  have same: "cg_cells ?G = cg_cells G" "cg_cs ?G = cg_cs G" "cg_order ?G = cg_order G"
    by (simp_all add: cg_append_def)
  have sp: "spends E ?G = spends E G" by (simp add: fun_eq_iff spends_def same)
  have get: "hm_get (cg_vertices ?G) i = (if i \<in> set ids \<and> i \<notin> hm_keys (cg_vertices G)
      then Some \<lparr>spenders = [], vertex_status = Accepted\<rparr> else hm_get (cg_vertices G) i)" for i
    by (simp add: cg_append_def)
  have "spenders_of ?G i = spenders_of G i" for i
    unfolding spenders_of_def get by (simp add: hm_get_None_iff[THEN iffD2])
  then have view: "spenders_of ?G = spenders_of G" "competitors E ?G = competitors E G"
    "conflicts_of ?G = conflicts_of G"
    by (simp_all add: fun_eq_iff competitors_def conflicts_of_def same sp)
  have "hm_keys (cg_vertices G) \<subseteq> hm_keys (cg_vertices ?G)" "hm_wf (cg_vertices ?G)"
    using w(1) by (auto simp: cg_append_def)
  then show ?thesis
    using assms unfolding cg_wf_def same sp view by (meson subset_trans)
qed

section \<open>Inserting a cell\<close>

lemma insert_spenders_Ok:
  assumes "set is \<subseteq> hm_keys vs" "distinct is"
  shows "\<exists>confl' vs'. insert_spenders h is vs confl = (Ok confl', vs') \<and>
    set confl' = set confl \<union> (\<Union>i \<in> set is. set (spenders (the (hm_get vs i)))) \<and>
    (distinct confl \<longrightarrow> distinct confl') \<and> hm_keys vs' = hm_keys vs \<and> (hm_wf vs \<longrightarrow> hm_wf vs') \<and>
    (\<forall>i. hm_get vs' i = (if i \<in> set is
       then map_option (\<lambda>d. d\<lparr>spenders := hs_insert h (spenders d)\<rparr>) (hm_get vs i) else hm_get vs i))"
  using assms
proof (induction "is" arbitrary: vs confl)
  case (Cons i "is")
  then have "i \<in> hm_keys vs" by simp
  from hm_keys_get[OF this] obtain d where d: "hm_get vs i = Some d" ..
  let ?vs = "hm_insert i (d\<lparr>spenders := hs_insert h (spenders d)\<rparr>) vs"
  let ?confl = "hs_extend confl (spenders d)"
  have keys: "hm_keys ?vs = hm_keys vs" using \<open>i \<in> hm_keys vs\<close> by auto
  have "set is \<subseteq> hm_keys ?vs" "distinct is" using Cons.prems by auto
  from Cons.IH[OF this, of ?confl] obtain confl' vs' where r:
    "insert_spenders h is ?vs ?confl = (Ok confl', vs')"
    "set confl' = set ?confl \<union> (\<Union>i \<in> set is. set (spenders (the (hm_get ?vs i))))"
    "distinct ?confl \<longrightarrow> distinct confl'" "hm_keys vs' = hm_keys ?vs" "hm_wf ?vs \<longrightarrow> hm_wf vs'"
    "\<forall>j. hm_get vs' j = (if j \<in> set is
       then map_option (\<lambda>d. d\<lparr>spenders := hs_insert h (spenders d)\<rparr>) (hm_get ?vs j) else hm_get ?vs j)"
    by (elim exE conjE) (rule that)
  have "(\<Union>i \<in> set is. set (spenders (the (hm_get ?vs i)))) =
      (\<Union>i \<in> set is. set (spenders (the (hm_get vs i))))"
    using Cons.prems(2) by (intro SUP_cong) auto
  with r(2) d have "set confl' = set confl \<union> (\<Union>i \<in> set (i # is). set (spenders (the (hm_get vs i))))"
    by auto
  moreover have "insert_spenders h (i # is) vs confl = (Ok confl', vs')" using d r(1) by simp
  moreover have "\<forall>j. hm_get vs' j = (if j \<in> set (i # is)
       then map_option (\<lambda>d. d\<lparr>spenders := hs_insert h (spenders d)\<rparr>) (hm_get vs j) else hm_get vs j)"
    using r(6) Cons.prems(2) d by simp
  ultimately show ?case using r(3-5) keys by (intro exI[of _ confl'] exI[of _ vs']) simp
qed auto

lemma insert_spenders_Undefined:
  "\<not> set is \<subseteq> hm_keys vs \<Longrightarrow> fst (insert_spenders h is vs confl) = Err UndefinedCell"
proof (induction "is" arbitrary: vs confl)
  case (Cons i "is")
  show ?case
  proof (cases "hm_get vs i")
    case (Some d)
    then have "i \<in> hm_keys vs" by (rule hm_get_Some_keys)
    then have "hm_keys (hm_insert i (d\<lparr>spenders := hs_insert h (spenders d)\<rparr>) vs) = hm_keys vs" by auto
    with Cons \<open>i \<in> hm_keys vs\<close> Some show ?thesis by simp
  qed simp
qed simp

lemma link_conflicts_Ok:
  assumes "set ks \<subseteq> hm_keys m" "distinct ks"
  shows "\<exists>own' m'. link_conflicts h ks m own = (Ok own', m') \<and>
    set (conflicts own') = set (conflicts own) \<union> set ks \<and>
    (distinct (conflicts own) \<longrightarrow> distinct (conflicts own')) \<and> cnt own' = cnt own \<and>
    hm_keys m' = hm_keys m \<and> (hm_wf m \<longrightarrow> hm_wf m') \<and>
    (\<forall>k. hm_get m' k = (if k \<in> set ks
       then map_option (\<lambda>cs. cs\<lparr>conflicts := hs_insert h (conflicts cs)\<rparr>) (hm_get m k) else hm_get m k))"
  using assms
proof (induction ks arbitrary: m own)
  case (Cons k ks)
  then have "k \<in> hm_keys m" by simp
  from hm_keys_get[OF this] obtain cs where cs: "hm_get m k = Some cs" ..
  let ?m = "hm_insert k (cs\<lparr>conflicts := hs_insert h (conflicts cs)\<rparr>) m"
  let ?own = "own\<lparr>conflicts := hs_insert k (conflicts own)\<rparr>"
  have keys: "hm_keys ?m = hm_keys m" using \<open>k \<in> hm_keys m\<close> by auto
  have "set ks \<subseteq> hm_keys ?m" "distinct ks" using Cons.prems by auto
  from Cons.IH[OF this, of ?own] obtain own' m' where r:
    "link_conflicts h ks ?m ?own = (Ok own', m')"
    "set (conflicts own') = set (conflicts ?own) \<union> set ks"
    "distinct (conflicts ?own) \<longrightarrow> distinct (conflicts own')" "cnt own' = cnt ?own"
    "hm_keys m' = hm_keys ?m" "hm_wf ?m \<longrightarrow> hm_wf m'"
    "\<forall>j. hm_get m' j = (if j \<in> set ks
       then map_option (\<lambda>cs. cs\<lparr>conflicts := hs_insert h (conflicts cs)\<rparr>) (hm_get ?m j) else hm_get ?m j)"
    by (elim exE conjE) (rule that)
  have "\<forall>j. hm_get m' j = (if j \<in> set (k # ks)
       then map_option (\<lambda>cs. cs\<lparr>conflicts := hs_insert h (conflicts cs)\<rparr>) (hm_get m j) else hm_get m j)"
    using r(7) Cons.prems(2) cs by simp
  moreover have "link_conflicts h (k # ks) m own = (Ok own', m')" using cs r(1) by simp
  ultimately show ?case using r(2-6) keys by (intro exI[of _ own'] exI[of _ m']) auto
qed auto

lemma inherit_preference_Ok:
  assumes "set confl \<subseteq> set order" "set confl \<subseteq> hm_keys m"
    and "\<And>k cs. hm_get m k = Some cs \<Longrightarrow> cnt cs \<le> SLEET_BETA2" "cnt own \<le> SLEET_BETA2"
  shows "\<exists>own'. inherit_preference confl order m own = Ok own' \<and>
    conflicts own' = conflicts own \<and> cnt own' \<le> SLEET_BETA2"
proof (cases "confl = []")
  case True
  then show ?thesis using assms(4) by (simp add: inherit_preference_def)
next
  case False
  then have "\<exists>k \<in> set order. k \<in> set confl" using assms(1) by (cases confl) auto
  then obtain f where f: "List.find (\<lambda>k. k \<in> set confl) order = Some f" "f \<in> set confl"
    by (metis (mono_tags, lifting) find_None_iff find_Some_iff not_Some_eq)
  then have "f \<in> hm_keys m" using assms(2) by auto
  from hm_keys_get[OF this] obtain cs where "hm_get m f = Some cs" ..
  with f False assms(3) show ?thesis by (simp add: inherit_preference_def)
qed

lemma insert_cell_spec:
  assumes wf: "cg_wf E G" and h: "h = cell_hash E c" and new: "h \<notin> hm_keys (cg_cells G)"
    and defined: "set (cell_ids_from_inputs E (inputs c)) \<subseteq> hm_keys (cg_vertices G)"
  obtains own m vs where
    "insert_cell E G c = (Ok (), G\<lparr>cg_cells := hm_insert h c (cg_cells G), cg_vertices := vs,
       cg_order := cg_order G @ [h], cg_cs := hm_insert h own m\<rparr>)"
    "hm_wf vs"
    "hm_keys vs = hm_keys (cg_vertices G) \<union> set (cell_ids_from_outputs E h (outputs c))"
    "\<And>i. hm_get vs i = (if i \<in> set (cell_ids_from_outputs E h (outputs c))
       then Some \<lparr>spenders = [], vertex_status = Pending\<rparr>
       else if i \<in> set (cell_ids_from_inputs E (inputs c))
       then map_option (\<lambda>d. d\<lparr>spenders := hs_insert h (spenders d)\<rparr>) (hm_get (cg_vertices G) i)
       else hm_get (cg_vertices G) i)"
    "set (conflicts own) = insert h (\<Union>i \<in> set (cell_ids_from_inputs E (inputs c)). spenders_of G i)"
    "distinct (conflicts own)" "cnt own \<le> SLEET_BETA2" "hm_wf m" "hm_keys m = hm_keys (cg_cs G)"
    "\<And>k. hm_get m k = (if k \<in> (\<Union>i \<in> set (cell_ids_from_inputs E (inputs c)). spenders_of G i)
       then map_option (\<lambda>cs. cs\<lparr>conflicts := hs_insert h (conflicts cs)\<rparr>) (hm_get (cg_cs G) k)
       else hm_get (cg_cs G) k)"
proof -
  note w = cg_wfD[OF wf]
  let ?in = "cell_ids_from_inputs E (inputs c)" and ?out = "cell_ids_from_outputs E h (outputs c)"
  have get: "hm_get (cg_cells G) h = None" using new by (simp add: hm_get_None_iff)
  obtain confl vs where sp: "insert_spenders h ?in (cg_vertices G) [] = (Ok confl, vs)"
    "set confl = (\<Union>i \<in> set ?in. set (spenders (the (hm_get (cg_vertices G) i))))"
    "distinct confl" "hm_keys vs = hm_keys (cg_vertices G)" "hm_wf vs"
    "\<And>i. hm_get vs i = (if i \<in> set ?in
       then map_option (\<lambda>d. d\<lparr>spenders := hs_insert h (spenders d)\<rparr>) (hm_get (cg_vertices G) i)
       else hm_get (cg_vertices G) i)"
    using insert_spenders_Ok[OF defined, of h "[]"] w(1) by auto
  have "set (spenders (the (hm_get (cg_vertices G) i))) = spenders_of G i" if "i \<in> set ?in" for i
  proof -
    have "i \<in> hm_keys (cg_vertices G)" using that defined by blast
    from hm_keys_get[OF this] show ?thesis by (auto simp: spenders_of_def)
  qed
  then have confl: "set confl = (\<Union>i \<in> set ?in. spenders_of G i)" using sp(2) by simp
  have in_cells: "set confl \<subseteq> hm_keys (cg_cells G)"
    unfolding confl w(9) using spends_cell by fast
  obtain own m where ln: "link_conflicts h confl (cg_cs G) (conflict_set_new h) = (Ok own, m)"
    "set (conflicts own) = insert h (set confl)" "distinct (conflicts own)" "cnt own = 0"
    "hm_keys m = hm_keys (cg_cs G)" "hm_wf m"
    "\<And>k. hm_get m k = (if k \<in> set confl
       then map_option (\<lambda>cs. cs\<lparr>conflicts := hs_insert h (conflicts cs)\<rparr>) (hm_get (cg_cs G) k)
       else hm_get (cg_cs G) k)"
    using link_conflicts_Ok[OF _ sp(3), of "cg_cs G" h "conflict_set_new h"] in_cells w(3,4)
    by (auto simp: conflict_set_new_def)
  have cnts: "cnt cs \<le> SLEET_BETA2" if "hm_get m k = Some cs" for k cs
    using that w(12) unfolding ln(7) by (auto split: if_splits)
  have "set confl \<subseteq> set (cg_order G @ [h])" "set confl \<subseteq> hm_keys m" "cnt own \<le> SLEET_BETA2"
    using in_cells w(4,6) ln(4,5) by auto
  with cnts have "\<exists>own'. inherit_preference confl (cg_order G @ [h]) m own = Ok own' \<and>
      conflicts own' = conflicts own \<and> cnt own' \<le> SLEET_BETA2"
    by (intro inherit_preference_Ok)
  then obtain own' where inh: "inherit_preference confl (cg_order G @ [h]) m own = Ok own'"
    "conflicts own' = conflicts own" "cnt own' \<le> SLEET_BETA2"
    by (elim exE conjE) (rule that)
  have run: "insert_cell E G c = (Ok (), G\<lparr>cg_cells := hm_insert h c (cg_cells G),
      cg_vertices := insert_vertices Pending ?out vs,
      cg_order := cg_order G @ [h], cg_cs := hm_insert h own' m\<rparr>)"
    using get sp(1) ln(1) inh(1) by (simp add: insert_cell_def Let_def flip: h)
  show thesis
    by (rule that[OF run]) (use sp(4-6) ln confl inh in simp_all)
qed

lemma cg_wf_insert_cell:
  assumes wf: "cg_wf E G" and h: "h = cell_hash E c" and new: "h \<notin> hm_keys (cg_cells G)"
    and defined: "set (cell_ids_from_inputs E (inputs c)) \<subseteq> hm_keys (cg_vertices G)"
    and fresh: "\<forall>i \<in> set (cell_ids_from_outputs E h (outputs c)).
      spenders_of G i = {} \<and> i \<notin> set (cell_ids_from_inputs E (inputs c))"
  shows "\<exists>G'. insert_cell E G c = (Ok (), G') \<and> cg_wf E G' \<and>
    cg_cells G' = hm_insert h c (cg_cells G) \<and>
    conflicts_of G' h = insert h (\<Union>i \<in> set (cell_ids_from_inputs E (inputs c)). spenders_of G i)"
proof -
  note w = cg_wfD[OF wf]
  let ?in = "set (cell_ids_from_inputs E (inputs c))"
  let ?out = "set (cell_ids_from_outputs E h (outputs c))"
  let ?confl = "\<Union>i \<in> ?in. spenders_of G i"
  obtain own m vs where r:
    "insert_cell E G c = (Ok (), G\<lparr>cg_cells := hm_insert h c (cg_cells G), cg_vertices := vs,
       cg_order := cg_order G @ [h], cg_cs := hm_insert h own m\<rparr>)"
    "hm_wf vs" "hm_keys vs = hm_keys (cg_vertices G) \<union> ?out"
    "\<And>i. hm_get vs i = (if i \<in> ?out then Some \<lparr>spenders = [], vertex_status = Pending\<rparr>
       else if i \<in> ?in
       then map_option (\<lambda>d. d\<lparr>spenders := hs_insert h (spenders d)\<rparr>) (hm_get (cg_vertices G) i)
       else hm_get (cg_vertices G) i)"
    "set (conflicts own) = insert h ?confl" "distinct (conflicts own)" "cnt own \<le> SLEET_BETA2"
    "hm_wf m" "hm_keys m = hm_keys (cg_cs G)"
    "\<And>k. hm_get m k = (if k \<in> ?confl
       then map_option (\<lambda>cs. cs\<lparr>conflicts := hs_insert h (conflicts cs)\<rparr>) (hm_get (cg_cs G) k)
       else hm_get (cg_cs G) k)"
    by (rule insert_cell_spec[OF wf h new defined]) (rule that)
  let ?G = "G\<lparr>cg_cells := hm_insert h c (cg_cells G), cg_vertices := vs,
       cg_order := cg_order G @ [h], cg_cs := hm_insert h own m\<rparr>"
  have noh: "\<not> spends E G h i" for i using new spends_cell by blast
  have sp: "spends E ?G k i \<longleftrightarrow> (k = h \<and> i \<in> ?in) \<or> spends E G k i" for k i
    using noh by (auto simp: spends_def)
  have confl: "?confl = {k. \<exists>i \<in> ?in. spends E G k i}"
    by (auto simp: w(9))
  have spend: "spenders_of ?G i = {k. spends E ?G k i}" for i
  proof (cases "i \<in> ?out")
    case True
    then have "{k. spends E ?G k i} = {}" unfolding sp using fresh w(9)[of i] by auto
    then show ?thesis using True by (simp add: spenders_of_def r(4))
  next
    case False
    have "spenders_of ?G i = (if i \<in> ?in then insert h (spenders_of G i) else spenders_of G i)"
      using False hm_keys_get[OF subsetD[OF defined], of i]
      by (auto simp: spenders_of_def r(4) split: option.splits)
    then show ?thesis unfolding sp using w(9)[of i] noh by auto
  qed
  have own: "conflicts_of ?G h = insert h ?confl" by (simp add: conflicts_of_def r(5))
  have other: "conflicts_of ?G k = (if k \<in> ?confl then insert h (conflicts_of G k) else conflicts_of G k)"
    if k: "k \<in> hm_keys (cg_cells G)" for k
  proof -
    have "k \<in> hm_keys (cg_cs G)" using k w(4) by simp
    from hm_keys_get[OF this] show ?thesis
      using k new by (auto simp: conflicts_of_def r(10))
  qed
  have comp: "conflicts_of ?G k = competitors E ?G k" if "k \<in> hm_keys (cg_cells ?G)" for k
  proof (cases "k = h")
    case True
    have "competitors E ?G h = insert h {k. \<exists>i \<in> ?in. spends E G k i}"
      using noh spends_cell[of E G] by (auto simp: competitors_def sp)
    with True own show ?thesis unfolding confl by simp
  next
    case False
    then have k: "k \<in> hm_keys (cg_cells G)" using that by auto
    have "competitors E ?G k = competitors E G k \<union> (if k \<in> ?confl then {h} else {})"
      using False noh new unfolding confl by (auto simp: competitors_def sp)
    with other[OF k] w(10)[OF k] show ?thesis by simp
  qed
  have linked: "distinct (conflicts cs) \<and> cnt cs \<le> SLEET_BETA2" if "hm_get m k = Some cs" for k cs
    using that w(11,12) unfolding r(10) by (auto split: if_splits)
  have "cg_wf E ?G"
    unfolding cg_wf_def
  proof (intro conjI allI ballI impI)
    show "set (cell_ids_from_inputs E (inputs c')) \<subseteq> hm_keys (cg_vertices ?G)"
      "set (cell_ids_from_outputs E k (outputs c')) \<subseteq> hm_keys (cg_vertices ?G)"
      if "hm_get (cg_cells ?G) k = Some c'" for k c'
      using that w(7)[of k c'] w(8)[of k c'] defined r(3) by (auto split: if_splits)
    show "distinct (conflicts cs)" "cnt cs \<le> SLEET_BETA2"
      if "hm_get (cg_cs ?G) k = Some cs" for k cs
      using that r(6,7) linked by (auto split: if_splits)
  qed (use w r spend comp new in auto)
  with r(1) own show ?thesis by auto
qed

section \<open>Removing a cell\<close>

lemma set_status_Ok:
  assumes "set is \<subseteq> hm_keys vs"
  shows "\<exists>vs'. set_status st is vs = (Ok (), vs') \<and> hm_keys vs' = hm_keys vs \<and>
    (hm_wf vs \<longrightarrow> hm_wf vs') \<and>
    (\<forall>i. hm_get vs' i = (if i \<in> set is then map_option (\<lambda>d. d\<lparr>vertex_status := st\<rparr>) (hm_get vs i)
                          else hm_get vs i))"
  using assms
proof (induction "is" arbitrary: vs)
  case (Cons i "is")
  then have "i \<in> hm_keys vs" by simp
  from hm_keys_get[OF this] obtain d where d: "hm_get vs i = Some d" ..
  let ?vs = "hm_insert i (d\<lparr>vertex_status := st\<rparr>) vs"
  have keys: "hm_keys ?vs = hm_keys vs" using \<open>i \<in> hm_keys vs\<close> by auto
  have "set is \<subseteq> hm_keys ?vs" using Cons.prems keys by simp
  from Cons.IH[OF this] d keys show ?case by auto
qed auto

lemma remove_spender_Ok:
  assumes "set is \<subseteq> hm_keys vs" "distinct is"
  shows "\<exists>vs'. remove_spender h is vs = (Ok (), vs') \<and> hm_keys vs' = hm_keys vs \<and>
    (hm_wf vs \<longrightarrow> hm_wf vs') \<and>
    (\<forall>i. hm_get vs' i = (if i \<in> set is
       then map_option (\<lambda>d. d\<lparr>spenders := hs_remove h (spenders d)\<rparr>) (hm_get vs i) else hm_get vs i))"
  using assms
proof (induction "is" arbitrary: vs)
  case (Cons i "is")
  then have "i \<in> hm_keys vs" by simp
  from hm_keys_get[OF this] obtain d where d: "hm_get vs i = Some d" ..
  let ?vs = "hm_insert i (d\<lparr>spenders := hs_remove h (spenders d)\<rparr>) vs"
  have keys: "hm_keys ?vs = hm_keys vs" using \<open>i \<in> hm_keys vs\<close> by auto
  have "set is \<subseteq> hm_keys ?vs" "distinct is" using Cons.prems keys by simp_all
  from Cons.IH[OF this] d keys Cons.prems(2) show ?case by auto
qed auto

lemma unlink_conflicts_get:
  assumes "distinct ks"
  shows "hm_get (unlink_conflicts h ks m) k =
      (if k \<in> set ks \<and> k \<noteq> h then map_option (\<lambda>cs. remove_from_conflict_set cs h) (hm_get m k)
       else hm_get m k)"
    and "hm_keys (unlink_conflicts h ks m) = hm_keys m"
    and "hm_wf m \<Longrightarrow> hm_wf (unlink_conflicts h ks m)"
  using assms
proof (induction ks arbitrary: m)
  case (Cons j ks)
  {
    case 1
    with Cons.IH(1) show ?case by (auto split: option.splits)
  next
    case 2
    with Cons.IH(2) show ?case
      by (cases "hm_get m j"; cases "h = j") (simp_all add: insert_absorb hm_get_Some_keys)
  next
    case 3
    with Cons.IH(3) show ?case by (auto split: option.splits)
  }
qed auto

lemma remove_cell_spec:
  assumes wf: "cg_wf E G" and c: "hm_get (cg_cells G) h = Some c"
  obtains vs where
    "remove_cell E G h = (Ok (), G\<lparr>cg_vertices := vs,
       cg_cs := hm_remove h (unlink_conflicts h (conflicts (the (hm_get (cg_cs G) h))) (cg_cs G)),
       cg_cells := hm_remove h (cg_cells G), cg_order := filter (\<lambda>k. k \<noteq> h) (cg_order G)\<rparr>)"
    "hm_wf vs" "hm_keys vs = hm_keys (cg_vertices G)"
    "\<And>i. (case hm_get vs i of Some d \<Rightarrow> set (spenders d) | None \<Rightarrow> {}) = spenders_of G i - {h}"
    "\<And>i. i \<notin> set (cell_ids_from_outputs E h (outputs c)) \<Longrightarrow>
       map_option vertex_status (hm_get vs i) = map_option vertex_status (hm_get (cg_vertices G) i)"
proof -
  note w = cg_wfD[OF wf]
  let ?in = "cell_ids_from_inputs E (inputs c)" and ?out = "cell_ids_from_outputs E h (outputs c)"
  have "h \<in> hm_keys (cg_cs G)" using c w(4) by (auto dest: hm_get_Some_keys)
  from hm_keys_get[OF this] obtain cs where cs: "hm_get (cg_cs G) h = Some cs" ..
  from set_status_Ok[OF w(8)[OF c], of Rejected] obtain vs1 where v1:
    "set_status Rejected ?out (cg_vertices G) = (Ok (), vs1)" "hm_keys vs1 = hm_keys (cg_vertices G)"
    "hm_wf (cg_vertices G) \<longrightarrow> hm_wf vs1"
    "\<forall>i. hm_get vs1 i = (if i \<in> set ?out
       then map_option (\<lambda>d. d\<lparr>vertex_status := Rejected\<rparr>) (hm_get (cg_vertices G) i)
       else hm_get (cg_vertices G) i)"
    by (elim exE conjE) (rule that)
  have "set ?in \<subseteq> hm_keys vs1" using w(7)[OF c] v1(2) by simp
  from remove_spender_Ok[OF this distinct_cell_ids_from_inputs, of h] obtain vs2 where v2:
    "remove_spender h ?in vs1 = (Ok (), vs2)" "hm_keys vs2 = hm_keys vs1" "hm_wf vs1 \<longrightarrow> hm_wf vs2"
    "\<forall>i. hm_get vs2 i = (if i \<in> set ?in
       then map_option (\<lambda>d. d\<lparr>spenders := hs_remove h (spenders d)\<rparr>) (hm_get vs1 i) else hm_get vs1 i)"
    by (elim exE conjE) (rule that)
  have run: "remove_cell E G h = (Ok (), G\<lparr>cg_vertices := vs2,
       cg_cs := hm_remove h (unlink_conflicts h (conflicts (the (hm_get (cg_cs G) h))) (cg_cs G)),
       cg_cells := hm_remove h (cg_cells G), cg_order := filter (\<lambda>k. k \<noteq> h) (cg_order G)\<rparr>)"
    using cs c v1(1) v2(1) by (simp add: remove_cell_def remove_from_vertices_def)
  have "(case hm_get vs2 i of Some d \<Rightarrow> set (spenders d) | None \<Rightarrow> {}) = spenders_of G i - {h}" for i
  proof (cases "i \<in> set ?in")
    case True
    then show ?thesis
      using v1(4) v2(4) by (cases "hm_get (cg_vertices G) i") (auto simp: spenders_of_def)
  next
    case False
    then have "h \<notin> spenders_of G i" using w(9)[of i] c by (simp add: spends_def)
    then show ?thesis
      using False v1(4) v2(4) by (cases "hm_get (cg_vertices G) i") (auto simp: spenders_of_def)
  qed
  moreover have "map_option vertex_status (hm_get vs2 i) = map_option vertex_status (hm_get (cg_vertices G) i)"
    if "i \<notin> set ?out" for i
    using that v1(4) v2(4) by (cases "hm_get (cg_vertices G) i") auto
  ultimately show thesis
    using that[OF run] v1(2,3) v2(2,3) w(1) by simp
qed

lemma competitors_sym:
  "h \<in> hm_keys (cg_cells G) \<Longrightarrow> k \<in> competitors E G h \<Longrightarrow> h \<in> competitors E G k"
  by (auto simp: competitors_def)

lemma cg_wf_remove_cell:
  assumes wf: "cg_wf E G" and h: "h \<in> hm_keys (cg_cells G)"
  shows "\<exists>G'. remove_cell E G h = (Ok (), G') \<and> cg_wf E G' \<and>
    cg_cells G' = hm_remove h (cg_cells G) \<and>
    (\<forall>k. k \<noteq> h \<longrightarrow> map_option cnt (hm_get (cg_cs G') k) = map_option cnt (hm_get (cg_cs G) k))"
proof -
  note w = cg_wfD[OF wf]
  from hm_keys_get[OF h] obtain c where c: "hm_get (cg_cells G) h = Some c" ..
  obtain vs where r:
    "remove_cell E G h = (Ok (), G\<lparr>cg_vertices := vs,
       cg_cs := hm_remove h (unlink_conflicts h (conflicts (the (hm_get (cg_cs G) h))) (cg_cs G)),
       cg_cells := hm_remove h (cg_cells G), cg_order := filter (\<lambda>k. k \<noteq> h) (cg_order G)\<rparr>)"
    "hm_wf vs" "hm_keys vs = hm_keys (cg_vertices G)"
    "\<And>i. (case hm_get vs i of Some d \<Rightarrow> set (spenders d) | None \<Rightarrow> {}) = spenders_of G i - {h}"
    by (rule remove_cell_spec[OF wf c]) (rule that)
  let ?G = "G\<lparr>cg_vertices := vs,
       cg_cs := hm_remove h (unlink_conflicts h (conflicts (the (hm_get (cg_cs G) h))) (cg_cs G)),
       cg_cells := hm_remove h (cg_cells G), cg_order := filter (\<lambda>k. k \<noteq> h) (cg_order G)\<rparr>"
  have "h \<in> hm_keys (cg_cs G)" using h w(4) by simp
  from hm_keys_get[OF this] obtain cs where cs: "hm_get (cg_cs G) h = Some cs" ..
  have csh: "set (conflicts cs) = competitors E G h" and dist: "distinct (conflicts cs)"
    using w(10)[OF h] w(11)[OF cs] cs by (simp_all add: conflicts_of_def)
  have get: "hm_get (cg_cs ?G) k = (if k = h then None else if k \<in> competitors E G h
      then map_option (\<lambda>cs. remove_from_conflict_set cs h) (hm_get (cg_cs G) k)
      else hm_get (cg_cs G) k)" for k
    using cs csh dist by (simp add: unlink_conflicts_get(1))
  have keys: "hm_keys (cg_cs ?G) = hm_keys (cg_cells G) - {h}" "hm_wf (cg_cs ?G)"
    using dist w(3,4) by (simp_all add: unlink_conflicts_get(2,3) cs)
  have sp: "spends E ?G k i \<longleftrightarrow> k \<noteq> h \<and> spends E G k i" for k i
    by (auto simp: spends_def)
  have spend: "spenders_of ?G i = {k. spends E ?G k i}" for i
    using r(4)[of i] w(9)[of i] by (auto simp: spenders_of_def sp)
  have comp: "competitors E ?G k = competitors E G k - {h}" if "k \<noteq> h" for k
    using that by (auto simp: competitors_def sp)
  have confl: "conflicts_of ?G k = competitors E ?G k" if k: "k \<in> hm_keys (cg_cells G)" "k \<noteq> h" for k
  proof -
    have "k \<in> hm_keys (cg_cs G)" using k w(4) by simp
    from hm_keys_get[OF this] obtain ck where ck: "hm_get (cg_cs G) k = Some ck" ..
    then have set: "set (conflicts ck) = competitors E G k"
      using w(10)[OF k(1)] by (simp add: conflicts_of_def)
    show ?thesis
    proof (cases "k \<in> competitors E G h")
      case True
      then have "h \<in> set (conflicts ck)" "k \<in> set (conflicts ck)"
        using set competitors_sym[OF h True] k(1) by (auto simp: competitors_def)
      then have "\<not> length (conflicts ck) \<le> 1"
        using k(2) by (auto simp: le_Suc_eq length_Suc_conv)
      then have "set (conflicts (remove_from_conflict_set ck h)) = set (conflicts ck) - {h}"
        by (simp add: remove_from_conflict_set_def)
      then show ?thesis unfolding comp[OF k(2)] using get[of k] True k(2) ck set
        by (simp add: conflicts_of_def)
    next
      case False
      then have "h \<notin> competitors E G k" using competitors_sym[OF k(1)] by blast
      then show ?thesis unfolding comp[OF k(2)] using get[of k] False k(2) ck set
        by (simp add: conflicts_of_def)
    qed
  qed
  have fields: "distinct (conflicts ck) \<and> cnt ck \<le> SLEET_BETA2" if "hm_get (cg_cs ?G) k = Some ck" for k ck
    using that w(11,12) unfolding get by (auto simp: remove_from_conflict_set_def split: if_splits)
  have "cg_wf E ?G"
    unfolding cg_wf_def
  proof (intro conjI allI ballI impI)
    show "set (cell_ids_from_inputs E (inputs c')) \<subseteq> hm_keys (cg_vertices ?G)"
      "set (cell_ids_from_outputs E k (outputs c')) \<subseteq> hm_keys (cg_vertices ?G)"
      if "hm_get (cg_cells ?G) k = Some c'" for k c'
      using that w(7)[of k c'] w(8)[of k c'] r(3) by (auto split: if_splits)
    show "conflicts_of ?G k = competitors E ?G k" if "k \<in> hm_keys (cg_cells ?G)" for k
      using that confl[of k] by simp
  qed (use w(1,2,5,6) r(2) spend keys fields in \<open>auto simp del: hm_get_remove\<close>)
  moreover have "map_option cnt (hm_get (cg_cs ?G) k) = map_option cnt (hm_get (cg_cs G) k)" if "k \<noteq> h" for k
    using that unfolding get by (cases "hm_get (cg_cs G) k") (auto simp: remove_from_conflict_set_def)
  ultimately show ?thesis using r(1) by (intro exI[of _ ?G]) simp
qed

section \<open>Accepting a cell\<close>

lemma cg_wf_status:
  assumes wf: "cg_wf E G" and run: "set_status st is (cg_vertices G) = (Ok (), vs)"
    and sub: "set is \<subseteq> hm_keys (cg_vertices G)"
  shows "cg_wf E (G\<lparr>cg_vertices := vs\<rparr>)"
proof -
  let ?G = "G\<lparr>cg_vertices := vs\<rparr>"
  have v: "hm_keys vs = hm_keys (cg_vertices G)" "hm_wf vs"
    "\<forall>i. hm_get vs i = (if i \<in> set is then map_option (\<lambda>d. d\<lparr>vertex_status := st\<rparr>) (hm_get (cg_vertices G) i)
                          else hm_get (cg_vertices G) i)"
    using set_status_Ok[OF sub, of st] run cg_wfD(1)[OF wf] by auto
  have "spenders_of ?G i = spenders_of G i" for i
    using v(3) by (cases "hm_get (cg_vertices G) i") (simp_all add: spenders_of_def)
  then have view: "spenders_of ?G = spenders_of G" "spends E ?G = spends E G"
    "competitors E ?G = competitors E G" "conflicts_of ?G = conflicts_of G"
    by (simp_all add: fun_eq_iff spends_def competitors_def conflicts_of_def)
  show ?thesis using wf v(1,2) unfolding cg_wf_def view by simp
qed

lemma remove_competitors_spec:
  assumes "cg_wf E G" "set ks - {h} \<subseteq> hm_keys (cg_cells G)" "distinct ks"
  shows "\<exists>G'. remove_competitors E h ks G = (Ok (), G') \<and> cg_wf E G' \<and>
    (\<forall>k. hm_get (cg_cells G') k = (if k \<in> set ks - {h} then None else hm_get (cg_cells G) k)) \<and>
    map_option cnt (hm_get (cg_cs G') h) = map_option cnt (hm_get (cg_cs G) h)"
  using assms
proof (induction ks arbitrary: G)
  case (Cons k ks)
  show ?case
  proof (cases "k = h")
    case True
    then have e: "set (k # ks) - {h} = set ks - {h}" by auto
    have run: "remove_competitors E h (k # ks) G = remove_competitors E h ks G" using True by simp
    show ?thesis unfolding e run using Cons.prems e by (intro Cons.IH) simp_all
  next
    case False
    then have "k \<in> hm_keys (cg_cells G)" using Cons.prems(2) by auto
    from cg_wf_remove_cell[OF Cons.prems(1) this] obtain G1 where g:
      "remove_cell E G k = (Ok (), G1)" "cg_wf E G1" "cg_cells G1 = hm_remove k (cg_cells G)"
      "\<forall>j. j \<noteq> k \<longrightarrow> map_option cnt (hm_get (cg_cs G1) j) = map_option cnt (hm_get (cg_cs G) j)"
      by (elim exE conjE) (rule that)
    have "set ks - {h} \<subseteq> hm_keys (cg_cells G1)" "distinct ks"
      using Cons.prems(2,3) g(3) by auto
    from Cons.IH[OF g(2) this] obtain G' where
      "remove_competitors E h ks G1 = (Ok (), G')" "cg_wf E G'"
      "\<forall>j. hm_get (cg_cells G') j = (if j \<in> set ks - {h} then None else hm_get (cg_cells G1) j)"
      "map_option cnt (hm_get (cg_cs G') h) = map_option cnt (hm_get (cg_cs G1) h)"
      by (elim exE conjE) (rule that)
    with False g show ?thesis by (intro exI[of _ G']) auto
  qed
qed auto

lemma hm_keys_filtered:
  "(\<forall>k. hm_get m' k = (if k \<in> A then None else hm_get m k)) \<Longrightarrow> hm_keys m' = hm_keys m - A"
  unfolding dom_map_of_conv_image_fst[symmetric] by (auto simp: dom_def split: if_splits)

lemma accept_cell_spec:
  assumes wf: "cg_wf E G" and h: "h = cell_hash E c" and c: "hm_get (cg_cells G) h = Some c"
  shows "\<exists>rejected G'. accept_cell E G c = (Ok rejected, G') \<and> cg_wf E G' \<and>
    set rejected = competitors E G h - {h} \<and> distinct rejected \<and>
    hm_keys (cg_cells G') = hm_keys (cg_cells G) - set rejected \<and>
    hm_get (cg_cells G') h = Some c \<and> competitors E G' h = {h} \<and>
    get_confidence G' h = get_confidence G h \<and> cg_is_preferred G' h = Ok True"
proof -
  note w = cg_wfD[OF wf]
  let ?out = "cell_ids_from_outputs E h (outputs c)"
  have hk: "h \<in> hm_keys (cg_cells G)" using c by (rule hm_get_Some_keys)
  then have "h \<in> hm_keys (cg_cs G)" using w(4) by simp
  from hm_keys_get[OF this] obtain cs where cs: "hm_get (cg_cs G) h = Some cs" ..
  have set_cs: "set (conflicts cs) = competitors E G h" and dist: "distinct (conflicts cs)"
    and cnt: "cnt cs \<le> SLEET_BETA2"
    using w(10)[OF hk] w(11,12)[OF cs] cs by (simp_all add: conflicts_of_def)
  from set_status_Ok[OF w(8)[OF c], of Accepted] obtain vs where
    vs: "set_status Accepted ?out (cg_vertices G) = (Ok (), vs)" by blast
  let ?G1 = "G\<lparr>cg_vertices := vs\<rparr>"
  have wf1: "cg_wf E ?G1" using wf vs w(8)[OF c] by (rule cg_wf_status)
  have "set (conflicts cs) - {h} \<subseteq> hm_keys (cg_cells ?G1)" by (auto simp: set_cs competitors_def)
  from remove_competitors_spec[OF wf1 this dist] obtain G2 where g:
    "remove_competitors E h (conflicts cs) ?G1 = (Ok (), G2)" "cg_wf E G2"
    "\<forall>k. hm_get (cg_cells G2) k = (if k \<in> set (conflicts cs) - {h} then None else hm_get (cg_cells ?G1) k)"
    "map_option cnt (hm_get (cg_cs G2) h) = map_option cnt (hm_get (cg_cs ?G1) h)"
    by (elim exE conjE) (rule that)
  note w2 = cg_wfD[OF g(2)]
  let ?cs = "(conflict_set_new h)\<lparr>cnt := cnt cs\<rparr>"
  let ?G = "G2\<lparr>cg_cs := hm_insert h ?cs (cg_cs G2)\<rparr>"
  have run: "accept_cell E G c = (Ok (filter (\<lambda>k. k \<noteq> h) (conflicts cs)), ?G)"
    using vs cs g(1) by (simp add: accept_cell_def Let_def flip: h)
  have keys: "hm_keys (cg_cells G2) = hm_keys (cg_cells G) - (competitors E G h - {h})"
    using hm_keys_filtered[OF g(3)] set_cs by simp
  have c2: "hm_get (cg_cells G2) h = Some c" using g(3) c by simp
  have sub: "spends E G2 k i \<Longrightarrow> spends E G k i" for k i
    using g(3) by (auto simp: spends_def split: if_splits)
  have h2: "h \<in> hm_keys (cg_cells G2)" using c2 by (rule hm_get_Some_keys)
  have "k = h" if k: "k \<in> competitors E G2 h" for k
  proof -
    have "k \<in> hm_keys (cg_cells G2)" using k by (simp add: competitors_def)
    moreover have "k \<in> competitors E G h"
      using k keys sub unfolding competitors_def by blast
    ultimately show ?thesis unfolding keys by blast
  qed
  then have comp2: "competitors E G2 h = {h}" using h2 by (auto simp: competitors_def)
  have view: "spenders_of ?G = spenders_of G2" "spends E ?G = spends E G2"
    "competitors E ?G = competitors E G2" "conflicts_of ?G = (conflicts_of G2)(h := {h})"
    by (simp_all add: fun_eq_iff spenders_of_def spends_def competitors_def conflicts_of_def
        conflict_set_new_def)
  have "cg_wf E ?G"
    unfolding cg_wf_def view
  proof (intro conjI allI ballI impI)
    show "set (cell_ids_from_inputs E (inputs c')) \<subseteq> hm_keys (cg_vertices ?G)"
      "set (cell_ids_from_outputs E k (outputs c')) \<subseteq> hm_keys (cg_vertices ?G)"
      if "hm_get (cg_cells ?G) k = Some c'" for k c'
      using that w2(7)[of k c'] w2(8)[of k c'] by auto
    show "distinct (conflicts ck)" "cnt ck \<le> SLEET_BETA2" if "hm_get (cg_cs ?G) k = Some ck" for k ck
      using that w2(11,12) cnt by (auto simp: conflict_set_new_def split: if_splits)
    show "((conflicts_of G2)(h := {h})) k = competitors E G2 k" if "k \<in> hm_keys (cg_cells ?G)" for k
      using that w2(10) comp2 by simp
  qed (use w2(1-6,9) h2 in auto)
  moreover have "get_confidence ?G h = get_confidence G h" "cg_is_preferred ?G h = Ok True"
    using cs by (simp_all add: get_confidence_def cg_is_preferred_def conflicting_cells_def
        cset_is_preferred_def conflict_set_new_def)
  ultimately show ?thesis
    using run keys c2 comp2 set_cs dist view(3)
    by (intro exI[of _ "filter (\<lambda>k. k \<noteq> h) (conflicts cs)"] exI[of _ ?G] conjI) auto
qed

section \<open>Properties\<close>

text \<open>
  C26: Inserting a new cell whose inputs are known outputs keeps the conflict graph well formed: the
  conflict set of every cell holds exactly the cells that share an input with it, and the new
  cell's own set holds the cells that already spend one of its inputs. The ids of its outputs must
  not be spent yet.
\<close>

theorem insert_cell_invariant:
  assumes "cg_wf E G" "cell_hash E c \<notin> hm_keys (cg_cells G)"
    and "set (cell_ids_from_inputs E (inputs c)) \<subseteq> hm_keys (cg_vertices G)"
    and "\<forall>i \<in> set (cell_ids_from_outputs E (cell_hash E c) (outputs c)).
      spenders_of G i = {} \<and> i \<notin> set (cell_ids_from_inputs E (inputs c))"
  shows "\<exists>G'. insert_cell E G c = (Ok (), G') \<and> cg_wf E G' \<and>
    hm_get (cg_cells G') (cell_hash E c) = Some c \<and>
    conflicts_of G' (cell_hash E c) =
      insert (cell_hash E c) (\<Union>i \<in> set (cell_ids_from_inputs E (inputs c)). spenders_of G i)"
proof -
  from cg_wf_insert_cell[OF assms(1) refl assms(2-4)] obtain G' where
    "insert_cell E G c = (Ok (), G')" "cg_wf E G'"
    "cg_cells G' = hm_insert (cell_hash E c) c (cg_cells G)"
    "conflicts_of G' (cell_hash E c) =
      insert (cell_hash E c) (\<Union>i \<in> set (cell_ids_from_inputs E (inputs c)). spenders_of G i)"
    by (elim exE conjE) (rule that)
  then show ?thesis by (intro exI[of _ G'] conjI) simp_all
qed

lemmas example_run = insert_cell_def example_inputs cg_new_def conflict_set_new_def Let_def
  hs_insert_def inherit_preference_def

theorem insert_cell_invariant_witness:
  "\<exists>G'. insert_cell example_externs (cg_new [1792]) (spend_cell [7] 6) = (Ok (), G') \<and>
        cg_wf example_externs G'"
  using insert_cell_invariant[OF cg_wf_new, of example_externs "spend_cell [7] 6" "[1792]"]
  by (auto simp: example_inputs cg_new_def hs_insert_def spenders_of_def)

text \<open>
  C3: Accepting a cell of a well formed conflict graph resolves its conflict. The call succeeds and
  returns exactly the cells that share an input with it; they are removed, every other cell stays,
  the accepted cell is the only spender of each of its inputs, its conflict set is a singleton that
  prefers it, its confidence is unchanged, and the graph is well formed.
\<close>

theorem accept_cell_resolves_conflict:
  assumes "cg_wf E G" "hm_get (cg_cells G) (cell_hash E c) = Some c"
  shows "\<exists>rejected G'. accept_cell E G c = (Ok rejected, G') \<and> cg_wf E G' \<and>
    set rejected = competitors E G (cell_hash E c) - {cell_hash E c} \<and>
    hm_keys (cg_cells G') = hm_keys (cg_cells G) - set rejected \<and>
    (\<forall>i \<in> set (cell_ids_from_inputs E (inputs c)). spenders_of G' i = {cell_hash E c}) \<and>
    cg_is_singleton G' (cell_hash E c) = Ok True \<and> cg_is_preferred G' (cell_hash E c) = Ok True \<and>
    get_confidence G' (cell_hash E c) = get_confidence G (cell_hash E c)"
proof -
  let ?h = "cell_hash E c"
  from accept_cell_spec[OF assms(1) refl assms(2)] obtain rejected G' where r:
    "accept_cell E G c = (Ok rejected, G')" "cg_wf E G'"
    "set rejected = competitors E G ?h - {?h}" "distinct rejected"
    "hm_keys (cg_cells G') = hm_keys (cg_cells G) - set rejected"
    "hm_get (cg_cells G') ?h = Some c" "competitors E G' ?h = {?h}"
    "get_confidence G' ?h = get_confidence G ?h" "cg_is_preferred G' ?h = Ok True"
    by (elim exE conjE) (rule that)
  note w = cg_wfD[OF r(2)]
  have hk: "?h \<in> hm_keys (cg_cells G')" using r(6) by (rule hm_get_Some_keys)
  have own: "spends E G' ?h i" if "i \<in> set (cell_ids_from_inputs E (inputs c))" for i
    using that r(6) by (simp add: spends_def)
  have "spenders_of G' i = {?h}" if i: "i \<in> set (cell_ids_from_inputs E (inputs c))" for i
  proof -
    have "k = ?h" if "spends E G' k i" for k
    proof -
      have "k \<in> competitors E G' ?h"
        using own[OF i] that spends_cell[OF that] by (auto simp: competitors_def)
      then show ?thesis using r(7) by simp
    qed
    then show ?thesis unfolding w(9) using own[OF i] by blast
  qed
  moreover have "cg_is_singleton G' ?h = Ok True"
  proof -
    have "?h \<in> hm_keys (cg_cs G')" using hk w(4) by simp
    from hm_keys_get[OF this] obtain cs where cs: "hm_get (cg_cs G') ?h = Some cs" ..
    have "conflicts_of G' ?h = {?h}" using w(10)[OF hk] r(7) by (rule trans)
    then have "set (conflicts cs) = {?h}" using cs by (simp add: conflicts_of_def)
    then have "length (conflicts cs) = 1" using distinct_card[OF w(11)[OF cs]] by simp
    then show ?thesis
      using cs by (simp add: cg_is_singleton_def conflicting_cells_def cset_is_singleton_def)
  qed
  ultimately show ?thesis using r by (intro exI[of _ rejected] exI[of _ G'] conjI ballI) simp_all
qed

definition two_spenders :: conflict_graph where
  "two_spenders = snd (insert_cell example_externs
     (snd (insert_cell example_externs (cg_new [1792]) (spend_cell [7] 6))) (spend_cell [7] 9))"

lemma two_spenders_facts:
  "cg_wf example_externs two_spenders"
  "hm_get (cg_cells two_spenders) (cell_hash example_externs (spend_cell [7] 6)) = Some (spend_cell [7] 6)"
  "hm_get (cg_cs two_spenders) 262 = Some \<lparr>conflicts = [262, 265], pref = 262, last_queried = 262, cnt = 0\<rparr>"
  "hm_get (cg_cs two_spenders) 265 = Some \<lparr>conflicts = [265, 262], pref = 262, last_queried = 262, cnt = 0\<rparr>"
proof -
  let ?G1 = "snd (insert_cell example_externs (cg_new [1792]) (spend_cell [7] 6))"
  have e1: "insert_cell example_externs (cg_new [1792]) (spend_cell [7] 6) = (Ok (),
      \<lparr>cg_vertices = [(1792, \<lparr>spenders = [262], vertex_status = Accepted\<rparr>),
                      (1536, \<lparr>spenders = [], vertex_status = Pending\<rparr>)],
       cg_cells = [(262, spend_cell [7] 6)],
       cg_cs = [(262, \<lparr>conflicts = [262], pref = 262, last_queried = 262, cnt = 0\<rparr>)],
       cg_order = [262]\<rparr>)"
    by (simp add: example_run)
  have w1: "cg_wf example_externs ?G1"
    using cg_wf_insert_cell[OF cg_wf_new refl, of example_externs "spend_cell [7] 6" "[1792]"]
    by (auto simp: example_inputs cg_new_def hs_insert_def spenders_of_def)
  show "cg_wf example_externs two_spenders"
    unfolding two_spenders_def
    using cg_wf_insert_cell[OF w1 refl, of "spend_cell [7] 9"]
    by (auto simp: example_inputs e1 hs_insert_def spenders_of_def)
  show "hm_get (cg_cells two_spenders) (cell_hash example_externs (spend_cell [7] 6)) = Some (spend_cell [7] 6)"
    "hm_get (cg_cs two_spenders) 262 = Some \<lparr>conflicts = [262, 265], pref = 262, last_queried = 262, cnt = 0\<rparr>"
    "hm_get (cg_cs two_spenders) 265 = Some \<lparr>conflicts = [265, 262], pref = 262, last_queried = 262, cnt = 0\<rparr>"
    by (simp_all add: two_spenders_def e1 example_run)
qed

theorem accept_cell_resolves_conflict_witness:
  "\<exists>rejected G'. accept_cell example_externs two_spenders (spend_cell [7] 6) = (Ok rejected, G') \<and>
     spenders_of G' 1792 = {262}"
  using accept_cell_resolves_conflict[OF two_spenders_facts(1,2)]
  by (auto simp: example_inputs hs_insert_def)

text \<open>
  Removing a cell keeps the conflict graph well formed: the cell disappears from the spenders of
  its inputs and from the conflict sets of its competitors, no other cell is touched, and no
  confidence changes.
\<close>

theorem remove_cell_invariant:
  assumes "cg_wf E G" "h \<in> hm_keys (cg_cells G)"
  shows "\<exists>G'. remove_cell E G h = (Ok (), G') \<and> cg_wf E G' \<and>
    cg_cells G' = hm_remove h (cg_cells G) \<and> (\<forall>i. h \<notin> spenders_of G' i) \<and>
    (\<forall>k. k \<noteq> h \<longrightarrow> map_option cnt (hm_get (cg_cs G') k) = map_option cnt (hm_get (cg_cs G) k))"
proof -
  from cg_wf_remove_cell[OF assms] obtain G' where r: "remove_cell E G h = (Ok (), G')" "cg_wf E G'"
    "cg_cells G' = hm_remove h (cg_cells G)"
    "\<forall>k. k \<noteq> h \<longrightarrow> map_option cnt (hm_get (cg_cs G') k) = map_option cnt (hm_get (cg_cs G) k)"
    by (elim exE conjE) (rule that)
  have "h \<notin> spenders_of G' i" for i
    using cg_wfD(9)[OF r(2), of i] r(3) by (auto simp: spends_def)
  with r show ?thesis by blast
qed

theorem remove_cell_invariant_witness:
  "\<exists>G'. remove_cell example_externs two_spenders 262 = (Ok (), G') \<and> cg_wf example_externs G'"
proof -
  have "262 \<in> hm_keys (cg_cells two_spenders)"
    using two_spenders_facts(2) by (intro hm_get_Some_keys) (simp add: example_inputs)
  from remove_cell_invariant[OF two_spenders_facts(1) this] show ?thesis by blast
qed

lemma cg_wf_replace_cset:
  assumes wf: "cg_wf E G" and cs: "hm_get (cg_cs G) h = Some cs"
    and new: "conflicts cs' = conflicts cs" "cnt cs' \<le> SLEET_BETA2"
  shows "cg_wf E (G\<lparr>cg_cs := hm_insert h cs' (cg_cs G)\<rparr>)"
proof -
  note w = cg_wfD[OF wf]
  let ?G = "G\<lparr>cg_cs := hm_insert h cs' (cg_cs G)\<rparr>"
  have h: "h \<in> hm_keys (cg_cs G)" using cs by (rule hm_get_Some_keys)
  have view: "spenders_of ?G = spenders_of G" "spends E ?G = spends E G"
    "competitors E ?G = competitors E G" "conflicts_of ?G = conflicts_of G"
    using cs new(1)
    by (auto simp: fun_eq_iff spenders_of_def spends_def competitors_def conflicts_of_def)
  have "distinct (conflicts ck)" "cnt ck \<le> SLEET_BETA2" if "hm_get (cg_cs ?G) k = Some ck" for k ck
    using that w(11,12) new cs by (auto split: if_splits)
  then show ?thesis
    using wf h unfolding cg_wf_def view by (simp add: insert_absorb)
qed

lemma SLEET_BETA2_unat [simp]: "unat SLEET_BETA2 = 20"
  by (simp add: SLEET_BETA2_def)

text \<open>
  A vote updates only the conflict set of the voted cell, keeps the graph well formed, makes the
  cell preferred when its conviction exceeds that of the preferred cell, and raises the confidence
  by one, up to \<open>SLEET_BETA2\<close>, exactly when the cell was also the last one voted for.
\<close>

theorem update_conflict_set_vote:
  assumes "cg_wf E G" "hm_get (cg_cs G) h = Some cs"
  shows "\<exists>G' cs'. update_conflict_set G h d1 d2 = (Ok (), G') \<and> cg_wf E G' \<and>
    hm_get (cg_cs G') h = Some cs' \<and> (\<forall>k. k \<noteq> h \<longrightarrow> hm_get (cg_cs G') k = hm_get (cg_cs G) k) \<and>
    cg_cells G' = cg_cells G \<and> cg_vertices G' = cg_vertices G \<and>
    pref cs' = (if d1 > d2 then h else pref cs) \<and> last_queried cs' = h \<and>
    conflicts cs' = conflicts cs \<and>
    unat (cnt cs') = (if last_queried cs = h then min (unat (cnt cs) + 1) (unat SLEET_BETA2)
                      else unat (cnt cs))"
proof -
  let ?cs = "update_cset h d1 d2 cs"
  have le: "unat (cnt cs) \<le> 20"
    using cg_wfD(12)[OF assms] by (simp add: word_le_nat_alt)
  have inc: "cnt cs < SLEET_BETA2 \<Longrightarrow> unat (cnt cs + 1) = unat (cnt cs) + 1"
    by (subst unat_add_no_overflow) (simp_all add: word_less_nat_alt)
  have u: "pref ?cs = (if d1 > d2 then h else pref cs)" "last_queried ?cs = h"
    "conflicts ?cs = conflicts cs"
    by (simp_all add: update_cset_def Let_def)
  have c: "unat (cnt ?cs) = (if last_queried cs = h then min (unat (cnt cs) + 1) (unat SLEET_BETA2)
                      else unat (cnt cs))"
    using le inc by (auto simp: update_cset_def Let_def word_less_nat_alt)
  then have "cnt ?cs \<le> SLEET_BETA2" using le by (simp add: word_le_nat_alt)
  then have "cg_wf E (G\<lparr>cg_cs := hm_insert h ?cs (cg_cs G)\<rparr>)"
    using assms u(3) by (intro cg_wf_replace_cset)
  moreover have "update_conflict_set G h d1 d2 = (Ok (), G\<lparr>cg_cs := hm_insert h ?cs (cg_cs G)\<rparr>)"
    using assms(2) by (cases "cg_cs G") (simp_all add: update_conflict_set_def)
  ultimately show ?thesis using u c
    by (intro exI[of _ "G\<lparr>cg_cs := hm_insert h ?cs (cg_cs G)\<rparr>"] exI[of _ ?cs] conjI) simp_all
qed

theorem update_conflict_set_vote_witness:
  "\<exists>G' cs'. update_conflict_set two_spenders 262 1 0 = (Ok (), G') \<and>
     hm_get (cg_cs G') 262 = Some cs' \<and> unat (cnt cs') = 1"
  using update_conflict_set_vote[OF two_spenders_facts(1,3), of 1 0] by auto

section \<open>Where the bookkeeping fails\<close>

text \<open>
  Two cells that spend the same output can both be preferred. After one vote for the second
  spender its own conflict set prefers it, while the conflict set of the first spender, which no
  vote for the second one touches, still prefers the first.
\<close>

theorem rivals_both_preferred:
  "let G = snd (update_conflict_set two_spenders 265 1 0) in
     265 \<in> conflicts_of G 262 \<and> 262 \<in> conflicts_of G 265 \<and>
     cg_is_preferred G 262 = Ok True \<and> cg_is_preferred G 265 = Ok True"
proof -
  have ne: "length (cg_cs two_spenders) > 0"
    using two_spenders_facts(3) by (cases "cg_cs two_spenders") auto
  show ?thesis
    using ne by (simp add: Let_def update_conflict_set_def update_cset_def two_spenders_facts(3,4)
        conflicts_of_def cg_is_preferred_def conflicting_cells_def cset_is_preferred_def)
qed

text \<open>
  A refused cell leaves traces that crash the node. Inserting a cell with one known and one
  unknown input is refused with \<open>UndefinedCell\<close>, but the cell stays among the spenders of the known
  input without a conflict set; inserting any other cell that spends this input then panics.
\<close>

theorem refused_cell_makes_insert_panic:
  "let G = snd (insert_cell example_externs (cg_new [1792]) (spend_cell [7, 8] 5)) in
     fst (insert_cell example_externs (cg_new [1792]) (spend_cell [7, 8] 5)) = Err UndefinedCell \<and>
     fst (insert_cell example_externs (cg_new [1792]) (spend_cell [7] 6)) = Ok () \<and>
     fst (insert_cell example_externs G (spend_cell [7] 6)) = Panic"
  by (simp add: example_run)

text \<open>
  A cell refused for an unknown input can never be inserted later: it is already recorded, so
  the retry after the missing output has become known is refused with \<open>DuplicateCell\<close>.
\<close>

theorem refused_cell_cannot_be_retried:
  assumes "insert_cell E G c = (Err UndefinedCell, G1)"
  shows "fst (insert_cell E (cg_append G1 ids) c) = Err DuplicateCell"
proof -
  have "hm_get (cg_cells G1) (cell_hash E c) = Some c"
    using assms by (auto simp: insert_cell_def Let_def split: if_splits prod.splits result.splits)
  then show ?thesis by (simp add: insert_cell_def cg_append_def Let_def)
qed

theorem refused_cell_cannot_be_retried_witness:
  "\<exists>G1. insert_cell example_externs (cg_new []) (spend_cell [7] 5) = (Err UndefinedCell, G1) \<and>
     fst (insert_cell example_externs (cg_append G1 [1792]) (spend_cell [7] 5)) = Err DuplicateCell"
proof -
  obtain r G1 where i: "insert_cell example_externs (cg_new []) (spend_cell [7] 5) = (r, G1)"
    by fastforce
  moreover have "fst (insert_cell example_externs (cg_new []) (spend_cell [7] 5)) = Err UndefinedCell"
    by (simp add: example_run)
  ultimately have "insert_cell example_externs (cg_new []) (spend_cell [7] 5) = (Err UndefinedCell, G1)"
    by simp
  with refused_cell_cannot_be_retried[OF this, of "[1792]"] show ?thesis by blast
qed

end
