(* ===== verification/Dag.thy ===== *)
theory Dag
  imports Errors
begin

text \<open>
  The consensus graph of \<^verbatim>\<open>src/graph/dag.rs\<close>: adjacency lists towards the parents
  (\<^verbatim>\<open>g\<close>) and towards the children (\<^verbatim>\<open>inv\<close>), and the chits of the vertices.
  This theory has the representation, its invariant \<open>dag_wf\<close> and the operations that change
  it; the searches are in \<open>Dag_Search\<close> and the topological sort in \<open>Dag_Topo\<close>.
\<close>

section \<open>The graph and its operations\<close>

record 'v dag =
  dag_g :: "('v, 'v list) hashmap"
  dag_inv :: "('v, 'v list) hashmap"
  dag_chits :: "('v, u8) hashmap"

definition dag_new :: "'v dag" where
  "dag_new = \<lparr>dag_g = [], dag_inv = [], dag_chits = []\<rparr>"

definition get_chit :: "'v dag \<Rightarrow> 'v \<Rightarrow> (graph_error, u8) result" where
  "get_chit d vx = (case hm_get (dag_chits d) vx of Some chit \<Rightarrow> Ok chit | None \<Rightarrow> Err UndefinedChit)"

definition set_chit :: "'v dag \<Rightarrow> 'v \<Rightarrow> u8 \<Rightarrow> (graph_error, unit) result \<times> 'v dag" where
  "set_chit d vx chit =
     (case hm_get (dag_chits d) vx of
        Some old \<Rightarrow> if old = 1 then (Err ChitReplace, d)
                    else (Ok (), d\<lparr>dag_chits := hm_insert vx chit (dag_chits d)\<rparr>)
      | None \<Rightarrow> (Ok (), d\<lparr>dag_chits := hm_insert vx chit (dag_chits d)\<rparr>))"

text \<open>The loop of \<^verbatim>\<open>insert_vx\<close> over the parents; edges added before a failure stay.\<close>

fun add_inverse_edges ::
  "'v \<Rightarrow> 'v list \<Rightarrow> ('v, 'v list) hashmap \<Rightarrow> (graph_error, unit) result \<times> ('v, 'v list) hashmap" where
  "add_inverse_edges vx [] m = (Ok (), m)"
| "add_inverse_edges vx (ivx # es) m =
     (case hm_get m ivx of
        None \<Rightarrow> (Err VacantEntry, m)
      | Some cs \<Rightarrow> add_inverse_edges vx es (hm_insert ivx (cs @ [vx]) m))"

definition insert_vx :: "'v dag \<Rightarrow> 'v \<Rightarrow> 'v list \<Rightarrow> (graph_error, unit) result \<times> 'v dag" where
  "insert_vx d vx edges =
     (let inv0 = (case hm_get (dag_inv d) vx of
                    Some _ \<Rightarrow> dag_inv d | None \<Rightarrow> hm_insert vx [] (dag_inv d)) in
      case add_inverse_edges vx edges inv0 of
        (Ok _, inv1) \<Rightarrow>
          (let d1 = d\<lparr>dag_inv := inv1\<rparr> in
           case hm_get (dag_g d1) vx of
             Some _ \<Rightarrow> (Err VertexExists, d1)
           | None \<Rightarrow> set_chit (d1\<lparr>dag_g := hm_insert vx edges (dag_g d1)\<rparr>) vx 0)
      | (r, inv1) \<Rightarrow> (r, d\<lparr>dag_inv := inv1\<rparr>))"

definition has_vertices :: "'v dag \<Rightarrow> 'v list \<Rightarrow> ('v list, unit) result" where
  "has_vertices d vs =
     (let missing = filter (\<lambda>v. \<not> hm_contains (dag_g d) v) vs in
      if missing = [] then Ok () else Err missing)"

text \<open>The two loops of \<^verbatim>\<open>remove_vx\<close> erase a vertex from its neighbours' lists.\<close>

fun retain_edges ::
  "'v \<Rightarrow> 'v list \<Rightarrow> ('v, 'v list) hashmap \<Rightarrow> (graph_error, unit) result \<times> ('v, 'v list) hashmap" where
  "retain_edges vx [] m = (Ok (), m)"
| "retain_edges vx (w # ws) m =
     (case hm_get m w of
        None \<Rightarrow> (Err VacantEntry, m)
      | Some es \<Rightarrow> retain_edges vx ws (hm_insert w (filter (\<lambda>e. e \<noteq> vx) es) m))"

definition remove_vx :: "'v dag \<Rightarrow> 'v \<Rightarrow> (graph_error, 'v hashset) result \<times> 'v dag" where
  "remove_vx d vx =
     (case hm_get (dag_inv d) vx of
        None \<Rightarrow> (Err UndefinedVertex, d)
      | Some children \<Rightarrow>
          (case retain_edges vx children (dag_g d) of
             (Ok _, g1) \<Rightarrow>
               (let d1 = d\<lparr>dag_g := g1\<rparr> in
                case hm_get (dag_g d1) vx of
                  None \<Rightarrow> (Err UndefinedVertex, d1)
                | Some parents \<Rightarrow>
                    (case retain_edges vx parents (dag_inv d1) of
                       (Ok _, inv1) \<Rightarrow>
                         (Ok (hs_extend [] children),
                          d1\<lparr>dag_g := hm_remove vx (dag_g d1), dag_inv := hm_remove vx inv1\<rparr>)
                     | (Err e, inv1) \<Rightarrow> (Err e, d1\<lparr>dag_inv := inv1\<rparr>)
                     | (Panic, inv1) \<Rightarrow> (Panic, d1\<lparr>dag_inv := inv1\<rparr>)))
           | (Err e, g1) \<Rightarrow> (Err e, d\<lparr>dag_g := g1\<rparr>)
           | (Panic, g1) \<Rightarrow> (Panic, d\<lparr>dag_g := g1\<rparr>)))"

definition leaves :: "'v dag \<Rightarrow> 'v list" where
  "leaves d = map fst (filter (\<lambda>(vx, edges). length edges = 0) (dag_inv d))"

definition inverse_of :: "'v dag \<Rightarrow> ('v, 'v list) hashmap" where
  "inverse_of d = dag_inv d"

definition invert :: "'v dag \<Rightarrow> 'v dag" where
  "invert d = \<lparr>dag_g = dag_inv d, dag_inv = dag_g d, dag_chits = dag_chits d\<rparr>"

section \<open>The invariant\<close>

abbreviation vertices :: "'v dag \<Rightarrow> 'v set" where
  "vertices d \<equiv> hm_keys (dag_g d)"

definition parents :: "'v dag \<Rightarrow> 'v \<Rightarrow> 'v list" where
  "parents d v = (case hm_get (dag_g d) v of Some ps \<Rightarrow> ps | None \<Rightarrow> [])"

definition children :: "'v dag \<Rightarrow> 'v \<Rightarrow> 'v list" where
  "children d v = (case hm_get (dag_inv d) v of Some cs \<Rightarrow> cs | None \<Rightarrow> [])"

text \<open>The edges from a vertex to its parents.\<close>

definition edge_rel :: "'v dag \<Rightarrow> ('v \<times> 'v) set" where
  "edge_rel d = {(u, v). v \<in> set (parents d u)}"

text \<open>
  Both adjacency maps have the same vertices and describe the same edges, edges lead to vertices,
  there is no cycle and no repeated edge, and every vertex has a chit of 0 or 1.
\<close>

definition dag_wf :: "'v dag \<Rightarrow> bool" where
  "dag_wf d \<longleftrightarrow>
     hm_wf (dag_g d) \<and> hm_wf (dag_inv d) \<and> hm_wf (dag_chits d) \<and>
     hm_keys (dag_inv d) = vertices d \<and> vertices d \<subseteq> hm_keys (dag_chits d) \<and>
     (\<forall>v c. hm_get (dag_chits d) v = Some c \<longrightarrow> c \<le> 1) \<and>
     (\<forall>v. set (parents d v) \<subseteq> vertices d) \<and>
     (\<forall>u v. u \<in> set (children d v) \<longleftrightarrow> v \<in> set (parents d u)) \<and>
     (\<forall>v. distinct (parents d v)) \<and> (\<forall>v. distinct (children d v)) \<and>
     acyclic (edge_rel d)"

named_theorems dag_simps \<open>parents and children after an operation\<close>

lemma parents_Some [dag_simps]: "hm_get (dag_g d) v = Some ps \<Longrightarrow> parents d v = ps"
  by (simp add: parents_def)

lemma children_Some [dag_simps]: "hm_get (dag_inv d) v = Some cs \<Longrightarrow> children d v = cs"
  by (simp add: children_def)

lemma parents_outside: "v \<notin> vertices d \<Longrightarrow> parents d v = []"
  by (simp add: parents_def hm_get_None_iff[THEN iffD2])

lemma children_outside: "v \<notin> hm_keys (dag_inv d) \<Longrightarrow> children d v = []"
  by (simp add: children_def hm_get_None_iff[THEN iffD2])

lemma get_parents: "v \<in> vertices d \<Longrightarrow> hm_get (dag_g d) v = Some (parents d v)"
  using hm_keys_get[of v "dag_g d"] by (auto simp: parents_def)

lemma get_children: "v \<in> hm_keys (dag_inv d) \<Longrightarrow> hm_get (dag_inv d) v = Some (children d v)"
  using hm_keys_get[of v "dag_inv d"] by (auto simp: children_def)

lemma dag_wfD:
  assumes "dag_wf d"
  shows "hm_wf (dag_g d)" "hm_wf (dag_inv d)" "hm_wf (dag_chits d)"
    "hm_keys (dag_inv d) = vertices d" "vertices d \<subseteq> hm_keys (dag_chits d)"
    "\<And>v c. hm_get (dag_chits d) v = Some c \<Longrightarrow> c \<le> 1"
    "\<And>v. set (parents d v) \<subseteq> vertices d"
    "\<And>u v. u \<in> set (children d v) \<longleftrightarrow> v \<in> set (parents d u)"
    "\<And>v. distinct (parents d v)" "\<And>v. distinct (children d v)" "acyclic (edge_rel d)"
  using assms unfolding dag_wf_def by blast+

lemma dag_wf_new: "dag_wf dag_new"
  by (simp add: dag_wf_def dag_new_def parents_def children_def edge_rel_def acyclic_def)

lemma children_subset:
  assumes "dag_wf d"
  shows "set (children d v) \<subseteq> vertices d"
proof
  fix u assume "u \<in> set (children d v)"
  then have "parents d u \<noteq> []" using dag_wfD(8)[OF assms, of u v] by auto
  then show "u \<in> vertices d" using parents_outside by fast
qed

lemma set_leaves:
  assumes "dag_wf d"
  shows "set (leaves d) = {v \<in> vertices d. children d v = []}"
proof -
  have "set (leaves d) = {v. hm_get (dag_inv d) v = Some []}"
    using dag_wfD(2)[OF assms] by (auto simp: leaves_def hm_wf_get_iff image_iff)
  also have "\<dots> = {v \<in> hm_keys (dag_inv d). children d v = []}"
  proof (rule Collect_cong)
    show "hm_get (dag_inv d) v = Some [] \<longleftrightarrow> v \<in> hm_keys (dag_inv d) \<and> children d v = []" for v
      by (cases "v \<in> hm_keys (dag_inv d)")
         (auto simp: get_children hm_get_None_iff[THEN iffD2] simp del: image_iff)
  qed
  finally show ?thesis using dag_wfD(4)[OF assms] by simp
qed

lemma has_vertices_Ok: "has_vertices d vs = Ok () \<longleftrightarrow> set vs \<subseteq> vertices d"
  by (auto simp: has_vertices_def Let_def filter_empty_conv)

section \<open>Inserting a vertex\<close>

lemma add_inverse_edges_Ok:
  assumes "set es \<subseteq> hm_keys m" "distinct es"
  shows "\<exists>m'. add_inverse_edges vx es m = (Ok (), m') \<and> hm_keys m' = hm_keys m \<and>
           (hm_wf m \<longrightarrow> hm_wf m') \<and>
           (\<forall>w. hm_get m' w = (if w \<in> set es then map_option (\<lambda>cs. cs @ [vx]) (hm_get m w)
                                else hm_get m w))"
  using assms
proof (induction es arbitrary: m)
  case (Cons e es)
  then obtain cs where cs: "hm_get m e = Some cs" using hm_keys_get[of e m] by auto
  let ?m = "hm_insert e (cs @ [vx]) m"
  have e: "e \<in> hm_keys m" "e \<notin> set es" using Cons.prems by auto
  have "set es \<subseteq> hm_keys ?m" using Cons.prems by auto
  then obtain m' where m': "add_inverse_edges vx es ?m = (Ok (), m')" "hm_keys m' = hm_keys ?m"
    "hm_wf ?m \<longrightarrow> hm_wf m'"
    "\<forall>w. hm_get m' w = (if w \<in> set es then map_option (\<lambda>cs. cs @ [vx]) (hm_get ?m w) else hm_get ?m w)"
    using Cons.IH[of ?m] Cons.prems(2) by auto
  have "hm_keys ?m = hm_keys m" using e by auto
  moreover have "hm_wf m \<longrightarrow> hm_wf m'" using m'(3) by simp
  moreover have "hm_get m' w = (if w \<in> set (e # es) then map_option (\<lambda>cs. cs @ [vx]) (hm_get m w)
      else hm_get m w)" for w
    using m'(4) e(2) cs by simp
  ultimately show ?case using m'(1,2) cs by simp
qed auto

lemma add_inverse_edges_Vacant:
  "\<not> set es \<subseteq> hm_keys m \<Longrightarrow> fst (add_inverse_edges vx es m) = Err VacantEntry"
proof (induction es arbitrary: m)
  case (Cons e es)
  show ?case
  proof (cases "hm_get m e")
    case (Some cs)
    then have "hm_keys (hm_insert e (cs @ [vx]) m) = hm_keys m" by (auto dest: hm_get_Some_keys)
    moreover have "e \<in> hm_keys m" using Some by (rule hm_get_Some_keys)
    ultimately show ?thesis using Cons Some by simp
  qed simp
qed simp

text \<open>
  A vertex that is new, comes after its parents and has no vote left over from an earlier life is
  inserted: its parents are the given edges, it becomes the last child of each of them, and its
  chit is 0.
\<close>

lemma insert_vx_spec:
  assumes wf: "dag_wf d" and new: "vx \<notin> vertices d"
    and edges: "set edges \<subseteq> vertices d" "distinct edges"
    and chit: "hm_get (dag_chits d) vx \<noteq> Some 1"
  obtains d' where "insert_vx d vx edges = (Ok (), d')"
    "hm_wf (dag_g d')" "hm_wf (dag_inv d')" "hm_wf (dag_chits d')"
    "vertices d' = insert vx (vertices d)" "hm_keys (dag_inv d') = insert vx (vertices d)"
    "hm_get (dag_chits d') = (hm_get (dag_chits d))(vx \<mapsto> 0)"
    "\<And>v. parents d' v = (if v = vx then edges else parents d v)"
    "\<And>v. children d' v = (if v \<in> set edges then children d v @ [vx] else children d v)"
proof -
  note w = dag_wfD[OF wf]
  let ?inv0 = "hm_insert vx [] (dag_inv d)"
  have vac: "hm_get (dag_inv d) vx = None" "hm_get (dag_g d) vx = None"
    using new w(4) by (simp_all add: hm_get_None_iff)
  have ne: "vx \<notin> set edges" using new edges by auto
  have "set edges \<subseteq> hm_keys ?inv0" using edges w(4) by auto
  then obtain inv1 where inv1: "add_inverse_edges vx edges ?inv0 = (Ok (), inv1)"
    "hm_keys inv1 = hm_keys ?inv0" "hm_wf ?inv0 \<longrightarrow> hm_wf inv1"
    "\<forall>w. hm_get inv1 w = (if w \<in> set edges then map_option (\<lambda>cs. cs @ [vx]) (hm_get ?inv0 w)
                           else hm_get ?inv0 w)"
    using add_inverse_edges_Ok[of edges ?inv0 vx] edges by blast
  let ?d = "d\<lparr>dag_inv := inv1, dag_g := hm_insert vx edges (dag_g d),
              dag_chits := hm_insert vx 0 (dag_chits d)\<rparr>"
  have run: "insert_vx d vx edges = (Ok (), ?d)"
    using vac inv1(1) chit by (auto simp: insert_vx_def set_chit_def Let_def split: option.splits)
  have ch: "children ?d v = (if v \<in> set edges then children d v @ [vx] else children d v)" for v
  proof (cases "v = vx")
    case True
    then show ?thesis using ne inv1(4) vac by (simp add: children_def)
  next
    case False
    have "hm_get (dag_inv d) v = Some (children d v)" if "v \<in> set edges"
      using that edges(1) w(4) by (intro get_children) auto
    with False inv1(4) have "hm_get inv1 v =
        (if v \<in> set edges then Some (children d v @ [vx]) else hm_get (dag_inv d) v)"
      by simp
    then show ?thesis by (simp add: children_def)
  qed
  show thesis
    by (rule that[OF run]) (use w(1-4) inv1(2,3) ch in \<open>simp_all add: parents_def fun_eq_iff\<close>)
qed

lemma dag_wf_insert_vx:
  assumes wf: "dag_wf d" and new: "vx \<notin> vertices d"
    and edges: "set edges \<subseteq> vertices d" "distinct edges"
    and chit: "hm_get (dag_chits d) vx \<noteq> Some 1"
    and run: "insert_vx d vx edges = (r, d')"
  shows "r = Ok () \<and> dag_wf d'"
proof -
  note w = dag_wfD[OF wf]
  obtain d'' where d: "insert_vx d vx edges = (Ok (), d'')"
    "hm_wf (dag_g d'')" "hm_wf (dag_inv d'')" "hm_wf (dag_chits d'')"
    "vertices d'' = insert vx (vertices d)" "hm_keys (dag_inv d'') = insert vx (vertices d)"
    "hm_get (dag_chits d'') = (hm_get (dag_chits d))(vx \<mapsto> 0)"
    "\<And>v. parents d'' v = (if v = vx then edges else parents d v)"
    "\<And>v. children d'' v = (if v \<in> set edges then children d v @ [vx] else children d v)"
    using insert_vx_spec[OF wf new edges chit] by metis
  have ne: "vx \<notin> set edges" using new edges by auto
  have vx: "parents d vx = []" using new by (rule parents_outside)
  have keys: "insert vx (vertices d) \<subseteq> hm_keys (dag_chits d'')"
    using w(5) d(7) by (metis (no_types, lifting) dom_fun_upd dom_map_of_conv_image_fst
        insert_mono option.distinct(1))
  have rel: "edge_rel d'' = edge_rel d \<union> {vx} \<times> set edges"
    using d(8) vx by (auto simp: edge_rel_def split: if_splits)
  have "vx \<notin> Range (edge_rel d)" using w(7) new by (auto simp: edge_rel_def)
  then have acyc: "acyclic (edge_rel d'')"
    unfolding rel using w(11) ne by (intro acyclic_add_source)
  have inv: "u \<in> set (children d'' v) \<longleftrightarrow> v \<in> set (parents d'' u)" for u v
    using d(8,9) w(8)[of u v] vx by auto
  have "distinct (children d'' v)" for v
    using d(9) w(8)[of vx v] w(10)[of v] vx by auto
  moreover have "c \<le> 1" if "hm_get (dag_chits d'') v = Some c" for v c
    using that w(6) d(7) by (auto split: if_splits)
  moreover have "set (parents d'' v) \<subseteq> vertices d''" for v
    using w(7)[of v] edges d(5,8) by auto
  ultimately have "dag_wf d''"
    unfolding dag_wf_def using d(2-6) keys inv acyc w(9) edges(2) d(8) by simp
  then show ?thesis using d(1) run by simp
qed

lemma add_inverse_edges_result:
  "fst (add_inverse_edges vx es m) = (if set es \<subseteq> hm_keys m then Ok () else Err VacantEntry)"
proof (induction es arbitrary: m)
  case (Cons e es)
  show ?case
  proof (cases "hm_get m e")
    case (Some cs)
    then have e: "e \<in> hm_keys m" by (rule hm_get_Some_keys)
    then have "hm_keys (hm_insert e (cs @ [vx]) m) = hm_keys m" by auto
    then show ?thesis using Cons.IH e Some by simp
  next
    case None
    then show ?thesis using hm_get_None_iff[of m e] by simp
  qed
qed simp

text \<open>The result of an insertion on every branch.\<close>

lemma insert_vx_result:
  assumes "dag_wf d"
  shows "fst (insert_vx d vx edges) =
    (if \<not> set edges \<subseteq> insert vx (vertices d) then Err VacantEntry
     else if vx \<in> vertices d then Err VertexExists
     else if hm_get (dag_chits d) vx = Some 1 then Err ChitReplace
     else Ok ())"
proof -
  let ?inv0 = "case hm_get (dag_inv d) vx of Some _ \<Rightarrow> dag_inv d | None \<Rightarrow> hm_insert vx [] (dag_inv d)"
  have "hm_keys ?inv0 = insert vx (vertices d)"
    using dag_wfD(4)[OF assms] by (auto split: option.splits dest: hm_get_Some_keys)
  then have r: "fst (add_inverse_edges vx edges ?inv0) =
      (if set edges \<subseteq> insert vx (vertices d) then Ok () else Err VacantEntry)"
    by (simp add: add_inverse_edges_result)
  obtain res inv1 where a: "add_inverse_edges vx edges ?inv0 = (res, inv1)" by fastforce
  with r have "res = (if set edges \<subseteq> insert vx (vertices d) then Ok () else Err VacantEntry)" by simp
  with a show ?thesis
    unfolding insert_vx_def set_chit_def Let_def
    by (auto simp: hm_get_None_iff split: option.splits dest: hm_get_Some_keys)
qed

section \<open>Removing a vertex\<close>

lemma retain_edges_Ok:
  assumes "set ws \<subseteq> hm_keys m"
  shows "\<exists>m'. retain_edges vx ws m = (Ok (), m') \<and> hm_keys m' = hm_keys m \<and>
           (hm_wf m \<longrightarrow> hm_wf m') \<and>
           (\<forall>w. hm_get m' w = (if w \<in> set ws then map_option (filter (\<lambda>e. e \<noteq> vx)) (hm_get m w)
                                else hm_get m w))"
  using assms
proof (induction ws arbitrary: m)
  case (Cons e ws)
  then obtain es where es: "hm_get m e = Some es" using hm_keys_get[of e m] by auto
  let ?m = "hm_insert e (filter (\<lambda>x. x \<noteq> vx) es) m"
  have k: "hm_keys ?m = hm_keys m" using Cons.prems by auto
  obtain m' where m': "retain_edges vx ws ?m = (Ok (), m')" "hm_keys m' = hm_keys ?m"
    "hm_wf ?m \<longrightarrow> hm_wf m'"
    "\<forall>w. hm_get m' w = (if w \<in> set ws then map_option (filter (\<lambda>e. e \<noteq> vx)) (hm_get ?m w) else hm_get ?m w)"
    using Cons.IH[of ?m] Cons.prems k by auto
  have "hm_get m' w = (if w \<in> set (e # ws) then map_option (filter (\<lambda>e. e \<noteq> vx)) (hm_get m w)
      else hm_get m w)" for w
    using m'(4) es by simp
  with m' es k show ?case by simp
qed auto

lemma no_self_edge: "dag_wf d \<Longrightarrow> v \<notin> set (parents d v)"
  using dag_wfD(11)[of d] by (auto simp: acyclic_def edge_rel_def)

lemma filter_neighbours:
  "dag_wf d \<Longrightarrow> u \<notin> set (children d v) \<Longrightarrow> filter (\<lambda>e. e \<noteq> v) (parents d u) = parents d u"
  "dag_wf d \<Longrightarrow> u \<notin> set (parents d v) \<Longrightarrow> filter (\<lambda>e. e \<noteq> v) (children d u) = children d u"
  using dag_wfD(8)[of d] by (auto simp: filter_id_conv)

lemma remove_vx_spec:
  assumes wf: "dag_wf d" and vx: "vx \<in> vertices d"
  obtains d' where "remove_vx d vx = (Ok (hs_extend [] (children d vx)), d')"
    "hm_wf (dag_g d')" "hm_wf (dag_inv d')" "dag_chits d' = dag_chits d"
    "vertices d' = vertices d - {vx}" "hm_keys (dag_inv d') = vertices d - {vx}"
    "\<And>v. parents d' v = (if v = vx then [] else filter (\<lambda>e. e \<noteq> vx) (parents d v))"
    "\<And>v. children d' v = (if v = vx then [] else filter (\<lambda>e. e \<noteq> vx) (children d v))"
proof -
  note w = dag_wfD[OF wf]
  have self: "vx \<notin> set (parents d vx)" using wf by (rule no_self_edge)
  have "set (children d vx) \<subseteq> hm_keys (dag_g d)" using wf by (rule children_subset)
  from retain_edges_Ok[OF this, of vx] obtain g1 where
    g1: "retain_edges vx (children d vx) (dag_g d) = (Ok (), g1)"
    "hm_keys g1 = vertices d" "hm_wf (dag_g d) \<longrightarrow> hm_wf g1"
    "\<forall>w. hm_get g1 w = (if w \<in> set (children d vx)
        then map_option (filter (\<lambda>e. e \<noteq> vx)) (hm_get (dag_g d) w) else hm_get (dag_g d) w)"
    by (elim exE conjE) (rule that)
  have gvx: "hm_get g1 vx = Some (parents d vx)"
    using g1(4) self w(8)[of vx vx] get_parents[OF vx] by simp
  have "set (parents d vx) \<subseteq> hm_keys (dag_inv d)" using w(4,7) by auto
  from retain_edges_Ok[OF this, of vx] obtain inv1 where
    inv1: "retain_edges vx (parents d vx) (dag_inv d) = (Ok (), inv1)"
    "hm_keys inv1 = hm_keys (dag_inv d)" "hm_wf (dag_inv d) \<longrightarrow> hm_wf inv1"
    "\<forall>w. hm_get inv1 w = (if w \<in> set (parents d vx)
        then map_option (filter (\<lambda>e. e \<noteq> vx)) (hm_get (dag_inv d) w) else hm_get (dag_inv d) w)"
    by (elim exE conjE) (rule that)
  let ?d = "d\<lparr>dag_g := hm_remove vx g1, dag_inv := hm_remove vx inv1\<rparr>"
  have run: "remove_vx d vx = (Ok (hs_extend [] (children d vx)), ?d)"
    using g1(1) gvx inv1(1) get_children[of vx d] vx w(4) by (simp add: remove_vx_def Let_def)
  have p: "parents ?d v = (if v = vx then [] else filter (\<lambda>e. e \<noteq> vx) (parents d v))" for v
    using g1(4) filter_neighbours(1)[OF wf, of v vx]
    by (cases "hm_get (dag_g d) v") (auto simp: parents_def)
  have c: "children ?d v = (if v = vx then [] else filter (\<lambda>e. e \<noteq> vx) (children d v))" for v
    using inv1(4) filter_neighbours(2)[OF wf, of v vx]
    by (cases "hm_get (dag_inv d) v") (auto simp: children_def)
  show thesis
    by (rule that[OF run]) (use w(1-4) g1(2,3) inv1(2,3) p c in simp_all)
qed

lemma dag_wf_remove_vx:
  assumes wf: "dag_wf d" and vx: "vx \<in> vertices d"
  shows "dag_wf (snd (remove_vx d vx))"
proof -
  note w = dag_wfD[OF wf]
  obtain d' where d: "remove_vx d vx = (Ok (hs_extend [] (children d vx)), d')"
    "hm_wf (dag_g d')" "hm_wf (dag_inv d')" "dag_chits d' = dag_chits d"
    "vertices d' = vertices d - {vx}" "hm_keys (dag_inv d') = vertices d - {vx}"
    "\<And>v. parents d' v = (if v = vx then [] else filter (\<lambda>e. e \<noteq> vx) (parents d v))"
    "\<And>v. children d' v = (if v = vx then [] else filter (\<lambda>e. e \<noteq> vx) (children d v))"
    using remove_vx_spec[OF wf vx] by metis
  have "edge_rel d' \<subseteq> edge_rel d"
    using d(7) by (auto simp: edge_rel_def split: if_splits)
  then have acyc: "acyclic (edge_rel d')" by (rule acyclic_subset[OF w(11)])
  have "set (parents d' v) \<subseteq> vertices d'" for v using w(7)[of v] d(5,7) by auto
  moreover have "u \<in> set (children d' v) \<longleftrightarrow> v \<in> set (parents d' u)" for u v
    using d(7,8) w(8)[of u v] by auto
  moreover have "vertices d' \<subseteq> hm_keys (dag_chits d')" using w(5) d(4,5) by auto
  ultimately have "dag_wf d'"
    unfolding dag_wf_def using d w(3,6,9,10) acyc by simp
  then show ?thesis using d(1) by simp
qed

section \<open>Properties\<close>

text \<open>
  C1: Inserting a vertex keeps the graph well formed. A new vertex whose parents are in the graph
  and that has no chit of 1 is inserted without error; it gets exactly the given parents, becomes a
  child of each of them, nobody else's edges change, and its chit is 0.
\<close>

theorem insert_vx_invariant:
  assumes "dag_wf d" "vx \<notin> vertices d" "set edges \<subseteq> vertices d" "distinct edges"
    and "hm_get (dag_chits d) vx \<noteq> Some 1"
  shows "\<exists>d'. insert_vx d vx edges = (Ok (), d') \<and> dag_wf d' \<and>
    vertices d' = insert vx (vertices d) \<and>
    (\<forall>v. parents d' v = (if v = vx then edges else parents d v)) \<and>
    (\<forall>v. children d' v = (if v \<in> set edges then children d v @ [vx] else children d v)) \<and>
    get_chit d' vx = Ok 0"
proof -
  obtain d' where d: "insert_vx d vx edges = (Ok (), d')"
    "vertices d' = insert vx (vertices d)"
    "hm_get (dag_chits d') = (hm_get (dag_chits d))(vx \<mapsto> 0)"
    "\<And>v. parents d' v = (if v = vx then edges else parents d v)"
    "\<And>v. children d' v = (if v \<in> set edges then children d v @ [vx] else children d v)"
    using insert_vx_spec[OF assms] by metis
  then show ?thesis
    using dag_wf_insert_vx[OF assms d(1)] by (simp add: get_chit_def)
qed

definition example_dag :: "nat dag" where
  "example_dag = \<lparr>dag_g = [(0, []), (1, [0]), (2, [0]), (3, [1, 2])],
                  dag_inv = [(0, [1, 2]), (1, [3]), (2, [3]), (3, [])],
                  dag_chits = [(0, 0), (1, 1), (2, 0), (3, 1)]\<rparr>"

lemma example_dag_wf: "dag_wf example_dag"
proof -
  define d1 where "d1 = snd (insert_vx dag_new (0 :: nat) [])"
  have 1: "dag_wf d1" "d1 = \<lparr>dag_g = [(0, [])], dag_inv = [(0, [])], dag_chits = [(0, 0)]\<rparr>"
    using dag_wf_insert_vx[OF dag_wf_new, of "0 :: nat" "[]" "fst (insert_vx dag_new 0 [])" d1]
    by (simp_all add: d1_def insert_vx_def set_chit_def dag_new_def Let_def)
  define d2 where "d2 = snd (insert_vx d1 (1 :: nat) [0])"
  have 2: "dag_wf d2" "d2 = \<lparr>dag_g = [(0, []), (1, [0])], dag_inv = [(0, [1]), (1, [])],
      dag_chits = [(0, 0), (1, 0)]\<rparr>"
    using dag_wf_insert_vx[OF 1(1), of "1 :: nat" "[0]" "fst (insert_vx d1 1 [0])" d2]
    by (simp_all add: d2_def 1(2) insert_vx_def set_chit_def Let_def)
  define d3 where "d3 = snd (insert_vx d2 (2 :: nat) [0])"
  have 3: "dag_wf d3" "d3 = \<lparr>dag_g = [(0, []), (1, [0]), (2, [0])],
      dag_inv = [(0, [1, 2]), (1, []), (2, [])], dag_chits = [(0, 0), (1, 0), (2, 0)]\<rparr>"
    using dag_wf_insert_vx[OF 2(1), of "2 :: nat" "[0]" "fst (insert_vx d2 2 [0])" d3]
    by (simp_all add: d3_def 2(2) insert_vx_def set_chit_def Let_def)
  define d4 where "d4 = snd (insert_vx d3 (3 :: nat) [1, 2])"
  have 4: "dag_wf d4" "d4 = \<lparr>dag_g = [(0, []), (1, [0]), (2, [0]), (3, [1, 2])],
      dag_inv = [(0, [1, 2]), (1, [3]), (2, [3]), (3, [])],
      dag_chits = [(0, 0), (1, 0), (2, 0), (3, 0)]\<rparr>"
    using dag_wf_insert_vx[OF 3(1), of "3 :: nat" "[1, 2]" "fst (insert_vx d3 3 [1, 2])" d4]
    by (simp_all add: d4_def 3(2) insert_vx_def set_chit_def Let_def)
  have "dag_g example_dag = dag_g d4" "dag_inv example_dag = dag_inv d4"
    by (simp_all add: example_dag_def 4(2))
  then have same: "parents example_dag = parents d4" "children example_dag = children d4"
    "edge_rel example_dag = edge_rel d4" "dag_g example_dag = dag_g d4"
    "dag_inv example_dag = dag_inv d4"
    by (auto simp: parents_def children_def edge_rel_def fun_eq_iff)
  note w = dag_wfD[OF 4(1)]
  have "hm_wf (dag_chits example_dag)" "vertices d4 \<subseteq> hm_keys (dag_chits example_dag)"
    "\<forall>v c. hm_get (dag_chits example_dag) v = Some c \<longrightarrow> c \<le> 1"
    by (auto simp: example_dag_def 4(2) split: if_splits)
  with w show ?thesis unfolding dag_wf_def same by simp
qed

theorem insert_vx_invariant_witness:
  "\<exists>d'. insert_vx example_dag 4 [3] = (Ok (), d') \<and> dag_wf d' \<and> parents d' 4 = [3]"
  using insert_vx_invariant[of example_dag 4 "[3]"] example_dag_wf
  by (auto simp: example_dag_def)

text \<open>
  The outcome of an insertion into a well formed graph: a parent that is neither in the graph
  nor the vertex itself is \<open>VacantEntry\<close>, a vertex that is already there is \<open>VertexExists\<close>, a
  vertex removed earlier with a chit of 1 is \<open>ChitReplace\<close>, anything else succeeds.
\<close>

theorem insert_vx_outcome:
  assumes "dag_wf d"
  shows "fst (insert_vx d vx edges) =
    (if \<not> set edges \<subseteq> insert vx (vertices d) then Err VacantEntry
     else if vx \<in> vertices d then Err VertexExists
     else if hm_get (dag_chits d) vx = Some 1 then Err ChitReplace
     else Ok ())"
  using assms by (rule insert_vx_result)

theorem insert_vx_outcome_witness:
  "fst (insert_vx example_dag 4 [7]) = Err VacantEntry \<and>
   fst (insert_vx example_dag 3 [1]) = Err VertexExists \<and>
   fst (insert_vx example_dag 4 [4]) = Ok ()"
  using insert_vx_outcome[OF example_dag_wf, of 4 "[7]"]
    insert_vx_outcome[OF example_dag_wf, of 3 "[1]"] insert_vx_outcome[OF example_dag_wf, of 4 "[4]"]
  by (simp add: example_dag_def)

text \<open>
  Removing a vertex of a well formed graph succeeds, returns its children, keeps the graph well
  formed, and takes the vertex out of every adjacency list while leaving all other edges and all
  chits, that of the removed vertex included.
\<close>

theorem remove_vx_invariant:
  assumes "dag_wf d" "vx \<in> vertices d"
  shows "\<exists>cs d'. remove_vx d vx = (Ok cs, d') \<and> set cs = set (children d vx) \<and> distinct cs \<and>
    dag_wf d' \<and> vertices d' = vertices d - {vx} \<and> dag_chits d' = dag_chits d \<and>
    (\<forall>v. v \<noteq> vx \<longrightarrow> parents d' v = filter (\<lambda>e. e \<noteq> vx) (parents d v) \<and>
                    children d' v = filter (\<lambda>e. e \<noteq> vx) (children d v))"
proof -
  obtain d' where d: "remove_vx d vx = (Ok (hs_extend [] (children d vx)), d')"
    "dag_chits d' = dag_chits d" "vertices d' = vertices d - {vx}"
    "\<And>v. parents d' v = (if v = vx then [] else filter (\<lambda>e. e \<noteq> vx) (parents d v))"
    "\<And>v. children d' v = (if v = vx then [] else filter (\<lambda>e. e \<noteq> vx) (children d v))"
    using remove_vx_spec[OF assms] by metis
  then show ?thesis using dag_wf_remove_vx[OF assms] by simp
qed

theorem remove_vx_invariant_witness:
  "\<exists>cs d'. remove_vx example_dag 1 = (Ok cs, d') \<and> set cs = {3} \<and> dag_wf d'"
  using remove_vx_invariant[OF example_dag_wf, of 1] by (auto simp: example_dag_def children_def)

end
