(* ===== verification/Dag_Search.thy ===== *)
theory Dag_Search
  imports Dag
begin

text \<open>
  The traversals of \<^verbatim>\<open>src/graph/dag.rs\<close>: the depth first iterator, the breadth first
  search and the conviction of a vertex. All three keep a work list and a set of visited vertices;
  the locale \<open>worklist_search\<close> states what they have in common and shows that such a search visits
  every reachable vertex exactly once. It is interpreted on the depth first search and on the
  breadth first search in both directions of the graph.
\<close>

section \<open>The traversals\<close>

text \<open>
  The stack of the depth first search has its top at the head of the list, so pushing is
  \<open>push_front\<close>; the queue of the breadth first search grows at its end, \<open>push_back\<close>.
\<close>

fun push_front :: "'v list \<Rightarrow> 'v list \<Rightarrow> 'v hashset \<Rightarrow> 'v list \<times> 'v hashset" where
  "push_front [] st vis = (st, vis)"
| "push_front (e # es) st vis =
     (if e \<in> set vis then push_front es st vis else push_front es (e # st) (vis @ [e]))"

fun push_back :: "'v list \<Rightarrow> 'v list \<Rightarrow> 'v hashset \<Rightarrow> 'v list \<times> 'v hashset" where
  "push_back [] q vis = (q, vis)"
| "push_back (e # es) q vis =
     (if e \<in> set vis then push_back es q vis else push_back es (q @ [e]) (vis @ [e]))"

text \<open>\<^verbatim>\<open>DFS::next\<close>: the item, if any, and the stack and visited set left behind.\<close>

fun dfs_next :: "'v dag \<Rightarrow> 'v list \<times> 'v hashset \<Rightarrow> 'v option \<times> ('v list \<times> 'v hashset)" where
  "dfs_next d ([], visited) = (None, ([], visited))"
| "dfs_next d (next_vx # st, visited) =
     (let visited1 = hs_insert next_vx visited in
      case hm_get (dag_g d) next_vx of
        Some adj \<Rightarrow> (Some next_vx, push_front adj st visited1)
      | None \<Rightarrow> (None, (st, visited1)))"

text \<open>Vertices and edge targets: what a search can ever put on its work list.\<close>

definition universe :: "('v, 'v list) hashmap \<Rightarrow> 'v set" where
  "universe m = (\<Union>(v, es) \<in> set m. insert v (set es))"

lemma finite_universe [simp]: "finite (universe m)"
  by (auto simp: universe_def)

lemma universe_adj: "hm_get m v = Some es \<Longrightarrow> insert v (set es) \<subseteq> universe m"
  by (auto simp: universe_def dest!: map_of_SomeD)

lemma visit_measure:
  assumes "finite U" "e \<in> U" "e \<notin> set vis"
  shows "Suc (card (U - set (vis @ [e]))) = card (U - set vis)"
proof -
  have "U - set (vis @ [e]) = (U - set vis) - {e}" by auto
  then show ?thesis using assms card_Suc_Diff1[of "U - set vis" e] by simp
qed

lemma push_front_measure:
  "finite U \<Longrightarrow> set es \<subseteq> U \<Longrightarrow> push_front es st vis = (st', vis') \<Longrightarrow>
   card (U - set vis') + length st' = card (U - set vis) + length st"
proof (induction es arbitrary: st vis)
  case (Cons e es)
  show ?case
  proof (cases "e \<in> set vis")
    case True
    with Cons show ?thesis by simp
  next
    case False
    with Cons.prems have "Suc (card (U - set (vis @ [e]))) = card (U - set vis)"
      by (intro visit_measure) auto
    with False Cons.prems Cons.IH show ?thesis by fastforce
  qed
qed simp

lemma push_back_measure:
  "finite U \<Longrightarrow> set es \<subseteq> U \<Longrightarrow> push_back es st vis = (st', vis') \<Longrightarrow>
   card (U - set vis') + length st' = card (U - set vis) + length st"
proof (induction es arbitrary: st vis)
  case (Cons e es)
  show ?case
  proof (cases "e \<in> set vis")
    case True
    with Cons show ?thesis by simp
  next
    case False
    with Cons.prems have "Suc (card (U - set (vis @ [e]))) = card (U - set vis)"
      by (intro visit_measure) auto
    with False Cons.prems Cons.IH show ?thesis by fastforce
  qed
qed simp

lemma push_back_universe:
  assumes "hm_get m v = Some es" "(q', vis') = push_back es q vis"
  shows "card (universe m - set vis') + length q' < Suc (card (universe m - set vis) + length q)"
  using push_back_measure[OF finite_universe, of es m q vis q' vis'] universe_adj[OF assms(1)]
    assms(2) by simp

lemma push_front_universe:
  assumes "hm_get m v = Some es" "push_front es st (hs_insert v vis) = (st', vis')"
  shows "card (universe m - set vis') + length st' < Suc (card (universe m - set vis) + length st)"
proof -
  have "card (universe m - set (hs_insert v vis)) \<le> card (universe m - set vis)"
    by (rule card_mono) auto
  with push_front_measure[OF finite_universe, of es m st "hs_insert v vis" st' vis']
    universe_adj[OF assms(1)] assms(2) show ?thesis by simp
qed

text \<open>Driving the iterator until it returns nothing.\<close>

function dfs_run :: "'v dag \<Rightarrow> 'v list \<times> 'v hashset \<Rightarrow> 'v list" where
  "dfs_run d s = (case dfs_next d s of
     (None, s') \<Rightarrow> [] | (Some v, s') \<Rightarrow> v # dfs_run d s')"
  by pat_completeness auto
termination
proof (relation "measure (\<lambda>(d, st, vis). card (universe (dag_g d) - set vis) + length st)",
    goal_cases)
  case (2 d s r s' v)
  then obtain x st vis adj where "s = (x # st, vis)" "hm_get (dag_g d) x = Some adj"
    "push_front adj st (hs_insert x vis) = s'"
    by (cases "(d, s)" rule: dfs_next.cases) (auto simp: Let_def split: option.splits)
  then show ?case
    using push_front_universe[of "dag_g d" x adj st vis "fst s'" "snd s'"] by (cases s') simp
qed simp

declare dfs_run.simps [simp del]

definition dfs :: "'v dag \<Rightarrow> 'v \<Rightarrow> 'v list" where
  "dfs d vx = dfs_run d ([vx], [])"

function bfs_loop :: "'v dag \<Rightarrow> 'v list \<Rightarrow> 'v hashset \<Rightarrow> 'v list \<Rightarrow> (graph_error, 'v list) result" where
  "bfs_loop d [] visited res = Ok res"
| "bfs_loop d (elt # queue) visited res =
     (case hm_get (dag_g d) elt of
        None \<Rightarrow> Panic
      | Some adj \<Rightarrow> (case push_back adj queue visited of (queue', visited') \<Rightarrow>
                       bfs_loop d queue' visited' (res @ [elt])))"
  by pat_completeness auto
termination
  by (relation "measure (\<lambda>(d, q, vis, res). card (universe (dag_g d) - set vis) + length q)")
     (auto intro: push_back_universe)

definition bfs :: "'v dag \<Rightarrow> 'v \<Rightarrow> (graph_error, 'v list) result" where
  "bfs d vx = bfs_loop d [vx] [vx] []"

function conviction_loop :: "'v dag \<Rightarrow> 'v list \<Rightarrow> 'v hashset \<Rightarrow> u8 \<Rightarrow> (graph_error, u8) result" where
  "conviction_loop d [] visited acc = Ok acc"
| "conviction_loop d (elt # queue) visited acc =
     (case get_chit d elt of
        Ok chit \<Rightarrow>
          if unat acc + unat chit < 256 then
            (case hm_get (dag_inv d) elt of
               None \<Rightarrow> Panic
             | Some adj \<Rightarrow> (case push_back adj queue visited of (queue', visited') \<Rightarrow>
                              conviction_loop d queue' visited' (acc + chit)))
          else Err ChitOverflow
      | Err e \<Rightarrow> Err e
      | Panic \<Rightarrow> Panic)"
  by pat_completeness auto
termination
  by (relation "measure (\<lambda>(d, q, vis, s). card (universe (dag_inv d) - set vis) + length q)")
     (auto intro: push_back_universe)

definition conviction :: "'v dag \<Rightarrow> 'v \<Rightarrow> (graph_error, u8) result" where
  "conviction d vx = conviction_loop d [vx] [vx] 0"

section \<open>Work list searches\<close>

definition adj_rel :: "('v \<Rightarrow> 'v list option) \<Rightarrow> ('v \<times> 'v) set" where
  "adj_rel adj = {(u, v). \<exists>ns. adj u = Some ns \<and> v \<in> set ns}"

text \<open>
  What a search relies on: \<open>push\<close> adds exactly the neighbours not visited before to the work list
  and to the visited set, and one turn of \<open>run\<close> emits the first vertex of the work list and pushes
  its neighbours.
\<close>

locale worklist_search =
  fixes adj :: "'v \<Rightarrow> 'v list option"
    and push :: "'v list \<Rightarrow> 'v list \<Rightarrow> 'v hashset \<Rightarrow> 'v list \<times> 'v hashset"
    and run :: "'v list \<Rightarrow> 'v hashset \<Rightarrow> 'v list option"
  assumes finite_adj: "finite (dom adj)"
    and push_visited: "push ns wl vis = (wl', vis') \<Longrightarrow> set vis' = set vis \<union> set ns"
    and push_worklist: "push ns wl vis = (wl', vis') \<Longrightarrow> set wl' = set wl \<union> (set ns - set vis)"
    and push_distinct:
      "push ns wl vis = (wl', vis') \<Longrightarrow> distinct wl \<Longrightarrow> set wl \<subseteq> set vis \<Longrightarrow> distinct wl'"
    and run_Nil: "run [] vis = Some []"
    and run_Cons: "x \<in> set vis \<Longrightarrow> adj x = Some ns \<Longrightarrow> push ns wl vis = (wl', vis') \<Longrightarrow>
      run (x # wl) vis = map_option ((#) x) (run wl' vis')"
begin

lemma search_step:
  assumes "set (x # wl) \<subseteq> set vis" "distinct (x # wl)"
    and p: "push ns wl vis = (wl', vis')"
    and out: "distinct out" "set wl' \<subseteq> set out" "set out \<inter> (set vis' - set wl') = {}"
    and closed: "\<forall>y \<in> set out. \<forall>ms. adj y = Some ms \<longrightarrow> set ms \<subseteq> set out \<union> set vis'"
    and a: "adj x = Some ns"
  shows "distinct (x # out)" "set (x # wl) \<subseteq> set (x # out)"
    "set (x # out) \<inter> (set vis - set (x # wl)) = {}"
    "\<forall>y \<in> set (x # out). \<forall>ms. adj y = Some ms \<longrightarrow> set ms \<subseteq> set (x # out) \<union> set vis"
proof -
  note pv = push_visited[OF p] and pw = push_worklist[OF p]
  have "x \<in> set vis'" "x \<notin> set wl'" using assms(1,2) pv pw by auto
  with out show "distinct (x # out)" by auto
  show "set (x # wl) \<subseteq> set (x # out)" using pw out(2) by auto
  show "set (x # out) \<inter> (set vis - set (x # wl)) = {}" using pv pw out(3) by auto
  have ns: "set ns \<subseteq> set out \<union> set vis" using pw out(2) by auto
  have "set ms \<subseteq> set out \<union> set vis" if "y \<in> set out" "adj y = Some ms" for y ms
    using closed that pv ns by blast
  with a ns show "\<forall>y \<in> set (x # out). \<forall>ms. adj y = Some ms \<longrightarrow> set ms \<subseteq> set (x # out) \<union> set vis"
    by auto
qed

lemma search_measure:
  assumes "set (x # wl) \<subseteq> set vis" "distinct (x # wl)" "push ns wl vis = (wl', vis')"
    and "set ns \<subseteq> dom adj"
  shows "card (dom adj - set vis') + length wl' < card (dom adj - set vis) + length (x # wl)"
proof -
  note pv = push_visited[OF assms(3)] and pw = push_worklist[OF assms(3)]
  let ?new = "set ns - set vis"
  have "length wl' = card (set wl')"
    using push_distinct[OF assms(3)] assms(1,2) by (simp add: distinct_card)
  also have "\<dots> = card (set wl) + card ?new"
    unfolding pw using assms(1) by (intro card_Un_disjoint) auto
  finally have l: "length wl' = length wl + card ?new"
    using assms(2) by (simp add: distinct_card)
  have "dom adj - set vis' = (dom adj - set vis) - ?new" using pv by auto
  moreover have "?new \<subseteq> dom adj - set vis" using assms(4) by auto
  ultimately have "card (dom adj - set vis') = card (dom adj - set vis) - card ?new"
    "card ?new \<le> card (dom adj - set vis)"
    using finite_adj by (auto intro!: card_Diff_subset card_mono)
  with l show ?thesis by simp
qed

lemma search_invariant:
  assumes "set wl \<subseteq> set vis" "distinct wl"
    and "\<And>w x. w \<in> set wl \<Longrightarrow> (w, x) \<in> (adj_rel adj)\<^sup>* \<Longrightarrow> x \<in> dom adj"
  shows "\<exists>out. run wl vis = Some out \<and> distinct out \<and> set wl \<subseteq> set out \<and>
    set out \<inter> (set vis - set wl) = {} \<and>
    (\<forall>y \<in> set out. \<forall>ms. adj y = Some ms \<longrightarrow> set ms \<subseteq> set out \<union> set vis) \<and>
    (\<forall>y \<in> set out. \<exists>w \<in> set wl. (w, y) \<in> (adj_rel adj)\<^sup>*)"
  using assms
proof (induction "card (dom adj - set vis) + length wl" arbitrary: wl vis rule: less_induct)
  case less
  show ?case
  proof (cases wl)
    case Nil
    then show ?thesis by (simp add: run_Nil)
  next
    case (Cons x wl0)
    then obtain ns where a: "adj x = Some ns" using less.prems(3)[of x x] by auto
    obtain wl' vis' where p: "push ns wl0 vis = (wl', vis')" by fastforce
    note pv = push_visited[OF p] and pw = push_worklist[OF p]
    have edge: "(x, n) \<in> adj_rel adj" if "n \<in> set ns" for n
      using that a by (auto simp: adj_rel_def)
    have ns: "set ns \<subseteq> dom adj"
      using edge less.prems(3)[of x] Cons by (auto simp: subset_iff)
    have from_wl: "\<exists>w' \<in> set wl. (w', w) \<in> (adj_rel adj)\<^sup>*" if "w \<in> set wl'" for w
      using that pw Cons edge by auto
    have "card (dom adj - set vis') + length wl' < card (dom adj - set vis) + length wl"
      using search_measure[of x wl0 vis ns wl' vis'] p ns less.prems(1,2) Cons by simp
    moreover have "set wl' \<subseteq> set vis'" using less.prems(1) Cons pv pw by auto
    moreover have "distinct wl'" using push_distinct[OF p] less.prems(1,2) Cons by simp
    moreover have "x' \<in> dom adj" if "w \<in> set wl'" "(w, x') \<in> (adj_rel adj)\<^sup>*" for w x'
    proof -
      from from_wl[OF that(1)] obtain w' where "w' \<in> set wl" "(w', w) \<in> (adj_rel adj)\<^sup>*" ..
      with that(2) show ?thesis using less.prems(3)[of w' x'] rtrancl_trans[of w' w _ x'] by blast
    qed
    ultimately have "\<exists>out. run wl' vis' = Some out \<and> distinct out \<and> set wl' \<subseteq> set out \<and>
        set out \<inter> (set vis' - set wl') = {} \<and>
        (\<forall>y \<in> set out. \<forall>ms. adj y = Some ms \<longrightarrow> set ms \<subseteq> set out \<union> set vis') \<and>
        (\<forall>y \<in> set out. \<exists>w \<in> set wl'. (w, y) \<in> (adj_rel adj)\<^sup>*)"
      by (rule less.hyps)
    then obtain out where o: "run wl' vis' = Some out" "distinct out" "set wl' \<subseteq> set out"
      "set out \<inter> (set vis' - set wl') = {}"
      "\<forall>y \<in> set out. \<forall>ms. adj y = Some ms \<longrightarrow> set ms \<subseteq> set out \<union> set vis'"
      "\<forall>y \<in> set out. \<exists>w \<in> set wl'. (w, y) \<in> (adj_rel adj)\<^sup>*"
      by (elim exE conjE) (rule that)
    have st: "set (x # wl0) \<subseteq> set vis" "distinct (x # wl0)"
      using less.prems(1,2) unfolding Cons .
    have r: "run wl vis = Some (x # out)"
      using run_Cons[OF _ a p] o(1) less.prems(1) Cons by simp
    have from_out: "\<exists>w \<in> set wl. (w, y) \<in> (adj_rel adj)\<^sup>*" if y: "y \<in> set (x # out)" for y
    proof (cases "y = x")
      case False
      then obtain w where "w \<in> set wl'" "(w, y) \<in> (adj_rel adj)\<^sup>*" using o(6) y by auto
      then show ?thesis using from_wl[of w] by (meson rtrancl_trans)
    qed (use Cons in auto)
    then have "\<forall>y \<in> set (x # out). \<exists>w \<in> set wl. (w, y) \<in> (adj_rel adj)\<^sup>*" by blast
    with search_step[OF st p o(2-5) a] r show ?thesis
      unfolding Cons by (intro exI[of _ "x # out"] conjI)
  qed
qed

lemma search_reachable:
  assumes "\<And>x. (s, x) \<in> (adj_rel adj)\<^sup>* \<Longrightarrow> x \<in> dom adj"
  shows "\<exists>out. run [s] [s] = Some out \<and> distinct out \<and> set out = {x. (s, x) \<in> (adj_rel adj)\<^sup>*}"
proof -
  obtain out where o: "run [s] [s] = Some out" "distinct out" "s \<in> set out"
    "\<forall>y \<in> set out. \<forall>ms. adj y = Some ms \<longrightarrow> set ms \<subseteq> set out"
    "\<forall>y \<in> set out. (s, y) \<in> (adj_rel adj)\<^sup>*"
    using search_invariant[of "[s]" "[s]"] assms by (auto simp: insert_absorb)
  have "x \<in> set out" if "(s, x) \<in> (adj_rel adj)\<^sup>*" for x
    using that
  proof (induction rule: rtrancl_induct)
    case (step y z)
    then show ?case using o(4) by (fastforce simp: adj_rel_def)
  qed (rule o(3))
  with o show ?thesis by blast
qed

end

section \<open>The traversals are such searches\<close>

lemma push_front_spec:
  assumes "push_front ns wl vis = (wl', vis')"
  shows "set vis' = set vis \<union> set ns" "set wl' = set wl \<union> (set ns - set vis)"
    "distinct wl \<Longrightarrow> set wl \<subseteq> set vis \<Longrightarrow> distinct wl'"
proof -
  from assms have "set vis' = set vis \<union> set ns \<and> set wl' = set wl \<union> (set ns - set vis) \<and>
      (distinct wl \<longrightarrow> set wl \<subseteq> set vis \<longrightarrow> distinct wl')"
    by (induction ns wl vis rule: push_front.induct) (auto split: if_splits)
  then show "set vis' = set vis \<union> set ns" "set wl' = set wl \<union> (set ns - set vis)"
    "distinct wl \<Longrightarrow> set wl \<subseteq> set vis \<Longrightarrow> distinct wl'" by auto
qed

lemma push_back_spec:
  assumes "push_back ns wl vis = (wl', vis')"
  shows "set vis' = set vis \<union> set ns" "set wl' = set wl \<union> (set ns - set vis)"
    "distinct wl \<Longrightarrow> set wl \<subseteq> set vis \<Longrightarrow> distinct wl'"
proof -
  from assms have "set vis' = set vis \<union> set ns \<and> set wl' = set wl \<union> (set ns - set vis) \<and>
      (distinct wl \<longrightarrow> set wl \<subseteq> set vis \<longrightarrow> distinct wl')"
    by (induction ns wl vis rule: push_back.induct) (auto split: if_splits)
  then show "set vis' = set vis \<union> set ns" "set wl' = set wl \<union> (set ns - set vis)"
    "distinct wl \<Longrightarrow> set wl \<subseteq> set vis \<Longrightarrow> distinct wl'" by auto
qed

lemma bfs_loop_acc:
  "bfs_loop d q vis (pre @ res) =
     (case bfs_loop d q vis res of Ok r \<Rightarrow> Ok (pre @ r) | Err e \<Rightarrow> Err e | Panic \<Rightarrow> Panic)"
  by (induction d q vis res rule: bfs_loop.induct) (auto split: option.splits prod.splits)

definition bfs_result :: "'v dag \<Rightarrow> 'v list \<Rightarrow> 'v hashset \<Rightarrow> 'v list option" where
  "bfs_result d q vis = (case bfs_loop d q vis [] of Ok r \<Rightarrow> Some r | _ \<Rightarrow> None)"

interpretation dfs_search: worklist_search "hm_get (dag_g d)" push_front "\<lambda>st vis. Some (dfs_run d (st, vis))"
  for d :: "'v dag"
proof
  show "Some (dfs_run d (x # wl, vis)) = map_option ((#) x) (Some (dfs_run d (wl', vis')))"
    if "x \<in> set vis" "hm_get (dag_g d) x = Some ns" "push_front ns wl vis = (wl', vis')"
    for x vis ns wl wl' vis'
    using that by (subst dfs_run.simps) (simp add: Let_def hs_insert_def)
  show "Some (dfs_run d ([], vis)) = Some []" for vis
    by (subst dfs_run.simps) simp
qed (auto simp: push_front_spec finite_dom_map_of)

interpretation bfs_search: worklist_search "hm_get (dag_g d)" push_back "bfs_result d"
  for d :: "'v dag"
proof
  show "bfs_result d (x # wl) vis = map_option ((#) x) (bfs_result d wl' vis')"
    if "x \<in> set vis" "hm_get (dag_g d) x = Some ns" "push_back ns wl vis = (wl', vis')"
    for x vis ns wl wl' vis'
    using that bfs_loop_acc[of d wl' vis' "[x]" "[]"]
    by (simp add: bfs_result_def split: result.splits)
  show "bfs_result d [] vis = Some []" for vis
    by (simp add: bfs_result_def)
qed (auto simp: push_back_spec finite_dom_map_of)

lemma adj_rel_g: "adj_rel (hm_get (dag_g d)) = edge_rel d"
  by (force simp: adj_rel_def edge_rel_def parents_def split: option.splits)

lemma ancestors_in_graph:
  assumes "dag_wf d" "v \<in> vertices d" "(v, u) \<in> (edge_rel d)\<^sup>*"
  shows "u \<in> vertices d"
  using assms(3,2) dag_wfD(7)[OF assms(1)]
  by (induction rule: rtrancl_induct) (auto simp: edge_rel_def)

lemma reachable_dom:
  assumes "dag_wf d" "v \<in> vertices d" "(v, u) \<in> (edge_rel d)\<^sup>*"
  shows "u \<in> dom (hm_get (dag_g d))"
  using ancestors_in_graph[OF assms] by (simp add: dom_map_of_conv_image_fst)

lemma dfs_start: "dfs d v = dfs_run d ([v], [v])"
  unfolding dfs_def by (subst (1 2) dfs_run.simps) (simp add: hs_insert_def)

lemma dfs_spec:
  assumes "dag_wf d" "v \<in> vertices d"
  shows "distinct (dfs d v)" "set (dfs d v) = {u. (v, u) \<in> (edge_rel d)\<^sup>*}"
  using dfs_search.search_reachable[of v d] reachable_dom[OF assms]
  by (simp_all add: adj_rel_g dfs_start)

lemma bfs_spec:
  assumes "dag_wf d" "v \<in> vertices d"
  shows "\<exists>r. bfs d v = Ok r \<and> distinct r \<and> set r = {u. (v, u) \<in> (edge_rel d)\<^sup>*}"
  using bfs_search.search_reachable[of v d] reachable_dom[OF assms]
  by (auto simp: adj_rel_g bfs_def bfs_result_def split: result.splits)

lemma dfs_missing: "v \<notin> vertices d \<Longrightarrow> dfs d v = []"
  by (simp add: dfs_def dfs_run.simps hm_get_None_iff[THEN iffD2] Let_def)

section \<open>Conviction\<close>

lemma parents_invert [simp]: "parents (invert d) v = children d v"
  by (simp add: parents_def children_def invert_def)

lemma children_invert [simp]: "children (invert d) v = parents d v"
  by (simp add: parents_def children_def invert_def)

lemma edge_rel_invert: "dag_wf d \<Longrightarrow> edge_rel (invert d) = (edge_rel d)\<inverse>"
  using dag_wfD(8) by (fastforce simp: edge_rel_def)

lemma dag_wf_invert:
  assumes "dag_wf d"
  shows "dag_wf (invert d)"
proof -
  note w = dag_wfD[OF assms]
  have "vertices (invert d) = vertices d" "hm_keys (dag_inv (invert d)) = vertices d"
    "dag_chits (invert d) = dag_chits d" "hm_wf (dag_g (invert d))" "hm_wf (dag_inv (invert d))"
    using w(1,2,4) by (simp_all add: invert_def)
  moreover have "acyclic (edge_rel (invert d))"
    using w(11) edge_rel_invert[OF assms] by (simp add: acyclic_converse)
  ultimately show ?thesis
    unfolding dag_wf_def using w children_subset[OF assms] by simp
qed

text \<open>Adding up the chits of a list of vertices the way the loop does.\<close>

fun add_chits :: "'v dag \<Rightarrow> 'v list \<Rightarrow> u8 \<Rightarrow> (graph_error, u8) result" where
  "add_chits d [] acc = Ok acc"
| "add_chits d (v # vs) acc =
     (case get_chit d v of
        Ok chit \<Rightarrow> if unat acc + unat chit < 256 then add_chits d vs (acc + chit) else Err ChitOverflow
      | Err e \<Rightarrow> Err e | Panic \<Rightarrow> Panic)"

lemma conviction_loop_bfs:
  "bfs_loop (invert d) q vis res = Ok (res @ out) \<Longrightarrow> conviction_loop d q vis acc = add_chits d out acc"
proof (induction d q vis acc arbitrary: res out rule: conviction_loop.induct)
  case (2 d elt queue visited acc)
  obtain adj where a: "hm_get (dag_inv d) elt = Some adj"
    using "2.prems" by (auto simp: invert_def split: option.splits)
  obtain q' vis' where p: "push_back adj queue visited = (q', vis')" by fastforce
  have "bfs_loop (invert d) q' vis' (res @ [elt]) = Ok (res @ out)"
    using "2.prems" a p by (simp add: invert_def)
  moreover obtain out' where "bfs_loop (invert d) q' vis' [] = Ok out'" "out = elt # out'"
    using bfs_loop_acc[of "invert d" q' vis' "res @ [elt]" "[]"] calculation
    by (auto split: result.splits)
  ultimately show ?case
    using "2.IH"[OF _ _ a p[symmetric], of _ "res @ [elt]" out'] a p
    by (auto split: result.splits)
qed simp

text \<open>The chit of a vertex as a number.\<close>

definition chit_of :: "'v dag \<Rightarrow> 'v \<Rightarrow> nat" where
  "chit_of d v = (case hm_get (dag_chits d) v of Some c \<Rightarrow> unat c | None \<Rightarrow> 0)"

lemma add_chits_sum:
  assumes "set vs \<subseteq> hm_keys (dag_chits d)"
  shows "add_chits d vs acc =
    (let total = unat acc + sum_list (map (chit_of d) vs) in
     if total < 256 then Ok (of_nat total) else Err ChitOverflow)"
  using assms
proof (induction vs arbitrary: acc)
  case Nil
  then show ?case using unat_u8_less[of acc] by simp
next
  case (Cons v vs)
  then have "v \<in> hm_keys (dag_chits d)" by simp
  from hm_keys_get[OF this] obtain c where c: "hm_get (dag_chits d) v = Some c" ..
  show ?case
  proof (cases "unat acc + unat c < 256")
    case True
    then have s: "unat (acc + c) = unat acc + unat c" by (intro unat_add_no_overflow) simp
    have "add_chits d (v # vs) acc = add_chits d vs (acc + c)"
      using True c by (simp add: get_chit_def)
    also have "\<dots> = (let total = unat (acc + c) + sum_list (map (chit_of d) vs) in
        if total < 256 then Ok (of_nat total) else Err ChitOverflow)"
      by (rule Cons.IH) (use Cons.prems in simp)
    also have "unat (acc + c) + sum_list (map (chit_of d) vs) =
        unat acc + sum_list (map (chit_of d) (v # vs))"
      using s c by (simp add: chit_of_def)
    finally show ?thesis .
  next
    case False
    with c show ?thesis by (simp add: get_chit_def chit_of_def Let_def)
  qed
qed

lemma conviction_spec:
  assumes "dag_wf d" "v \<in> vertices d"
  shows "conviction d v =
    (let total = (\<Sum>u \<in> {u. (u, v) \<in> (edge_rel d)\<^sup>*}. chit_of d u) in
     if total < 256 then Ok (of_nat total) else Err ChitOverflow)"
proof -
  have vi: "v \<in> vertices (invert d)"
    using assms dag_wfD(4) by (fastforce simp: invert_def)
  obtain r where r: "bfs (invert d) v = Ok r" "distinct r"
    "set r = {u. (v, u) \<in> ((edge_rel d)\<inverse>)\<^sup>*}"
    using bfs_spec[OF dag_wf_invert[OF assms(1)] vi] edge_rel_invert[OF assms(1)] by auto
  then have prog: "set r = {u. (u, v) \<in> (edge_rel d)\<^sup>*}" by (simp add: rtrancl_converse)
  have "conviction d v = add_chits d r 0"
    using conviction_loop_bfs[of d "[v]" "[v]" "[]" r 0] r(1) by (simp add: conviction_def bfs_def)
  moreover have "set r \<subseteq> hm_keys (dag_chits d)"
  proof
    fix u assume "u \<in> set r"
    then have "(v, u) \<in> (edge_rel (invert d))\<^sup>*"
      using r(3) edge_rel_invert[OF assms(1)] by simp
    then have "u \<in> vertices (invert d)"
      using ancestors_in_graph[OF dag_wf_invert[OF assms(1)] vi] by blast
    then show "u \<in> hm_keys (dag_chits d)"
      using dag_wfD(4,5)[OF assms(1)] by (auto simp: invert_def)
  qed
  ultimately show ?thesis
    using r(2) prog by (simp add: add_chits_sum sum_list_distinct_conv_sum_set)
qed

section \<open>Properties\<close>

text \<open>
  The depth first iterator visits a vertex and all its ancestors, each exactly once, and
  starts with the vertex itself.
\<close>

theorem dfs_visits_ancestors:
  assumes "dag_wf d" "v \<in> vertices d"
  shows "distinct (dfs d v) \<and> set (dfs d v) = {u. (v, u) \<in> (edge_rel d)\<^sup>*} \<and> hd (dfs d v) = v"
proof -
  obtain ps where "hm_get (dag_g d) v = Some ps" using hm_keys_get[OF assms(2)] by auto
  then have "hd (dfs d v) = v" by (simp add: dfs_def dfs_run.simps Let_def split: prod.splits)
  with dfs_spec[OF assms] show ?thesis by simp
qed

theorem dfs_visits_ancestors_witness:
  "distinct (dfs example_dag 3) \<and> hd (dfs example_dag 3) = 3"
  using dfs_visits_ancestors[OF example_dag_wf, of 3] by (simp add: example_dag_def)

text \<open>
  C28: The breadth first search of a well formed graph never panics on a vertex of the graph and
  visits the same vertices as the depth first iterator, each once.
\<close>

theorem bfs_agrees_with_dfs:
  assumes "dag_wf d" "v \<in> vertices d"
  shows "\<exists>r. bfs d v = Ok r \<and> mset r = mset (dfs d v)"
  using bfs_spec[OF assms] dfs_spec[OF assms] by (metis set_eq_iff_mset_eq_distinct)

theorem bfs_agrees_with_dfs_witness: "\<exists>r. bfs example_dag 3 = Ok r"
  using bfs_agrees_with_dfs[OF example_dag_wf, of 3] by (auto simp: example_dag_def)

text \<open>
  C27: The conviction of a vertex is the sum of the chits of the vertex and all its descendants,
  each counted once; it is \<open>ChitOverflow\<close> exactly when that sum does not fit a byte, and the search
  never panics.
\<close>

theorem conviction_is_chit_sum:
  assumes "dag_wf d" "v \<in> vertices d"
  shows "conviction d v =
    (let total = (\<Sum>u \<in> {u. (u, v) \<in> (edge_rel d)\<^sup>*}. chit_of d u) in
     if total < 256 then Ok (of_nat total) else Err ChitOverflow)"
  by (rule conviction_spec[OF assms])

theorem conviction_is_chit_sum_witness:
  "conviction example_dag 0 = (let total = (\<Sum>u \<in> {u. (u, 0) \<in> (edge_rel example_dag)\<^sup>*}.
     chit_of example_dag u) in if total < 256 then Ok (of_nat total) else Err ChitOverflow)"
  using conviction_is_chit_sum[OF example_dag_wf, of 0] by (simp add: example_dag_def)

end
