(* ===== verification/Dag_Topo.thy ===== *)
theory Dag_Topo
  imports Dag_Search
begin

text \<open>
  The topological sort of \<^verbatim>\<open>src/graph/dag.rs\<close> (Kahn's algorithm) and the ordered
  ancestors of a vertex. On a graph whose two adjacency maps disagree the loop need not end, so it
  is a partial function whose value is \<open>None\<close> when it runs forever; on a well formed graph it is
  shown to return.
\<close>

section \<open>Kahn's algorithm\<close>

text \<open>
  The inner loop over the children of the vertex just emitted: the vertex is taken out of their
  remaining parents, and a child with none left is queued.
\<close>

fun relax_children ::
  "'v \<Rightarrow> 'v list \<Rightarrow> ('v, 'v list) hashmap \<Rightarrow> 'v list
   \<Rightarrow> (graph_error, ('v, 'v list) hashmap \<times> 'v list) result" where
  "relax_children vx [] m queue = Ok (m, queue)"
| "relax_children vx (edge # edges) m queue =
     (case hm_get m edge of
        None \<Rightarrow> Panic
      | Some ps \<Rightarrow>
          (let ps' = filter (\<lambda>e. e \<noteq> vx) ps in
           relax_children vx edges (hm_insert edge ps' m)
             (if ps' = [] then queue @ [edge] else queue)))"

partial_function (option) kahn ::
  "('v, 'v list) hashmap \<Rightarrow> ('v, 'v list) hashmap \<Rightarrow> 'v list \<Rightarrow> 'v list
   \<Rightarrow> (graph_error, 'v list) result option" where
  "kahn adj m queue res =
     (case queue of
        [] \<Rightarrow> Some (Ok res)
      | vx # queue' \<Rightarrow>
          (case hm_get adj vx of
             None \<Rightarrow> Some Panic
           | Some edges \<Rightarrow>
               (case relax_children vx edges m queue' of
                  Ok (m', queue'') \<Rightarrow> kahn adj m' queue'' (res @ [vx])
                | Err e \<Rightarrow> Some (Err e)
                | Panic \<Rightarrow> Some Panic)))"

declare kahn.simps [code]

definition topological_sort :: "'v dag \<Rightarrow> (graph_error, 'v list) result option" where
  "topological_sort d =
     (let dag = invert d in kahn (dag_g dag) (dag_inv dag) (leaves dag) [])"

definition get_ancestors :: "'v dag \<Rightarrow> 'v \<Rightarrow> (graph_error, 'v list) result option" where
  "get_ancestors d v =
     (case topological_sort d of
        None \<Rightarrow> None
      | Some (Ok order) \<Rightarrow>
          (let ancestors = hs_remove v (hs_extend [] (dfs d v)) in
           Some (Ok (filter (\<lambda>e. e \<in> set ancestors) order)))
      | Some r \<Rightarrow> Some r)"

section \<open>The inner loop\<close>

lemma relax_children_spec:
  assumes "set cs \<subseteq> hm_keys m" "distinct cs"
  shows "\<exists>m'. relax_children vx cs m queue =
      Ok (m', queue @ filter (\<lambda>c. filter (\<lambda>e. e \<noteq> vx) (the (hm_get m c)) = []) cs) \<and>
    hm_keys m' = hm_keys m \<and>
    (\<forall>w. hm_get m' w = (if w \<in> set cs then map_option (filter (\<lambda>e. e \<noteq> vx)) (hm_get m w)
                         else hm_get m w))"
  using assms
proof (induction cs arbitrary: m queue)
  case (Cons c cs)
  then have "c \<in> hm_keys m" by simp
  from hm_keys_get[OF this] obtain ps where ps: "hm_get m c = Some ps" ..
  let ?ps = "filter (\<lambda>e. e \<noteq> vx) ps"
  let ?m = "hm_insert c ?ps m" and ?q = "if ?ps = [] then queue @ [c] else queue"
  have keys: "hm_keys ?m = hm_keys m" using \<open>c \<in> hm_keys m\<close> by auto
  have "set cs \<subseteq> hm_keys ?m" "distinct cs" using Cons.prems by auto
  from Cons.IH[OF this, of ?q] obtain m' where m':
    "relax_children vx cs ?m ?q =
      Ok (m', ?q @ filter (\<lambda>c. filter (\<lambda>e. e \<noteq> vx) (the (hm_get ?m c)) = []) cs)"
    "hm_keys m' = hm_keys ?m"
    "\<forall>w. hm_get m' w = (if w \<in> set cs then map_option (filter (\<lambda>e. e \<noteq> vx)) (hm_get ?m w)
                         else hm_get ?m w)"
    by (elim exE conjE) (rule that)
  have "filter (\<lambda>c. filter (\<lambda>e. e \<noteq> vx) (the (hm_get ?m c)) = []) cs =
        filter (\<lambda>c. filter (\<lambda>e. e \<noteq> vx) (the (hm_get m c)) = []) cs"
    using Cons.prems(2) by (intro filter_cong) auto
  then have "relax_children vx (c # cs) m queue =
      Ok (m', queue @ filter (\<lambda>c. filter (\<lambda>e. e \<noteq> vx) (the (hm_get m c)) = []) (c # cs))"
    using m'(1) ps by (auto simp: Let_def)
  moreover have "\<forall>w. hm_get m' w =
      (if w \<in> set (c # cs) then map_option (filter (\<lambda>e. e \<noteq> vx)) (hm_get m w) else hm_get m w)"
    using m'(3) Cons.prems(2) ps by simp
  ultimately show ?case using m'(2) keys by (intro exI[of _ m']) simp
qed auto

section \<open>The invariant of the outer loop\<close>

text \<open>
  The remaining parents of a vertex are those not yet emitted; what is emitted or queued are the
  vertices all of whose parents are emitted; nothing is emitted or queued twice; and each
  emitted vertex comes after its parents.
\<close>

definition parents_first :: "'v dag \<Rightarrow> 'v list \<Rightarrow> bool" where
  "parents_first d xs \<longleftrightarrow> (\<forall>i < length xs. set (parents d (xs ! i)) \<subseteq> set (take i xs))"

definition kahn_inv :: "'v dag \<Rightarrow> ('v, 'v list) hashmap \<Rightarrow> 'v list \<Rightarrow> 'v list \<Rightarrow> bool" where
  "kahn_inv d m queue res \<longleftrightarrow>
     hm_keys m = vertices d \<and>
     (\<forall>v \<in> vertices d. hm_get m v = Some (filter (\<lambda>p. p \<notin> set res) (parents d v))) \<and>
     distinct (res @ queue) \<and>
     set (res @ queue) = {v \<in> vertices d. set (parents d v) \<subseteq> set res} \<and>
     parents_first d res"

lemma parents_first_snoc:
  "parents_first d (xs @ [x]) \<longleftrightarrow> parents_first d xs \<and> set (parents d x) \<subseteq> set xs"
  by (auto simp: parents_first_def nth_append less_Suc_eq)

lemma kahn_inv_step:
  assumes wf: "dag_wf d" and inv: "kahn_inv d m (vx # queue) res"
  shows "\<exists>m' queue'. relax_children vx (children d vx) m queue = Ok (m', queue') \<and>
                     kahn_inv d m' queue' (res @ [vx])"
proof -
  note w = dag_wfD[OF wf]
  have keys: "hm_keys m = vertices d"
    and rem: "\<And>v. v \<in> vertices d \<Longrightarrow> hm_get m v = Some (filter (\<lambda>p. p \<notin> set res) (parents d v))"
    and dist: "distinct (res @ vx # queue)"
    and ready: "set (res @ vx # queue) = {v \<in> vertices d. set (parents d v) \<subseteq> set res}"
    and first: "parents_first d res"
    using inv by (auto simp: kahn_inv_def)
  let ?left = "\<lambda>v. filter (\<lambda>p. p \<notin> set (res @ [vx])) (parents d v)"
  let ?new = "filter (\<lambda>c. ?left c = []) (children d vx)"
  have sub: "set (children d vx) \<subseteq> hm_keys m" using children_subset[OF wf] keys by simp
  have the_m: "filter (\<lambda>e. e \<noteq> vx) (the (hm_get m c)) = ?left c" if "c \<in> vertices d" for c
    using rem[OF that] by (simp add: conj_commute)
  have upd: "filter (\<lambda>c. filter (\<lambda>e. e \<noteq> vx) (the (hm_get m c)) = []) (children d vx) = ?new"
  proof (rule filter_cong[OF refl])
    fix c assume "c \<in> set (children d vx)"
    then have "c \<in> vertices d" using children_subset[OF wf] by blast
    then show "(filter (\<lambda>e. e \<noteq> vx) (the (hm_get m c)) = []) = (?left c = [])"
      by (simp only: the_m)
  qed
  from relax_children_spec[OF sub w(10), of vx queue] obtain m' where m':
    "relax_children vx (children d vx) m queue = Ok (m', queue @ ?new)" "hm_keys m' = hm_keys m"
    "\<forall>w. hm_get m' w = (if w \<in> set (children d vx)
        then map_option (filter (\<lambda>e. e \<noteq> vx)) (hm_get m w) else hm_get m w)"
    unfolding upd by (elim exE conjE) (rule that)
  have rem': "hm_get m' v = Some (?left v)" if v: "v \<in> vertices d" for v
  proof (cases "v \<in> set (children d vx)")
    case True
    then show ?thesis using m'(3) rem[OF v] the_m[OF v] by simp
  next
    case False
    then have "vx \<notin> set (parents d v)" using w(8) by blast
    then have "?left v = filter (\<lambda>p. p \<notin> set res) (parents d v)" by (intro filter_cong) auto
    then show ?thesis using False m'(3) rem[OF v] by simp
  qed
  have vx: "vx \<in> vertices d" "set (parents d vx) \<subseteq> set res" "vx \<notin> set res"
    using ready dist by auto
  have new: "set ?new = {v \<in> vertices d. vx \<in> set (parents d v) \<and>
      set (parents d v) \<subseteq> insert vx (set res)}"
    using w(8) children_subset[OF wf, of vx] by (auto simp: filter_empty_conv)
  have "set ?new \<inter> set (res @ vx # queue) = {}" unfolding new ready using vx(3) by auto
  then have "distinct ((res @ [vx]) @ queue @ ?new)" using dist w(10)[of vx] by auto
  moreover have "set ((res @ [vx]) @ queue @ ?new) =
      {v \<in> vertices d. set (parents d v) \<subseteq> set (res @ [vx])}"
  proof -
    have "set ((res @ [vx]) @ queue @ ?new) = set (res @ vx # queue) \<union> set ?new" by auto
    then show ?thesis unfolding new ready by auto
  qed
  moreover have "parents_first d (res @ [vx])" using first vx(2) by (simp add: parents_first_snoc)
  ultimately show ?thesis
    using m'(1,2) rem' keys unfolding kahn_inv_def by (intro exI[of _ m'] exI[of _ "queue @ ?new"]) simp
qed

section \<open>The sort returns\<close>

lemma kahn_total:
  assumes "dag_wf d" "kahn_inv d m queue res"
  shows "\<exists>m' out. kahn (dag_inv d) m queue res = Some (Ok out) \<and> kahn_inv d m' [] out"
  using assms(2)
proof (induction "card (vertices d) - length res" arbitrary: m queue res rule: less_induct)
  case less
  show ?case
  proof (cases queue)
    case Nil
    then show ?thesis using less.prems by (auto simp: kahn.simps)
  next
    case (Cons vx q)
    with less.prems have vx: "vx \<in> vertices d" and r: "set res \<subseteq> vertices d" "distinct (vx # res)"
      by (auto simp: kahn_inv_def)
    from kahn_inv_step[OF assms(1) less.prems[unfolded Cons]] obtain m' q' where s:
      "relax_children vx (children d vx) m q = Ok (m', q')" "kahn_inv d m' q' (res @ [vx])"
      by (elim exE conjE) (rule that)
    have "length (vx # res) \<le> card (vertices d)"
      using card_mono[of "vertices d" "set (vx # res)"] vx r distinct_card[OF r(2)] by simp
    then have "card (vertices d) - length (res @ [vx]) < card (vertices d) - length res" by simp
    from less.hyps[OF this s(2)] show ?thesis
      using Cons s(1) get_children[of vx d] vx dag_wfD(4)[OF assms(1)]
      by (subst kahn.simps) simp
  qed
qed

lemma kahn_inv_start:
  assumes "dag_wf d"
  shows "kahn_inv d (dag_g d) (leaves (invert d)) []"
proof -
  note w = dag_wfD[OF assms]
  have "set (leaves (invert d)) = {v \<in> vertices (invert d). parents d v = []}"
    using set_leaves[OF dag_wf_invert[OF assms]] by simp
  moreover have "vertices (invert d) = vertices d" using w(4) by (simp add: invert_def)
  moreover have "distinct (leaves (invert d))"
    using w(1) by (simp add: leaves_def invert_def distinct_map_filter)
  ultimately show ?thesis
    by (auto simp: kahn_inv_def parents_first_def get_parents)
qed

text \<open>
  When the queue is empty every vertex has been emitted: otherwise an acyclic graph would have a
  vertex left whose parents are all emitted, and such a vertex is never left.
\<close>

lemma kahn_inv_complete:
  assumes wf: "dag_wf d" and inv: "kahn_inv d m [] out"
  shows "set out = vertices d"
proof (rule ccontr)
  have out: "set out = {v \<in> vertices d. set (parents d v) \<subseteq> set out}"
    using inv by (simp add: kahn_inv_def)
  assume "set out \<noteq> vertices d"
  then have ne: "vertices d - set out \<noteq> {}" using out by auto
  have "edge_rel d \<subseteq> vertices d \<times> vertices d"
  proof (rule subrelI)
    fix u v assume "(u, v) \<in> edge_rel d"
    then have "v \<in> set (parents d u)" by (simp add: edge_rel_def)
    then show "(u, v) \<in> vertices d \<times> vertices d"
      using dag_wfD(7)[OF wf, of u] parents_outside[of u d] by (cases "u \<in> vertices d") auto
  qed
  then have "finite (edge_rel d)" by (rule finite_subset) simp
  then have "wf ((edge_rel d)\<inverse>)" using dag_wfD(11)[OF wf] by (rule finite_acyclic_wf_converse)
  from wfE_min'[OF this ne] obtain z where z: "z \<in> vertices d - set out"
    "\<And>y. (y, z) \<in> (edge_rel d)\<inverse> \<Longrightarrow> y \<notin> vertices d - set out" by blast
  have "set (parents d z) \<subseteq> set out"
    using z(2) dag_wfD(7)[OF wf, of z] unfolding edge_rel_def by blast
  then show False using z(1) out by auto
qed

lemma topological_sort_spec:
  assumes "dag_wf d"
  shows "\<exists>order. topological_sort d = Some (Ok order) \<and> distinct order \<and>
                 set order = vertices d \<and> parents_first d order"
proof -
  from kahn_total[OF assms kahn_inv_start[OF assms]] obtain m' out where
    "kahn (dag_inv d) (dag_g d) (leaves (invert d)) [] = Some (Ok out)" "kahn_inv d m' [] out"
    by (elim exE conjE) (rule that)
  moreover from this(2) have "distinct out" "parents_first d out"
    by (auto simp only: kahn_inv_def append_Nil2)
  moreover have "set out = vertices d"
    using assms \<open>kahn_inv d m' [] out\<close> by (rule kahn_inv_complete)
  ultimately show ?thesis by (auto simp: topological_sort_def invert_def)
qed

section \<open>Properties\<close>

text \<open>
  C2: The topological sort of a well formed graph returns, contains every vertex exactly once, and
  puts every vertex after all of its parents.
\<close>

theorem topological_sort_correct:
  assumes "dag_wf d"
  shows "\<exists>order. topological_sort d = Some (Ok order) \<and> distinct order \<and>
    set order = vertices d \<and> (\<forall>i < length order. set (parents d (order ! i)) \<subseteq> set (take i order))"
  using topological_sort_spec[OF assms] by (auto simp: parents_first_def)

theorem topological_sort_correct_witness:
  "\<exists>order. topological_sort example_dag = Some (Ok order) \<and> set order = {0, 1, 2, 3}"
  using topological_sort_correct[OF example_dag_wf] by (auto simp: example_dag_def)

lemma parents_first_filter:
  assumes "parents_first d xs" "distinct xs" "\<And>v p. v \<in> A \<Longrightarrow> p \<in> set (parents d v) \<Longrightarrow> p \<in> A"
    and "j < length (filter (\<lambda>x. x \<in> A) xs)"
  shows "set (parents d (filter (\<lambda>x. x \<in> A) xs ! j)) \<subseteq> set (take j (filter (\<lambda>x. x \<in> A) xs))"
  using assms
proof (induction xs rule: rev_induct)
  case (snoc x xs)
  show ?case
  proof (cases "j < length (filter (\<lambda>x. x \<in> A) xs)")
    case True
    with snoc show ?thesis by (auto simp: parents_first_snoc nth_append)
  next
    case False
    with snoc.prems(4) have "x \<in> A" and j: "j = length (filter (\<lambda>x. x \<in> A) xs)"
      by (auto split: if_splits)
    have "set (parents d x) \<subseteq> set xs" using snoc.prems(1) by (simp add: parents_first_snoc)
    with snoc.prems(3)[OF \<open>x \<in> A\<close>] \<open>x \<in> A\<close> j show ?thesis by auto
  qed
qed simp

text \<open>
  The ordered ancestors of a vertex are exactly its proper ancestors, each once, and every
  ancestor comes after its own parents; the call returns on every well formed graph.
\<close>

theorem get_ancestors_correct:
  assumes "dag_wf d" "v \<in> vertices d"
  shows "\<exists>as. get_ancestors d v = Some (Ok as) \<and> distinct as \<and>
    set as = {u. (v, u) \<in> (edge_rel d)\<^sup>+} \<and>
    (\<forall>i < length as. set (parents d (as ! i)) \<subseteq> set (take i as))"
proof -
  obtain order where o: "topological_sort d = Some (Ok order)" "distinct order"
    "set order = vertices d" "parents_first d order"
    using topological_sort_spec[OF assms(1)] by blast
  let ?A = "{u. (v, u) \<in> (edge_rel d)\<^sup>+}"
  have acyc: "(v, v) \<notin> (edge_rel d)\<^sup>+" using dag_wfD(11)[OF assms(1)] by (simp add: acyclic_def)
  then have A: "set (hs_remove v (hs_extend [] (dfs d v))) = ?A"
    by (auto simp: dfs_spec[OF assms] rtrancl_eq_or_trancl)
  have sub: "?A \<subseteq> set order"
    using ancestors_in_graph[OF assms] o(3) by (blast intro: trancl_into_rtrancl)
  have run: "get_ancestors d v = Some (Ok (filter (\<lambda>e. e \<in> ?A) order))"
    unfolding get_ancestors_def o(1) Let_def option.case result.case A ..
  have "set (parents d (filter (\<lambda>e. e \<in> ?A) order ! i)) \<subseteq> set (take i (filter (\<lambda>e. e \<in> ?A) order))"
    if "i < length (filter (\<lambda>e. e \<in> ?A) order)" for i
    by (rule parents_first_filter[OF o(4,2) _ that])
       (auto simp: edge_rel_def intro: trancl_into_trancl)
  then show ?thesis
    unfolding run using o(2) sub by (intro exI[of _ "filter (\<lambda>e. e \<in> ?A) order"] conjI) auto
qed

theorem get_ancestors_correct_witness:
  "\<exists>as. get_ancestors example_dag 3 = Some (Ok as) \<and> distinct as"
  using get_ancestors_correct[OF example_dag_wf, of 3] by (auto simp: example_dag_def)

section \<open>A failed insertion\<close>

definition chain_dag :: "nat dag" where
  "chain_dag = \<lparr>dag_g = [(0, []), (1, [0])], dag_inv = [(0, [1]), (1, [])],
                dag_chits = [(0, 0), (1, 0)]\<rparr>"

definition in_cycle :: "(nat, nat list) hashmap \<Rightarrow> nat list \<Rightarrow> bool" where
  "in_cycle m queue \<longleftrightarrow> (queue = [0] \<or> queue = [1]) \<and> hm_get m 0 = Some [] \<and>
     (hm_get m 1 = Some [0] \<or> hm_get m 1 = Some [])"

lemma kahn_cycle:
  assumes "kahn adj m queue res = Some y"
  shows "adj = [(0, [1]), (1, [0])] \<longrightarrow> \<not> in_cycle m queue"
proof (rule kahn.raw_induct[OF _ assms,
      where P = "\<lambda>adj m queue res y. adj = [(0, [1]), (1, [0])] \<longrightarrow> \<not> in_cycle m queue"],
    intro impI notI)
  fix kahn adj m queue res y
  assume IH: "\<And>adj m queue res y. kahn adj m queue res = Some y \<Longrightarrow>
      adj = [(0, [1]), (1, [0])] \<longrightarrow> \<not> in_cycle m queue"
    and body: "(case queue of [] \<Rightarrow> Some (Ok res) | vx # queue' \<Rightarrow> (case hm_get adj vx of
        None \<Rightarrow> Some Panic | Some edges \<Rightarrow> (case relax_children vx edges m queue' of
          Ok (m', queue'') \<Rightarrow> kahn adj m' queue'' (res @ [vx])
        | Err e \<Rightarrow> Some (Err e) | Panic \<Rightarrow> Some Panic))) = Some y"
    and adj: "adj = [(0, [1]), (1, [0])]" and cyc: "in_cycle m queue"
  from cyc have "queue = [0] \<or> queue = [1]" by (simp add: in_cycle_def)
  then show False
  proof
    assume "queue = [0]"
    with body adj cyc have "kahn adj (hm_insert 1 [] m) [1] (res @ [0]) = Some y"
      by (auto simp: in_cycle_def Let_def)
    from IH[OF this] adj cyc show False by (auto simp: in_cycle_def)
  next
    assume "queue = [1]"
    with body adj cyc have "kahn adj (hm_insert 0 [] m) [0] (res @ [1]) = Some y"
      by (auto simp: in_cycle_def Let_def)
    from IH[OF this] adj cyc show False by (auto simp: in_cycle_def)
  qed
qed

text \<open>
  An insertion that fails is not undone. Inserting an existing vertex below its own child is
  refused with \<open>VertexExists\<close>, but the reversed edge it has already added stays, and from then on
  the topological sort never returns.
\<close>

theorem failed_insert_blocks_sort:
  "fst (insert_vx chain_dag 0 [1]) = Err VertexExists \<and>
   topological_sort chain_dag \<noteq> None \<and>
   topological_sort (snd (insert_vx chain_dag 0 [1])) = None"
proof -
  let ?d = "snd (insert_vx chain_dag 0 [1])"
  have d: "insert_vx chain_dag 0 [1] = (Err VertexExists,
      \<lparr>dag_g = [(0, []), (1, [0])], dag_inv = [(0, [1]), (1, [0])], dag_chits = [(0, 0), (1, 0)]\<rparr>)"
    by (simp add: insert_vx_def chain_dag_def Let_def)
  have "topological_sort ?d = kahn [(0, [1]), (1, [0])] [(0, []), (1, [0])] [0] []"
    unfolding d by (simp add: topological_sort_def invert_def leaves_def)
  moreover have "kahn [(0, [1]), (1, [0])] [(0, []), (1, [0])] [0] [] \<noteq> Some y"
    for y :: "(graph_error, nat list) result"
    using kahn_cycle[of "[(0, [1]), (1, [0])]" "[(0, []), (1, [0])]" "[0]" "[]" y]
    by (auto simp: in_cycle_def)
  ultimately have "topological_sort ?d = None" by (metis not_Some_eq)
  moreover have "topological_sort chain_dag \<noteq> None"
    by (simp add: topological_sort_def chain_dag_def invert_def leaves_def kahn.simps Let_def)
  ultimately show ?thesis using d by simp
qed

end
