(* ===== verification/Sleet_Core.thy ===== *)
theory Sleet_Core
  imports Messages Bounded Conflict_Graph Dag_Topo
begin

text \<open>
  The state of the transaction consensus and its internal operations: the methods of
  \<^verbatim>\<open>Sleet\<close> in \<^verbatim>\<open>src/sleet/sleet.rs\<close>. The message handlers are in \<open>Sleet\<close>.

  A pending query waits on a one-shot channel; the channel is a number. Every \<^verbatim>\<open>unwrap\<close> and
  \<^verbatim>\<open>panic!\<close> is the result \<open>Panic\<close>.
\<close>

section \<open>State\<close>

datatype sleet_error =
    SleetActix
  | SleetSled string
  | SleetCell cell_error
  | SleetStorage storage_error
  | InvalidCoinbaseTransaction cell
  | InvalidTxHash tx_hash_t
  | SleetInvalidConflictSet
  | SleetGraph graph_error
  | SleetInsufficientWeight
  | MissingAncestry

definition NPARENTS :: nat where "NPARENTS = 3"

definition SLEET_ALPHA :: f64 where "SLEET_ALPHA = Fin (1 / 2)"

definition SLEET_BETA1 :: u8 where "SLEET_BETA1 = 11"

record 'db sleet =
  sl_node_id :: node_id
  sl_node_ip :: socket_addr
  sl_committee :: "(node_id, socket_addr \<times> weight) hashmap"
  sl_known_txs :: 'db
  sl_conflict_graph :: conflict_graph
  sl_live_cells :: "(cell_hash_t, cell) bounded_map"
  sl_accepted_txs :: "tx_hash_t bounded_set"
  sl_pending_queries :: "(tx \<times> nat) list"
  sl_dag :: "tx_hash_t dag"
  sl_accepted_frontier :: "tx_hash_t hashset"
  sl_bootstrap_peers :: "peer list"
  sl_old_frontier :: "tx_hash_t hashset"
  sl_bootstrapped :: bool

definition sleet_new ::
  "('db, 'v, 'a) storage_externs_scheme \<Rightarrow> node_id \<Rightarrow> socket_addr \<Rightarrow> peer list \<Rightarrow> 'db sleet" where
  "sleet_new E nid ip peers =
     \<lparr>sl_node_id = nid, sl_node_ip = ip, sl_committee = [], sl_known_txs = sled_temporary E,
      sl_conflict_graph = cg_new cell_ids_empty, sl_live_cells = bounded_map_new 3000,
      sl_accepted_txs = bounded_set_new 3000, sl_pending_queries = [], sl_dag = dag_new,
      sl_accepted_frontier = [], sl_bootstrap_peers = peers, sl_old_frontier = [],
      sl_bootstrapped = False\<rparr>"

text \<open>
  The methods call operations of the conflict graph, the DAG and the transaction store on the
  fields of the state; their errors convert into the errors of this component.
\<close>

definition on_cg :: "(graph_error, 'a) result \<times> conflict_graph \<Rightarrow> 'db sleet \<Rightarrow> (sleet_error, 'a) result \<times> 'db sleet" where
  "on_cg p st = (map_err SleetGraph (fst p), st\<lparr>sl_conflict_graph := snd p\<rparr>)"

definition on_dag :: "(graph_error, 'a) result \<times> tx_hash_t dag \<Rightarrow> 'db sleet \<Rightarrow> (sleet_error, 'a) result \<times> 'db sleet" where
  "on_dag p st = (map_err SleetGraph (fst p), st\<lparr>sl_dag := snd p\<rparr>)"

definition on_db :: "(storage_error, 'a) result \<times> 'db \<Rightarrow> 'db sleet \<Rightarrow> (sleet_error, 'a) result \<times> 'db sleet" where
  "on_db p st = (map_err SleetStorage (fst p), st\<lparr>sl_known_txs := snd p\<rparr>)"

text \<open>\<^verbatim>\<open>unwrap\<close> of the result of a step, keeping the state it left.\<close>

definition st_unwrap :: "('e, 'a) result \<times> 's \<Rightarrow> ('f, 'a) result \<times> 's" where
  "st_unwrap p = (unwrap_result (fst p), snd p)"

section \<open>Receiving transactions\<close>

definition remove_accepted_parents ::
  "('db, 'v, 'a) storage_externs_scheme \<Rightarrow> 'db sleet \<Rightarrow> tx_hash_t list \<Rightarrow> tx_hash_t list" where
  "remove_accepted_parents E st ps =
     filter (\<lambda>p. \<not> unwrap_or False (is_accepted_tx E (sl_known_txs st) p)) ps"

definition has_parents :: "('db, 'v, 'a) storage_externs_scheme \<Rightarrow> 'db sleet \<Rightarrow> tx \<Rightarrow> bool" where
  "has_parents E st t =
     (case has_vertices (sl_dag st) (tx_parents t) of
        Ok _ \<Rightarrow> True
      | Err missing_parents \<Rightarrow>
          list_all (\<lambda>p. unwrap_or False (is_accepted_tx E (sl_known_txs st) p)) missing_parents
      | Panic \<Rightarrow> False)"

definition sleet_insert ::
  "('db, 'v, 'a) storage_externs_scheme \<Rightarrow> 'db sleet \<Rightarrow> tx \<Rightarrow> (sleet_error, unit) result \<times> 'db sleet" where
  "sleet_insert E st t =
     st_bind (on_cg (insert_cell E (sl_conflict_graph st) (tx_cell t)) st) (\<lambda>_ st1.
       let ps = remove_accepted_parents E st1 (tx_parents t) in
       on_dag (insert_vx (sl_dag st1) (tx_hash E t) ps) st1)"

text \<open>Whether a transaction is to be inserted: it is unknown, or known as removed.\<close>

definition is_new_tx ::
  "('db, 'v, 'a) storage_externs_scheme \<Rightarrow> 'db \<Rightarrow> tx_hash_t \<Rightarrow> (sleet_error, bool) result" where
  "is_new_tx E db h =
     result_bind (unwrap_result (is_known_tx E db h)) (\<lambda>known.
       if \<not> known then Ok True else unwrap_result (is_removed_tx E db h))"

definition on_receive_tx ::
  "('db, 'v, 'a) storage_externs_scheme \<Rightarrow> 'db sleet \<Rightarrow> tx \<Rightarrow> (sleet_error, bool) result \<times> 'db sleet" where
  "on_receive_tx E st t =
     (if has_coinbase_output (tx_cell t) then (Err (InvalidCoinbaseTransaction (tx_cell t)), st)
      else
        (case is_new_tx E (sl_known_txs st) (tx_hash E t) of
           Ok True \<Rightarrow>
             if \<not> has_parents E st t then (Err MissingAncestry, st)
             else
               (let t1 = t\<lparr>tx_status := TxPending\<rparr> in
                st_bind (sleet_insert E st t1) (\<lambda>_ st1.
                  (Ok True, st1\<lparr>sl_known_txs := snd (insert_tx E (sl_known_txs st1) t1)\<rparr>)))
         | Ok False \<Rightarrow> (Ok False, st)
         | Err e \<Rightarrow> (Err e, st)
         | Panic \<Rightarrow> (Panic, st)))"

section \<open>Preference\<close>

definition is_strongly_preferred :: "'db sleet \<Rightarrow> tx_hash_t \<Rightarrow> (sleet_error, bool) result" where
  "is_strongly_preferred st h =
     check_all (\<lambda>a. map_err SleetGraph (cg_is_preferred (sl_conflict_graph st) a)) (dfs (sl_dag st) h)"

text \<open>
  The two loops of \<^verbatim>\<open>select_parents\<close>. The second one leaves the loop over the ancestors of a leaf
  at the first parent found, and both loops once there are enough parents.
\<close>

fun select_leaves ::
  "'db sleet \<Rightarrow> nat \<Rightarrow> tx_hash_t list \<Rightarrow> tx_hash_t list \<Rightarrow> tx_hash_t list
   \<Rightarrow> (sleet_error, tx_hash_t list \<times> tx_hash_t list) result" where
  "select_leaves st p [] ps accessible = Ok (ps, accessible)"
| "select_leaves st p (leaf # ls) ps accessible =
     (if length ps \<ge> p then Ok (ps, accessible)
      else result_bind (is_strongly_preferred st leaf) (\<lambda>b.
        if b then select_leaves st p ls (ps @ [leaf]) (accessible @ dfs (sl_dag st) leaf)
        else select_leaves st p ls ps accessible))"

fun select_ancestor ::
  "'db sleet \<Rightarrow> nat \<Rightarrow> tx_hash_t list \<Rightarrow> tx_hash_t list \<Rightarrow> tx_hash_t list
   \<Rightarrow> (sleet_error, bool \<times> tx_hash_t list \<times> tx_hash_t list) result" where
  "select_ancestor st p [] ps accessible = Ok (False, ps, accessible)"
| "select_ancestor st p (elt # es) ps accessible =
     (if length ps \<ge> p then Ok (True, ps, accessible)
      else result_bind (is_strongly_preferred st elt) (\<lambda>b.
        if b \<and> elt \<notin> set ps \<and> elt \<notin> set accessible
        then Ok (False, ps @ [elt], accessible @ dfs (sl_dag st) elt)
        else select_ancestor st p es ps accessible))"

fun select_ancestors ::
  "'db sleet \<Rightarrow> nat \<Rightarrow> tx_hash_t list \<Rightarrow> tx_hash_t list \<Rightarrow> tx_hash_t list \<Rightarrow> (sleet_error, tx_hash_t list) result" where
  "select_ancestors st p [] ps accessible = Ok ps"
| "select_ancestors st p (leaf # ls) ps accessible =
     result_bind (select_ancestor st p (dfs (sl_dag st) leaf) ps accessible) (\<lambda>(stop, ps', accessible').
       if stop then Ok ps' else select_ancestors st p ls ps' accessible')"

definition select_parents :: "'db sleet \<Rightarrow> nat \<Rightarrow> (sleet_error, tx_hash_t list) result" where
  "select_parents st p =
     (if dag_g (sl_dag st) = [] then Ok []
      else result_bind (select_leaves st p (leaves (sl_dag st)) [] []) (\<lambda>(ps, accessible).
        select_ancestors st p (leaves (sl_dag st)) ps accessible))"

fun update_preferences ::
  "'db sleet \<Rightarrow> tx_hash_t list \<Rightarrow> (sleet_error, unit) result \<times> 'db sleet" where
  "update_preferences st [] = (Ok (), st)"
| "update_preferences st (h # hs) =
     (case result_bind (get_preferred (sl_conflict_graph st) h) (\<lambda>p.
             result_bind (conviction (sl_dag st) h) (\<lambda>d1.
             result_bind (conviction (sl_dag st) p) (\<lambda>d2. Ok (d1, d2)))) of
        Ok (d1, d2) \<Rightarrow>
          st_bind (on_cg (update_conflict_set (sl_conflict_graph st) h d1 d2) st)
            (\<lambda>_ st1. update_preferences st1 hs)
      | Err e \<Rightarrow> (Err (SleetGraph e), st)
      | Panic \<Rightarrow> (Panic, st))"

definition update_ancestral_preference ::
  "'db sleet \<Rightarrow> tx_hash_t \<Rightarrow> (sleet_error, unit) result \<times> 'db sleet" where
  "update_ancestral_preference st root_tx = update_preferences st (dfs (sl_dag st) root_tx)"

fun reset_counts :: "'db sleet \<Rightarrow> tx_hash_t list \<Rightarrow> (sleet_error, unit) result \<times> 'db sleet" where
  "reset_counts st [] = (Ok (), st)"
| "reset_counts st (h # hs) =
     st_bind (on_cg (reset_count (sl_conflict_graph st) h) st) (\<lambda>_ st1. reset_counts st1 hs)"

definition reset_ancestor_confidence ::
  "'db sleet \<Rightarrow> tx_hash_t \<Rightarrow> (sleet_error, unit) result \<times> 'db sleet" where
  "reset_ancestor_confidence st root_tx = reset_counts st (dfs (sl_dag st) root_tx)"

section \<open>Finality\<close>

definition sleet_is_accepted_tx ::
  "('db, 'v, 'a) storage_externs_scheme \<Rightarrow> 'db sleet \<Rightarrow> tx_hash_t \<Rightarrow> (sleet_error, bool) result" where
  "sleet_is_accepted_tx E st h =
     (if unwrap_or False (is_accepted_tx E (sl_known_txs st) h) then Ok True
      else if unwrap_or False (cannot_be_accepted E (sl_known_txs st) h) then Ok False
      else result_bind (unwrap_result (get_confidence (sl_conflict_graph st) h)) (\<lambda>confidence.
             result_bind (unwrap_result (cg_is_singleton (sl_conflict_graph st) h)) (\<lambda>single.
               Ok (single \<and> confidence \<ge> SLEET_BETA1 \<or> confidence \<ge> SLEET_BETA2))))"

definition sleet_is_accepted ::
  "('db, 'v, 'a) storage_externs_scheme \<Rightarrow> 'db sleet \<Rightarrow> tx_hash_t \<Rightarrow> (sleet_error, bool) result" where
  "sleet_is_accepted E st h = check_all (sleet_is_accepted_tx E st) (dfs (sl_dag st) h)"

definition is_accepted_memo ::
  "('db, 'v, 'a) storage_externs_scheme \<Rightarrow> 'db sleet \<Rightarrow> tx_hash_t \<Rightarrow> (tx_hash_t, bool) hashmap
   \<Rightarrow> (sleet_error, bool \<times> (tx_hash_t, bool) hashmap) result" where
  "is_accepted_memo E st h memo =
     (case hm_get memo h of
        Some res \<Rightarrow> Ok (res, memo)
      | None \<Rightarrow> result_bind (sleet_is_accepted E st h) (\<lambda>res. Ok (res, hm_insert h res memo)))"

section \<open>Conflict resolution\<close>

text \<open>The loop of \<^verbatim>\<open>remove_conflicts\<close> over the rejected transactions; it collects their children.\<close>

fun reject_txs ::
  "('db, 'v, 'a) storage_externs_scheme \<Rightarrow> tx_hash_t list \<Rightarrow> tx_hash_t list \<Rightarrow> 'db sleet
   \<Rightarrow> (sleet_error, tx_hash_t list) result \<times> 'db sleet" where
  "reject_txs E [] ch st = (Ok ch, st)"
| "reject_txs E (h # hs) ch st =
     st_bind (on_db (set_tx_status E (sl_known_txs st) h TxRejected) st) (\<lambda>_ st1.
       st_bind (on_dag (remove_vx (sl_dag st1) h) st1) (\<lambda>cs st2.
         reject_txs E hs (ch @ cs) st2))"

lemma length_retain_edges: "length (snd (retain_edges vx ws m)) = length m"
  by (induction ws arbitrary: m) (auto simp: hm_insert_length hm_get_None_iff dest: hm_get_Some_keys split: option.splits)

lemma length_remove_vx:
  assumes "remove_vx d vx = (r, d')"
  shows "length (dag_g d') \<le> length (dag_g d)" "r = Ok cs \<Longrightarrow> length (dag_g d') < length (dag_g d)"
proof -
  have len: "length g = length (dag_g d)" if "retain_edges vx ws (dag_g d) = (q, g)" for ws q g
    using length_retain_edges[of vx ws "dag_g d"] that by simp
  have rem: "length (hm_remove vx g) < length g" if "hm_get g vx = Some ps" for g ps
    using hm_remove_length[OF hm_get_Some_keys[OF that]] .
  show "length (dag_g d') \<le> length (dag_g d)" "r = Ok cs \<Longrightarrow> length (dag_g d') < length (dag_g d)"
    using assms by (auto simp: remove_vx_def Let_def dest!: len rem split: option.splits prod.splits result.splits)
qed

text \<open>The loop over the progeny. It ends because a vertex that is removed leaves the DAG.\<close>

function remove_progeny ::
  "('db, 'v, 'a) storage_externs_scheme \<Rightarrow> tx_hash_t list \<Rightarrow> 'db sleet \<Rightarrow> (sleet_error, unit) result \<times> 'db sleet" where
  "remove_progeny E [] st = (Ok (), st)"
| "remove_progeny E (h # hs) st =
     (case st_bind (on_db (set_tx_status E (sl_known_txs st) h TxRemoved) st) (\<lambda>_ st1.
             on_cg (remove_cell E (sl_conflict_graph st1) h) st1) of
        (Ok _, st2) \<Rightarrow>
          (case remove_vx (sl_dag st2) h of
             (Ok cs, d) \<Rightarrow> remove_progeny E (hs @ cs) (st2\<lparr>sl_dag := d\<rparr>)
           | (Err e, d) \<Rightarrow> remove_progeny E hs (st2\<lparr>sl_dag := d\<rparr>)
           | (Panic, d) \<Rightarrow> (Panic, st2\<lparr>sl_dag := d\<rparr>))
      | (Err e, st2) \<Rightarrow> (Err e, st2)
      | (Panic, st2) \<Rightarrow> (Panic, st2))"
  by pat_completeness auto


lemma sl_dag_status_remove:
  "st_bind (on_db p st) (\<lambda>a st1. on_cg (f a st1) st1) = (r, st2) \<Longrightarrow> sl_dag st2 = sl_dag st"
  by (cases "fst p") (auto simp: on_db_def on_cg_def)

termination remove_progeny
proof (relation "measures [\<lambda>(E, hs, st). length (dag_g (sl_dag st)), \<lambda>(E, hs, st). length hs]")
qed (auto dest!: sym[THEN sl_dag_status_remove] dest: sym[THEN length_remove_vx(1)] sym[THEN length_remove_vx(2)] simp: le_less)

definition remove_conflicts ::
  "('db, 'v, 'a) storage_externs_scheme \<Rightarrow> 'db sleet \<Rightarrow> tx \<Rightarrow> (sleet_error, unit) result \<times> 'db sleet" where
  "remove_conflicts E st t =
     st_bind (on_cg (accept_cell E (sl_conflict_graph st) (tx_cell t)) st) (\<lambda>rejected st1.
       st_bind (reject_txs E rejected [] st1) (\<lambda>ch st2. remove_progeny E ch st2))"

section \<open>The accepted frontier\<close>

text \<open>The loop state is the frontier, the vertices above it and the memo.\<close>

fun frontier_step ::
  "('db, 'v, 'a) storage_externs_scheme \<Rightarrow> 'db sleet \<Rightarrow> tx_hash_t list
   \<Rightarrow> tx_hash_t hashset \<times> tx_hash_t hashset \<times> (tx_hash_t, bool) hashmap
   \<Rightarrow> (sleet_error, tx_hash_t hashset \<times> tx_hash_t hashset \<times> (tx_hash_t, bool) hashmap) result" where
  "frontier_step E st [] acc = Ok acc"
| "frontier_step E st (h # hs) (frontier, above_f, memo) =
     (if h \<in> set above_f then frontier_step E st hs (frontier, above_f, memo)
      else result_bind (is_accepted_memo E st h memo) (\<lambda>(accepted, memo').
        if accepted
        then frontier_step E st hs (hs_insert h frontier, hs_extend above_f (dfs (sl_dag st) h), memo')
        else frontier_step E st hs (frontier, above_f, memo')))"

fun frontier_leaves ::
  "('db, 'v, 'a) storage_externs_scheme \<Rightarrow> 'db sleet \<Rightarrow> tx_hash_t list
   \<Rightarrow> tx_hash_t hashset \<times> tx_hash_t hashset \<times> (tx_hash_t, bool) hashmap
   \<Rightarrow> (sleet_error, tx_hash_t hashset \<times> tx_hash_t hashset \<times> (tx_hash_t, bool) hashmap) result" where
  "frontier_leaves E st [] acc = Ok acc"
| "frontier_leaves E st (leaf # ls) acc =
     result_bind (frontier_step E st (dfs (sl_dag st) leaf) acc) (frontier_leaves E st ls)"

definition compute_accepted_frontier ::
  "('db, 'v, 'a) storage_externs_scheme \<Rightarrow> 'db sleet \<Rightarrow> (sleet_error, unit) result \<times> 'db sleet" where
  "compute_accepted_frontier E st =
     (let st1 = (if dag_g (sl_dag st) = [] then st\<lparr>sl_accepted_frontier := []\<rparr> else st) in
      case frontier_leaves E st1 (leaves (sl_dag st1)) ([], [], []) of
        Ok (frontier, _, _) \<Rightarrow> (Ok (), st1\<lparr>sl_accepted_frontier := frontier\<rparr>)
      | Err e \<Rightarrow> (Err e, st1)
      | Panic \<Rightarrow> (Panic, st1))"

fun remove_vertices :: "tx_hash_t list \<Rightarrow> tx_hash_t dag \<Rightarrow> tx_hash_t dag" where
  "remove_vertices [] d = d"
| "remove_vertices (h # hs) d = remove_vertices hs (snd (remove_vx d h))"

definition prune_at_accepted_frontier ::
  "('db, 'v, 'a) storage_externs_scheme \<Rightarrow> 'db sleet \<Rightarrow> (sleet_error, unit) result \<times> 'db sleet" where
  "prune_at_accepted_frontier E st =
     st_bind (compute_accepted_frontier E st) (\<lambda>_ st1.
       let to_be_pruned = hs_extend [] (concat (map (dfs (sl_dag st1)) (sl_accepted_frontier st1)));
           pruned = filter (\<lambda>a. a \<notin> set (sl_accepted_frontier st1)) to_be_pruned in
       (Ok (), st1\<lparr>sl_dag := remove_vertices pruned (sl_dag st1)\<rparr>))"

fun accept_txs ::
  "('db, 'v, 'a) storage_externs_scheme \<Rightarrow> tx_hash_t list \<Rightarrow> tx_hash_t list \<Rightarrow> (tx_hash_t, bool) hashmap
   \<Rightarrow> 'db sleet \<Rightarrow> (sleet_error, tx_hash_t list) result \<times> 'db sleet" where
  "accept_txs E [] new memo st = (Ok new, st)"
| "accept_txs E (t # ts) new memo st =
     (if unwrap_or False (is_accepted_tx E (sl_known_txs st) t) then accept_txs E ts new memo st
      else
        (case is_accepted_memo E st t memo of
           Ok (True, memo') \<Rightarrow>
             (case bounded_set_insert t (sl_accepted_txs st) of
                None \<Rightarrow> (Panic, st)
              | Some acc \<Rightarrow>
                  st_bind (st_unwrap (on_db (set_tx_status E (sl_known_txs st) t TxAccepted)
                                            (st\<lparr>sl_accepted_txs := acc\<rparr>)))
                    (\<lambda>_ st1. accept_txs E ts (new @ [t]) memo' st1))
         | Ok (False, memo') \<Rightarrow> accept_txs E ts new memo' st
         | Err e \<Rightarrow> (Err e, st)
         | Panic \<Rightarrow> (Panic, st)))"

definition compute_accepted_txs ::
  "('db, 'v, 'a) storage_externs_scheme \<Rightarrow> 'db sleet \<Rightarrow> tx_hash_t
   \<Rightarrow> (sleet_error, tx_hash_t list) result \<times> 'db sleet" where
  "compute_accepted_txs E st h = accept_txs E (dfs (sl_dag st) h) [] [] st"

definition sleet_sample ::
  "('db, 'v, 'a) node_externs_scheme \<Rightarrow> ((node_id \<times> socket_addr \<times> weight) list \<Rightarrow> (node_id \<times> socket_addr \<times> weight) list)
   \<Rightarrow> 'db sleet \<Rightarrow> weight \<Rightarrow> (sleet_error, peer list) result" where
  "sleet_sample E shuffle st minimum_weight =
     ok_or SleetInsufficientWeight
       (sample_weighted (f64_round E) shuffle minimum_weight (map (\<lambda>(id, ip, w). (id, ip, w)) (sl_committee st)))"

end
