(* ===== verification/Sleet.thy ===== *)
theory Sleet
  imports Sleet_Core
begin

text \<open>
  The message handlers of the transaction consensus: \<^verbatim>\<open>src/sleet/sleet.rs\<close> from line 443 on,
  \<^verbatim>\<open>sleet_cell_handlers.rs\<close> and \<^verbatim>\<open>sleet_status_handler.rs\<close>.

  A handler returns its result, the new state and the messages it sends, in order. A handler that
  awaits an answer is two definitions, the part before the request and the part run on the answer;
  no answer from the mailbox of the client is \<open>None\<close>. The actor handles one message at a time, and
  other messages may come between the two parts.
\<close>

section \<open>Messages and effects\<close>

datatype sleet_msg =
    MsgBootstrap
  | MsgFetchWithAncestry "tx_hash_t hashset"
  | MsgQueryIncomplete tx "response list"
  | MsgQueryComplete tx "response list"
  | MsgNewAccepted "tx_hash_t list"
  | MsgFreshTx tx
  | MsgCheckPending
  | MsgAskForAncestors tx_hash_t node_id socket_addr

datatype sleet_effect =
    Notify sleet_msg
  | Send client_request
  | SendAcceptedCells "cell list"
  | SendOutcome nat bool

type_synonym ('db, 'a) sleet_out = "(sleet_error, 'a) result \<times> 'db sleet \<times> sleet_effect list"

definition sleet_started :: "'db sleet \<Rightarrow> ('db, unit) sleet_out" where
  "sleet_started st = (Ok (), st, [Notify MsgBootstrap])"

text \<open>A handler whose state change is one step, with the effects that depend on its result.\<close>

definition sends :: "(sleet_error, 'a) result \<times> 'db sleet \<Rightarrow> ('a \<Rightarrow> sleet_effect list) \<Rightarrow> ('db, unit) sleet_out" where
  "sends p effs = (case p of
     (Ok a, st) \<Rightarrow> (Ok (), st, effs a)
   | (Err e, st) \<Rightarrow> (Err e, st, [])
   | (Panic, st) \<Rightarrow> (Panic, st, []))"

section \<open>Bootstrapping\<close>

definition bootstrap :: "'db sleet \<Rightarrow> ('db, unit) sleet_out" where
  "bootstrap st = (Ok (), st, [Send (Fanout (sl_bootstrap_peers st) ReqGetAcceptedFrontier)])"

fun join_frontiers :: "response list \<Rightarrow> tx_hash_t hashset \<Rightarrow> (sleet_error, tx_hash_t hashset) result" where
  "join_frontiers [] frontier = Ok frontier"
| "join_frontiers (f # fs) frontier =
     (case f of
        RespAcceptedFrontier fr \<Rightarrow> join_frontiers fs (hs_extend frontier fr)
      | _ \<Rightarrow> Panic)"

fun insert_frontier :: "tx_hash_t list \<Rightarrow> 'db sleet \<Rightarrow> (sleet_error, unit) result \<times> 'db sleet" where
  "insert_frontier [] st = (Ok (), st)"
| "insert_frontier (t # ts) st =
     st_bind (on_dag (insert_vx (sl_dag st) t []) st) (\<lambda>_ st1.
       st_bind (on_dag (set_chit (sl_dag st1) t 1) st1) (\<lambda>_ st2. insert_frontier ts st2))"

definition bootstrap_response :: "client_response option \<Rightarrow> 'db sleet \<Rightarrow> ('db, unit) sleet_out" where
  "bootstrap_response res st =
     (case res of
        Some (FanoutResponse frontiers) \<Rightarrow>
          (case join_frontiers frontiers (sl_accepted_frontier st) of
             Ok frontier \<Rightarrow>
               (let st1 = st\<lparr>sl_accepted_frontier := frontier\<rparr>;
                    diff = filter (\<lambda>t. t \<notin> set (sl_old_frontier st1)) frontier in
                if length diff > 0 then
                  sends (insert_frontier diff (st1\<lparr>sl_old_frontier := frontier\<rparr>))
                    (\<lambda>_. [Notify (MsgFetchWithAncestry diff)])
                else (Ok (), st1\<lparr>sl_bootstrapped := True\<rparr>, []))
           | Err e \<Rightarrow> (Err e, st, [])
           | Panic \<Rightarrow> (Panic, st, []))
      | Some (OneshotResponse _) \<Rightarrow> (Panic, st, [])
      | None \<Rightarrow> (Err SleetActix, st, []))"

text \<open>
  \<^verbatim>\<open>FetchWithAncestry\<close> runs beside the actor and shares its database. Between two answers it is
  waiting for a peer to send the transaction it asked for: \<open>FetchAsk\<close> has that transaction, the peer,
  the peers still to ask and the queue. The database may change while it waits.
\<close>

datatype fetch_state = FetchDone | FetchAsk tx_hash_t peer "peer list" "tx_hash_t list"

fun fetch_next ::
  "('db, 'v, 'a) storage_externs_scheme \<Rightarrow> peer list \<Rightarrow> 'db \<Rightarrow> tx_hash_t list \<Rightarrow> fetch_state" where
  "fetch_next E peers db [] = FetchDone"
| "fetch_next E peers db (h # hs) =
     (if unwrap_or False (is_known_tx E db h) then fetch_next E peers db hs
      else (case peers of [] \<Rightarrow> fetch_next E peers db hs | p # ps \<Rightarrow> FetchAsk h p ps hs))"

definition fetch_response ::
  "('db, 'v, 'a) storage_externs_scheme \<Rightarrow> peer list \<Rightarrow> tx_hash_t \<Rightarrow> peer list \<Rightarrow> tx_hash_t list
   \<Rightarrow> client_response option \<Rightarrow> 'db \<Rightarrow> fetch_state \<times> 'db" where
  "fetch_response E peers h ps hs res db =
     (case res of
        Some (OneshotResponse (Some (RespFetchedTx (Some t)))) \<Rightarrow>
          (let db' = snd (insert_tx E db t) in (fetch_next E peers db' (hs @ tx_parents t), db'))
      | _ \<Rightarrow> (case ps of
                [] \<Rightarrow> (fetch_next E peers db hs, db)
              | p # ps' \<Rightarrow> (FetchAsk h p ps' hs, db)))"

definition fetch_with_ancestry ::
  "('db, 'v, 'a) storage_externs_scheme \<Rightarrow> tx_hash_t hashset \<Rightarrow> 'db sleet \<Rightarrow> fetch_state" where
  "fetch_with_ancestry E txs st = fetch_next E (sl_bootstrap_peers st) (sl_known_txs st) txs"

text \<open>
  A whole run when nothing else touches the database, with the answer to each question as a function
  of the peer, the transaction asked for and the number of questions asked before. It ends by sending
  \<^verbatim>\<open>Bootstrap\<close>.
\<close>

partial_function (option) fetch_run ::
  "('db, 'v, 'a) storage_externs_scheme \<Rightarrow> peer list \<Rightarrow> (nat \<Rightarrow> peer \<Rightarrow> tx_hash_t \<Rightarrow> client_response option)
   \<Rightarrow> nat \<Rightarrow> fetch_state \<Rightarrow> 'db \<Rightarrow> (sleet_effect list \<times> 'db) option" where
  "fetch_run E peers answer n s db =
     (case s of
        FetchDone \<Rightarrow> Some ([Notify MsgBootstrap], db)
      | FetchAsk h p ps hs \<Rightarrow>
          (case fetch_response E peers h ps hs (answer n p h) db of
             (s', db') \<Rightarrow> fetch_run E peers answer (Suc n) s' db'))"

declare fetch_run.simps [code]

definition fetch_tx ::
  "('db, 'v, 'a) storage_externs_scheme \<Rightarrow> tx_hash_t \<Rightarrow> 'db sleet \<Rightarrow> tx option" where
  "fetch_tx E h st = (case get_tx E (sl_known_txs st) h of Ok (_, t) \<Rightarrow> Some t | _ \<Rightarrow> None)"

definition sleet_bootstrapped :: "'db sleet \<Rightarrow> bool" where
  "sleet_bootstrapped st = sl_bootstrapped st"

definition get_accepted_frontier :: "'db sleet \<Rightarrow> tx_hash_t hashset" where
  "get_accepted_frontier st = sl_accepted_frontier st"

definition get_live_frontier :: "'db sleet \<Rightarrow> tx_hash_t hashset" where
  "get_live_frontier st = hs_extend [] (leaves (sl_dag st))"

section \<open>The committee\<close>

fun add_live_cells ::
  "'a externs_scheme \<Rightarrow> (cell_hash_t \<times> cell) list \<Rightarrow> cell_ids \<Rightarrow> 'db sleet
   \<Rightarrow> (sleet_error, cell_ids) result \<times> 'db sleet" where
  "add_live_cells E [] ids st = (Ok ids, st)"
| "add_live_cells E ((h, c) # cs) ids st =
     (let ids' = hs_extend ids (cell_ids_from_outputs E h (outputs c)) in
      if hm_contains (bm_elems (sl_live_cells st)) h then add_live_cells E cs ids' st
      else (case bounded_map_insert h c (sl_live_cells st) of
              None \<Rightarrow> (Panic, st)
            | Some m \<Rightarrow> add_live_cells E cs ids' (st\<lparr>sl_live_cells := m\<rparr>)))"

definition sleet_live_committee ::
  "'a externs_scheme \<Rightarrow> (node_id, socket_addr \<times> weight) hashmap \<Rightarrow> (cell_hash_t, cell) hashmap
   \<Rightarrow> 'db sleet \<Rightarrow> ('db, unit) sleet_out" where
  "sleet_live_committee E validators live st =
     sends (st_bind (add_live_cells E live cell_ids_empty st) (\<lambda>ids st1.
       (Ok (), st1\<lparr>sl_conflict_graph := cg_append (sl_conflict_graph st1) ids,
                  sl_committee := validators\<rparr>))) (\<lambda>_. [])"

section \<open>Querying\<close>

definition mark_queried ::
  "('db, 'v, 'a) storage_externs_scheme \<Rightarrow> tx \<Rightarrow> 'db sleet \<Rightarrow> (sleet_error, unit) result \<times> 'db sleet" where
  "mark_queried E t st = st_unwrap (on_db (set_tx_status E (sl_known_txs st) (tx_hash E t) TxQueried) st)"

definition query_incomplete ::
  "('db, 'v, 'a) storage_externs_scheme \<Rightarrow> tx \<Rightarrow> response list \<Rightarrow> 'db sleet \<Rightarrow> ('db, unit) sleet_out" where
  "query_incomplete E t acks st =
     sends (st_bind (st_unwrap (reset_ancestor_confidence st (tx_hash E t))) (\<lambda>_ st1. mark_queried E t st1))
       (\<lambda>_. [])"

text \<open>The votes that count are those of members of the committee.\<close>

fun collect_outcomes ::
  "(node_id, socket_addr \<times> weight) hashmap \<Rightarrow> response list
   \<Rightarrow> (sleet_error, (node_id \<times> weight \<times> bool) list) result" where
  "collect_outcomes committee [] = Ok []"
| "collect_outcomes committee (a # acks) =
     (case a of
        RespQueryTxAck q \<Rightarrow>
          result_bind (collect_outcomes committee acks) (\<lambda>os.
            (case hm_get committee (qta_id q) of
               Some (_, w) \<Rightarrow> Ok ((qta_id q, w, qta_outcome q) # os)
             | None \<Rightarrow> Ok os))
      | _ \<Rightarrow> Panic)"

definition insert_live_cell :: "'a externs_scheme \<Rightarrow> cell \<Rightarrow> 'db sleet \<Rightarrow> (sleet_error, unit) result \<times> 'db sleet" where
  "insert_live_cell E c st =
     (case bounded_map_insert (cell_hash E c) c (sl_live_cells st) of
        None \<Rightarrow> (Panic, st)
      | Some m \<Rightarrow> (Ok (), st\<lparr>sl_live_cells := m\<rparr>))"

definition query_succeeded ::
  "('db, 'v, 'a) storage_externs_scheme \<Rightarrow> tx \<Rightarrow> 'db sleet \<Rightarrow> (sleet_error, tx_hash_t list) result \<times> 'db sleet" where
  "query_succeeded E t st =
     st_bind (st_unwrap (on_dag (set_chit (sl_dag st) (tx_hash E t) 1) st)) (\<lambda>_ st1.
     st_bind (st_unwrap (update_ancestral_preference st1 (tx_hash E t))) (\<lambda>_ st2.
     st_bind (insert_live_cell E (tx_cell t) st2) (\<lambda>_ st3.
     compute_accepted_txs E st3 (tx_hash E t))))"

definition query_failed ::
  "'a externs_scheme \<Rightarrow> tx \<Rightarrow> 'db sleet \<Rightarrow> (sleet_error, tx_hash_t list) result \<times> 'db sleet" where
  "query_failed E t st =
     st_bind (st_unwrap (reset_ancestor_confidence st (tx_hash E t))) (\<lambda>_ st1. (Ok [], st1))"

definition query_complete ::
  "('db, 'v, 'a) node_externs_scheme \<Rightarrow> tx \<Rightarrow> response list \<Rightarrow> 'db sleet \<Rightarrow> ('db, unit) sleet_out" where
  "query_complete E t acks st =
     (case collect_outcomes (sl_committee st) acks of
        Ok outcomes \<Rightarrow>
          sends (st_bind (if f64_gt (sum_outcomes (f64_round E) outcomes) SLEET_ALPHA
                          then query_succeeded E t st else query_failed E t st) (\<lambda>new_accepted st1.
                 st_bind (mark_queried E t st1) (\<lambda>_ st2. (Ok new_accepted, st2))))
            (\<lambda>new_accepted. if new_accepted = [] then [] else [Notify (MsgNewAccepted new_accepted)])
      | Err e \<Rightarrow> (Err e, st, [])
      | Panic \<Rightarrow> (Panic, st, []))"

text \<open>\<^verbatim>\<open>NewAccepted\<close> reports an error of \<^verbatim>\<open>remove_conflicts\<close> and goes on.\<close>

fun resolve_accepted ::
  "('db, 'v, 'a) storage_externs_scheme \<Rightarrow> tx_hash_t list \<Rightarrow> cell list \<Rightarrow> 'db sleet
   \<Rightarrow> (sleet_error, cell list) result \<times> 'db sleet" where
  "resolve_accepted E [] cells st = (Ok cells, st)"
| "resolve_accepted E (h # hs) cells st =
     (case get_tx E (sl_known_txs st) h of
        Ok (_, t) \<Rightarrow>
          (case remove_conflicts E st t of
             (Panic, st1) \<Rightarrow> (Panic, st1)
           | (_, st1) \<Rightarrow> resolve_accepted E hs (cells @ [tx_cell t]) st1)
      | _ \<Rightarrow> (Panic, st))"

definition new_accepted ::
  "('db, 'v, 'a) storage_externs_scheme \<Rightarrow> tx_hash_t list \<Rightarrow> 'db sleet \<Rightarrow> ('db, unit) sleet_out" where
  "new_accepted E hs st =
     sends (st_bind (resolve_accepted E hs [] st) (\<lambda>cells st1.
       st_bind (prune_at_accepted_frontier E st1) (\<lambda>_ st2. (Ok cells, st2))))
       (\<lambda>cells. [SendAcceptedCells cells])"

definition fresh_tx ::
  "('db, 'v, 'a) node_externs_scheme \<Rightarrow> ((node_id \<times> socket_addr \<times> weight) list \<Rightarrow> (node_id \<times> socket_addr \<times> weight) list)
   \<Rightarrow> tx \<Rightarrow> 'db sleet \<Rightarrow> ('db, peer list) sleet_out" where
  "fresh_tx E shuffle t st =
     (case sleet_sample E shuffle st SLEET_ALPHA of
        Ok validators \<Rightarrow>
          (Ok validators, st,
           [Send (Fanout validators
              (ReqQueryTx \<lparr>qt_id = sl_node_id st, qt_ip = sl_node_ip st, qt_tx = t\<rparr>))])
      | _ \<Rightarrow> (Panic, st, []))"

definition fresh_tx_response ::
  "tx \<Rightarrow> peer list \<Rightarrow> client_response option \<Rightarrow> 'db sleet \<Rightarrow> ('db, unit) sleet_out" where
  "fresh_tx_response t validators res st =
     (case res of
        Some (FanoutResponse acks) \<Rightarrow>
          if length acks = length validators then (Ok (), st, [Notify (MsgQueryComplete t acks)])
          else (Ok (), st, [Notify (MsgQueryIncomplete t acks)])
      | Some (OneshotResponse _) \<Rightarrow> (Panic, st, [])
      | None \<Rightarrow> (Err SleetActix, st, []))"

section \<open>Transactions from clients and validators\<close>

definition generate_tx ::
  "('db, 'v, 'a) storage_externs_scheme \<Rightarrow> cell \<Rightarrow> 'db sleet \<Rightarrow> ('db, cell_hash_t option) sleet_out" where
  "generate_tx E c st =
     (case select_parents st NPARENTS of
        Ok ps \<Rightarrow>
          (let t = tx_new ps c in
           case on_receive_tx E st t of
             (Ok True, st1) \<Rightarrow> (Ok (Some (cell_hash E c)), st1, [Notify (MsgFreshTx t)])
           | (Ok False, st1) \<Rightarrow> (Ok None, st1, [])
           | (Err e, st1) \<Rightarrow> (Ok None, st1, [])
           | (Panic, st1) \<Rightarrow> (Panic, st1, []))
      | _ \<Rightarrow> (Panic, st, []))"

text \<open>
  The answer to a query comes at once, or when the channel with the given number is used or closed,
  or at the timeout.
\<close>

datatype query_reply = ReplyNow query_tx_ack | ReplyLater node_id tx_hash_t nat

datatype channel_event = Received bool | SenderDropped | Timeout

definition pending_reply :: "node_id \<Rightarrow> tx_hash_t \<Rightarrow> channel_event \<Rightarrow> query_tx_ack" where
  "pending_reply i h ev =
     (case ev of
        Received b \<Rightarrow> \<lparr>qta_id = i, qta_tx_hash = h, qta_outcome = b\<rparr>
      | SenderDropped \<Rightarrow> \<lparr>qta_id = i, qta_tx_hash = h, qta_outcome = False\<rparr>
      | Timeout \<Rightarrow> \<lparr>qta_id = i, qta_tx_hash = h, qta_outcome = False\<rparr>)"

definition query_outcome ::
  "('db, 'v, 'a) storage_externs_scheme \<Rightarrow> tx_hash_t \<Rightarrow> 'db sleet \<Rightarrow> (sleet_error, bool) result" where
  "query_outcome E h st =
     (if unwrap_or False (is_accepted_tx E (sl_known_txs st) h) then Ok True
      else if unwrap_or False (cannot_be_accepted E (sl_known_txs st) h) then Ok False
      else unwrap_result (is_strongly_preferred st h))"

definition handle_query_tx ::
  "('db, 'v, 'a) storage_externs_scheme \<Rightarrow> nat \<Rightarrow> query_tx \<Rightarrow> 'db sleet \<Rightarrow> ('db, query_reply) sleet_out" where
  "handle_query_tx E chan q st =
     (let h = tx_hash E (qt_tx q);
          reply = (\<lambda>b. ReplyNow \<lparr>qta_id = sl_node_id st, qta_tx_hash = h, qta_outcome = b\<rparr>) in
      case on_receive_tx E st (qt_tx q) of
        (Ok is_new, st1) \<Rightarrow>
          (result_bind (query_outcome E h st1) (\<lambda>b. Ok (reply b)), st1,
           if is_new then [Notify (MsgFreshTx (qt_tx q)), Notify MsgCheckPending] else [])
      | (Err MissingAncestry, st1) \<Rightarrow>
          (Ok (ReplyLater (sl_node_id st) h chan),
           st1\<lparr>sl_pending_queries := sl_pending_queries st1 @ [(qt_tx q, chan)]\<rparr>,
           [Notify (MsgAskForAncestors h (qt_id q) (qt_ip q))])
      | (Err _, st1) \<Rightarrow> (Ok (reply False), st1, [])
      | (Panic, st1) \<Rightarrow> (Panic, st1, []))"

text \<open>
  \<^verbatim>\<open>CheckPending\<close> takes the queries from the end of the list; \<open>is_closed\<close> says which channels have lost
  their receiver.
\<close>

fun check_pending_loop ::
  "('db, 'v, 'a) storage_externs_scheme \<Rightarrow> (nat \<Rightarrow> bool) \<Rightarrow> (tx \<times> nat) list \<Rightarrow> (tx \<times> nat) list
   \<Rightarrow> sleet_effect list \<Rightarrow> 'db sleet \<Rightarrow> ('db, (tx \<times> nat) list) sleet_out" where
  "check_pending_loop E is_closed [] remaining effs st = (Ok remaining, st, effs)"
| "check_pending_loop E is_closed ((t, chan) # qs) remaining effs st =
     (if has_parents E st t then
        (case on_receive_tx E st t of
           (Ok is_new, st1) \<Rightarrow>
             (case is_strongly_preferred st1 (tx_hash E t) of
                Ok b \<Rightarrow> check_pending_loop E is_closed qs remaining
                          (effs @ (if is_new then [Notify (MsgFreshTx t)] else []) @ [SendOutcome chan b]) st1
              | _ \<Rightarrow> (Panic, st1, effs))
         | (Err e, st1) \<Rightarrow> check_pending_loop E is_closed qs remaining (effs @ [SendOutcome chan False]) st1
         | (Panic, st1) \<Rightarrow> (Panic, st1, effs))
      else if is_closed chan then check_pending_loop E is_closed qs remaining effs st
      else check_pending_loop E is_closed qs (remaining @ [(t, chan)]) effs st)"

definition check_pending ::
  "('db, 'v, 'a) storage_externs_scheme \<Rightarrow> (nat \<Rightarrow> bool) \<Rightarrow> 'db sleet \<Rightarrow> ('db, unit) sleet_out" where
  "check_pending E is_closed st =
     (case check_pending_loop E is_closed (rev (sl_pending_queries st)) [] [] (st\<lparr>sl_pending_queries := []\<rparr>) of
        (Ok remaining, st1, effs) \<Rightarrow> (Ok (), st1\<lparr>sl_pending_queries := rev remaining\<rparr>, effs)
      | (Err e, st1, effs) \<Rightarrow> (Err e, st1, effs)
      | (Panic, st1, effs) \<Rightarrow> (Panic, st1, effs))"

definition ask_for_ancestors ::
  "tx_hash_t \<Rightarrow> node_id \<Rightarrow> socket_addr \<Rightarrow> 'db sleet \<Rightarrow> ('db, unit) sleet_out" where
  "ask_for_ancestors h i ip st = (Ok (), st, [Send (Oneshot i ip (ReqGetTxAncestors h))])"

fun receive_ancestors ::
  "('db, 'v, 'a) storage_externs_scheme \<Rightarrow> tx list \<Rightarrow> sleet_effect list \<Rightarrow> 'db sleet \<Rightarrow> ('db, unit) sleet_out" where
  "receive_ancestors E [] effs st = (Ok (), st, effs)"
| "receive_ancestors E (t # ts) effs st =
     (case on_receive_tx E st t of
        (Ok True, st1) \<Rightarrow> receive_ancestors E ts (effs @ [Notify (MsgFreshTx t)]) st1
      | (Ok False, st1) \<Rightarrow> receive_ancestors E ts effs st1
      | (Err e, st1) \<Rightarrow> receive_ancestors E ts effs st1
      | (Panic, st1) \<Rightarrow> (Panic, st1, effs))"

definition ask_for_ancestors_response ::
  "('db, 'v, 'a) storage_externs_scheme \<Rightarrow> client_response option \<Rightarrow> 'db sleet \<Rightarrow> ('db, unit) sleet_out" where
  "ask_for_ancestors_response E res st =
     (case res of
        Some (OneshotResponse (Some (RespTxAncestors ancestors))) \<Rightarrow>
          (case receive_ancestors E ancestors [] st of
             (Ok _, st1, effs) \<Rightarrow> (Ok (), st1, effs @ [Notify MsgCheckPending])
           | (r, st1, effs) \<Rightarrow> (r, st1, effs))
      | _ \<Rightarrow> (Ok (), st, []))"

fun get_txs ::
  "('db, 'v, 'a) storage_externs_scheme \<Rightarrow> 'db \<Rightarrow> tx_hash_t list \<Rightarrow> (sleet_error, tx list) result" where
  "get_txs E db [] = Ok []"
| "get_txs E db (h # hs) =
     result_bind (unwrap_result (get_tx E db h)) (\<lambda>(_, t). result_bind (get_txs E db hs) (\<lambda>ts. Ok (t # ts)))"

definition get_tx_ancestors ::
  "('db, 'v, 'a) storage_externs_scheme \<Rightarrow> tx_hash_t \<Rightarrow> 'db sleet \<Rightarrow> (sleet_error, tx list) result option" where
  "get_tx_ancestors E h st =
     map_option (\<lambda>r. result_bind (unwrap_result r) (get_txs E (sl_known_txs st))) (get_ancestors (sl_dag st) h)"

section \<open>Cells and status\<close>

definition get_cell :: "cell_hash_t \<Rightarrow> 'db sleet \<Rightarrow> cell option" where
  "get_cell h st = hm_get (bm_elems (sl_live_cells st)) h"

definition get_cell_hashes :: "'db sleet \<Rightarrow> cell_hash_t list" where
  "get_cell_hashes st = map fst (bm_elems (sl_live_cells st))"

definition get_accepted_cell_hashes :: "'db sleet \<Rightarrow> cell_hash_t list" where
  "get_accepted_cell_hashes st = bs_elems (sl_accepted_txs st)"

definition get_accepted_cell ::
  "('db, 'v, 'a) storage_externs_scheme \<Rightarrow> cell_hash_t \<Rightarrow> 'db sleet \<Rightarrow> cell option" where
  "get_accepted_cell E h st =
     (case get_tx E (sl_known_txs st) h of Ok (_, t) \<Rightarrow> Some (tx_cell t) | _ \<Rightarrow> None)"

definition sleet_status :: "'db sleet \<Rightarrow> node_id \<times> (node_id \<times> socket_addr \<times> weight) list" where
  "sleet_status st = (sl_node_id st, map (\<lambda>(i, ip, w). (i, ip, w)) (sl_committee st))"

end
