(* ===== verification/Voting.thy ===== *)
theory Voting
  imports Dag_Search
begin

text \<open>
  Questions about a vertex that are asked of all its ancestors. \<^verbatim>\<open>is_strongly_preferred\<close> and
  \<^verbatim>\<open>is_accepted\<close> of \<^verbatim>\<open>sleet.rs\<close> and \<^verbatim>\<open>is_strongly_preferred\<close> of \<^verbatim>\<open>hail.rs\<close> walk
  the ancestors depth first and stop at the first negative answer. The locale is what they share: a
  state with a DAG, and a question that has an answer for every vertex as long as the state is in order.
\<close>

section \<open>Ancestry\<close>

lemma finite_edge_rel: "dag_wf d \<Longrightarrow> finite (edge_rel d)"
proof -
  assume wf: "dag_wf d"
  have "edge_rel d \<subseteq> vertices d \<times> vertices d"
    using dag_wfD(7)[OF wf] parents_outside[of _ d] by (fastforce simp: edge_rel_def)
  then show "finite (edge_rel d)" by (rule finite_subset) simp
qed

lemma below_some_leaf:
  assumes wf: "dag_wf d" and "v \<in> vertices d"
  shows "\<exists>l \<in> set (leaves d). (l, v) \<in> (edge_rel d)\<^sup>*"
proof -
  have "wf (edge_rel d)" using finite_acyclic_wf finite_edge_rel[OF wf] dag_wfD(11)[OF wf] by blast
  then show ?thesis using assms(2)
  proof (induction v rule: wf_induct_rule)
    case (less v)
    show ?case
    proof (cases "children d v = []")
      case True
      then show ?thesis using less.prems set_leaves[OF wf] by blast
    next
      case False
      then obtain u where u: "u \<in> set (children d v)" by (meson last_in_set)
      then have e: "(u, v) \<in> edge_rel d" using dag_wfD(8)[OF wf] by (auto simp: edge_rel_def)
      from less.IH[OF e] u children_subset[OF wf] obtain l where
        "l \<in> set (leaves d)" "(l, u) \<in> (edge_rel d)\<^sup>*" by blast
      with e show ?thesis by (meson rtrancl.rtrancl_into_rtrancl)
    qed
  qed
qed

lemma dag_wf_chits:
  assumes "dag_wf d" "c \<le> 1"
  shows "dag_wf (d\<lparr>dag_chits := hm_insert h c (dag_chits d)\<rparr>)"
proof -
  let ?d = "d\<lparr>dag_chits := hm_insert h c (dag_chits d)\<rparr>"
  have same: "parents ?d = parents d" "children ?d = children d" "edge_rel ?d = edge_rel d"
    by (simp_all add: fun_eq_iff parents_def children_def edge_rel_def)
  have "vertices d \<subseteq> hm_keys (dag_chits ?d)" using dag_wfD(5)[OF assms(1)] by auto
  moreover have "k \<le> 1" if "hm_get (dag_chits ?d) v = Some k" for v k
    using that dag_wfD(6)[OF assms(1)] assms(2) by (auto split: if_splits)
  ultimately show ?thesis using assms(1) unfolding dag_wf_def same by simp
qed

definition reach :: "'v dag \<Rightarrow> 'v \<Rightarrow> 'v set" where
  "reach d v = {u. (v, u) \<in> (edge_rel d)\<^sup>*}"

section \<open>Ancestral questions\<close>

locale ancestral_question =
  fixes ok :: "'s \<Rightarrow> bool" and graph :: "'s \<Rightarrow> 'v dag"
    and ask :: "'s \<Rightarrow> 'v \<Rightarrow> ('e, bool) result" and holds :: "'s \<Rightarrow> 'v \<Rightarrow> bool"
    and ask_all :: "'s \<Rightarrow> 'v \<Rightarrow> ('e, bool) result"
  assumes graph_wf: "ok s \<Longrightarrow> dag_wf (graph s)"
    and ask_answer: "ok s \<Longrightarrow> v \<in> vertices (graph s) \<Longrightarrow> ask s v = Ok (holds s v)"
    and ask_all_def: "ask_all s v = check_all (ask s) (dfs (graph s) v)"
begin

lemma all_ancestors:
  assumes "ok s" "v \<in> vertices (graph s)"
  shows "ask_all s v = Ok (\<forall>u. (v, u) \<in> (edge_rel (graph s))\<^sup>* \<longrightarrow> holds s u)"
proof -
  note wf = graph_wf[OF assms(1)]
  note d = dfs_spec(2)[OF wf assms(2)]
  have "ask s u = Ok (holds s u)" if "u \<in> set (dfs (graph s) v)" for u
    using that d ancestors_in_graph[OF wf assms(2)] ask_answer[OF assms(1)] by auto
  from check_all_total[of "dfs (graph s) v" "ask s" "holds s", OF this] show ?thesis
    unfolding ask_all_def d by auto
qed

text \<open>An answer for a vertex is one for all its ancestors.\<close>

lemma ancestors_inherit:
  assumes "ok s" "v \<in> vertices (graph s)" "ask_all s v = Ok True" "(v, u) \<in> (edge_rel (graph s))\<^sup>*"
  shows "ask_all s u = Ok True"
proof -
  have "u \<in> vertices (graph s)" using ancestors_in_graph[OF graph_wf[OF assms(1)] assms(2,4)] .
  moreover have "holds s w" if "(u, w) \<in> (edge_rel (graph s))\<^sup>*" for w
    using assms(3) that assms(4) rtrancl_trans[of v u "edge_rel (graph s)" w]
    unfolding all_ancestors[OF assms(1,2)] by simp
  ultimately show ?thesis using all_ancestors[OF assms(1)] by simp
qed

text \<open>A vertex outside the graph has no ancestors, so the question is not asked at all.\<close>

lemma unknown_vertex: "v \<notin> vertices (graph s) \<Longrightarrow> ask_all s v = Ok True"
  by (simp add: ask_all_def dfs_missing)

lemma total: "ok s \<Longrightarrow> \<exists>b. ask_all s v = Ok b"
  using all_ancestors[of s v] unknown_vertex[of v s] by (cases "v \<in> vertices (graph s)") auto

end

end
