(* ===== verification/Sleet_Safety.thy ===== *)
theory Sleet_Safety
  imports Sleet Voting
begin

text \<open>
  What the transaction consensus guarantees. \<open>sleet_inv\<close> is its invariant: the DAG and the conflict
  graph are well formed, every vertex of the DAG has a cell in the conflict graph, every cell is that of
  the stored transaction with its hash, and every vote belongs to a stored transaction. Strong preference and finality are the ancestral questions of \<open>Voting\<close>.
\<close>

section \<open>The invariant\<close>

definition sleet_graphs_ok :: "'a externs_scheme \<Rightarrow> 'db sleet \<Rightarrow> bool" where
  "sleet_graphs_ok E st \<longleftrightarrow>
     dag_wf (sl_dag st) \<and> cg_wf E (sl_conflict_graph st) \<and>
     vertices (sl_dag st) \<subseteq> hm_keys (cg_cells (sl_conflict_graph st))"

definition sleet_inv :: "('db, 'v, 'a) storage_externs_scheme \<Rightarrow> 'db sleet \<Rightarrow> bool" where
  "sleet_inv E st \<longleftrightarrow>
     sleet_graphs_ok E st \<and> tx_db_ok E (sl_known_txs st) \<and>
     (\<forall>h. \<forall>t. stored_tx E (sl_known_txs st) h = Some t \<longrightarrow> tx_hash E t = h) \<and>
     (\<forall>h c. hm_get (cg_cells (sl_conflict_graph st)) h = Some c \<longrightarrow>
        map_option tx_cell (stored_tx E (sl_known_txs st) h) = Some c) \<and>
     (\<forall>h \<in> hm_keys (dag_chits (sl_dag st)). stored_tx E (sl_known_txs st) h \<noteq> None)"

lemma sleet_graphs_okD:
  assumes "sleet_graphs_ok E st"
  shows "dag_wf (sl_dag st)" "cg_wf E (sl_conflict_graph st)"
    "vertices (sl_dag st) \<subseteq> hm_keys (cg_cells (sl_conflict_graph st))"
    "v \<in> vertices (sl_dag st) \<Longrightarrow> \<exists>cs. hm_get (cg_cs (sl_conflict_graph st)) v = Some cs"
proof -
  show "dag_wf (sl_dag st)" "cg_wf E (sl_conflict_graph st)"
    and sub: "vertices (sl_dag st) \<subseteq> hm_keys (cg_cells (sl_conflict_graph st))"
    using assms by (auto simp: sleet_graphs_ok_def)
  assume "v \<in> vertices (sl_dag st)"
  then have "v \<in> hm_keys (cg_cs (sl_conflict_graph st))"
    using sub cg_wfD(4)[of E "sl_conflict_graph st"] assms by (auto simp: sleet_graphs_ok_def)
  then show "\<exists>cs. hm_get (cg_cs (sl_conflict_graph st)) v = Some cs" by (rule hm_keys_get)
qed

lemma sleet_invD:
  assumes "sleet_inv E st"
  shows "sleet_graphs_ok E st" "tx_db_ok E (sl_known_txs st)"
    "stored_tx E (sl_known_txs st) h = Some t \<Longrightarrow> tx_hash E t = h"
    "hm_get (cg_cells (sl_conflict_graph st)) h = Some c \<Longrightarrow> cell_hash E c = h"
    "hm_get (cg_cells (sl_conflict_graph st)) h = Some c \<Longrightarrow> stored_tx E (sl_known_txs st) h \<noteq> None"
    "h \<in> hm_keys (dag_chits (sl_dag st)) \<Longrightarrow> stored_tx E (sl_known_txs st) h \<noteq> None"
    "hm_get (cg_cells (sl_conflict_graph st)) h = Some c \<Longrightarrow>
       map_option tx_cell (stored_tx E (sl_known_txs st) h) = Some c"
proof -
  note inv = assms[unfolded sleet_inv_def]
  show "sleet_graphs_ok E st" "tx_db_ok E (sl_known_txs st)"
    "stored_tx E (sl_known_txs st) h = Some t \<Longrightarrow> tx_hash E t = h"
    "hm_get (cg_cells (sl_conflict_graph st)) h = Some c \<Longrightarrow>
       map_option tx_cell (stored_tx E (sl_known_txs st) h) = Some c"
    "h \<in> hm_keys (dag_chits (sl_dag st)) \<Longrightarrow> stored_tx E (sl_known_txs st) h \<noteq> None"
    using inv by blast+
  assume c: "hm_get (cg_cells (sl_conflict_graph st)) h = Some c"
  then have "map_option tx_cell (stored_tx E (sl_known_txs st) h) = Some c" using inv by blast
  then obtain t where t: "stored_tx E (sl_known_txs st) h = Some t" "tx_cell t = c" by auto
  then show "stored_tx E (sl_known_txs st) h \<noteq> None" by simp
  have "tx_hash E t = h" using t(1) inv by blast
  then show "cell_hash E c = h" using t(2) by (simp add: tx_hash_def)
qed

lemma map_option_status_cell [simp]:
  "map_option tx_cell (map_option (\<lambda>t. t\<lparr>tx_status := s\<rparr>) x) = map_option tx_cell x"
  by (cases x) simp_all

lemma remove_vx_cases:
  assumes "dag_wf d" "remove_vx d v = (r, d')"
  shows "if v \<in> vertices d
    then r = Ok (hs_extend [] (children d v)) \<and> dag_wf d' \<and> vertices d' = vertices d - {v} \<and>
      dag_chits d' = dag_chits d \<and> (\<forall>u. u \<noteq> v \<longrightarrow> set (children d' u) = set (children d u) - {v})
    else r = Err UndefinedVertex \<and> d' = d"
proof (cases "v \<in> vertices d")
  case True
  obtain d'' where "remove_vx d v = (Ok (hs_extend [] (children d v)), d'')"
    "dag_chits d'' = dag_chits d" "vertices d'' = vertices d - {v}"
    "\<And>u. children d'' u = (if u = v then [] else filter (\<lambda>e. e \<noteq> v) (children d u))"
    by (rule remove_vx_spec[OF assms(1) True]) (rule that)
  with True assms(2) dag_wf_remove_vx[OF assms(1) True] show ?thesis by auto
next
  case False
  then show ?thesis
    using assms(2) dag_wfD(4)[OF assms(1)] by (simp add: remove_vx_def hm_get_None_iff[THEN iffD2])
qed

section \<open>Preference\<close>

definition prefers :: "'db sleet \<Rightarrow> tx_hash_t \<Rightarrow> bool" where
  "prefers st h \<longleftrightarrow> map_option pref (hm_get (cg_cs (sl_conflict_graph st)) h) = Some h"

definition strongly_preferred :: "'db sleet \<Rightarrow> tx_hash_t \<Rightarrow> bool" where
  "strongly_preferred st h \<longleftrightarrow> (\<forall>u. (h, u) \<in> (edge_rel (sl_dag st))\<^sup>* \<longrightarrow> prefers st u)"

interpretation sleet_preference: ancestral_question
  "sleet_graphs_ok E" sl_dag "\<lambda>st a. map_err SleetGraph (cg_is_preferred (sl_conflict_graph st) a)"
  prefers is_strongly_preferred
  for E :: "'a externs_scheme"
proof
  fix st :: "'b sleet" and v
  assume ok: "sleet_graphs_ok E st"
  show "dag_wf (sl_dag st)" by (rule sleet_graphs_okD(1)[OF ok])
  assume "v \<in> vertices (sl_dag st)"
  from sleet_graphs_okD(4)[OF ok this] obtain cs where "hm_get (cg_cs (sl_conflict_graph st)) v = Some cs" ..
  then show "map_err SleetGraph (cg_is_preferred (sl_conflict_graph st) v) = Ok (prefers st v)"
    by (simp add: cg_is_preferred_def conflicting_cells_def prefers_def cset_is_preferred_def)
next
  fix st :: "'b sleet" and v
  show "is_strongly_preferred st v =
      check_all (\<lambda>a. map_err SleetGraph (cg_is_preferred (sl_conflict_graph st) a)) (dfs (sl_dag st) v)"
    by (simp add: is_strongly_preferred_def)
qed

lemma is_strongly_preferred_eq:
  assumes "sleet_graphs_ok E st" "h \<in> vertices (sl_dag st)"
  shows "is_strongly_preferred st h = Ok (strongly_preferred st h)"
  using sleet_preference.all_ancestors[OF assms] by (simp add: strongly_preferred_def)

section \<open>Parents for a new transaction\<close>

text \<open>
  What the loops of \<open>select_parents\<close> keep: strongly preferred vertices, none reachable from an earlier
  one, and the list of everything reachable from them.
\<close>

definition picked :: "'db sleet \<Rightarrow> tx_hash_t list \<Rightarrow> tx_hash_t list \<Rightarrow> bool" where
  "picked st ps acc \<longleftrightarrow>
     (\<forall>x \<in> set ps. x \<in> vertices (sl_dag st) \<and> strongly_preferred st x) \<and>
     set acc = (\<Union>x \<in> set ps. reach (sl_dag st) x) \<and>
     sorted_wrt (\<lambda>a b. b \<notin> reach (sl_dag st) a) ps"

lemma picked_snoc:
  assumes "sleet_graphs_ok E st" "picked st ps acc" "x \<in> vertices (sl_dag st)" "strongly_preferred st x"
    and "x \<notin> set acc"
  shows "picked st (ps @ [x]) (acc @ dfs (sl_dag st) x)"
  using assms dfs_spec(2)[OF sleet_graphs_okD(1)[OF assms(1)] assms(3)]
  by (auto simp: picked_def reach_def sorted_wrt_append)

lemma picked_accessible: "picked st ps acc \<Longrightarrow> set ps \<subseteq> set acc"
  by (auto simp: picked_def reach_def)

lemma reach_leaf: "dag_wf d \<Longrightarrow> children d l = [] \<Longrightarrow> l \<in> reach d x \<Longrightarrow> x = l"
  using dag_wfD(8)[of d _ l] by (auto simp: reach_def edge_rel_def elim: rtranclE)

lemma select_leaves_spec:
  assumes ok: "sleet_graphs_ok E st" and "picked st ps acc" "set (ps @ ls) \<subseteq> set (leaves (sl_dag st))"
    and "distinct (ps @ ls)" "length ps \<le> p"
  shows "\<exists>ps' acc'. select_leaves st p ls ps acc = Ok (ps', acc') \<and> picked st ps' acc' \<and>
    length ps' \<le> p \<and> set ps \<subseteq> set ps'"
  using assms(2-)
proof (induction ls arbitrary: ps acc)
  case (Cons l ls)
  note wf = sleet_graphs_okD(1)[OF ok]
  have l: "l \<in> vertices (sl_dag st)" "children (sl_dag st) l = []"
    using Cons.prems(2) set_leaves[OF wf] by auto
  show ?case
  proof (cases "length ps < p \<and> strongly_preferred st l")
    case True
    have "l \<notin> set acc"
      using Cons.prems(1,3) reach_leaf[OF wf l(2)] by (auto simp: picked_def)
    from picked_snoc[OF ok Cons.prems(1) l(1) _ this] True
    have "picked st (ps @ [l]) (acc @ dfs (sl_dag st) l)" by blast
    from Cons.IH[OF this] Cons.prems True show ?thesis
      by (auto simp: is_strongly_preferred_eq[OF ok l(1)])
  next
    case False
    then show ?thesis
      using Cons.IH[OF Cons.prems(1)] Cons.prems by (auto simp: is_strongly_preferred_eq[OF ok l(1)])
  qed
qed auto

lemma select_ancestor_spec:
  assumes ok: "sleet_graphs_ok E st" and "picked st ps acc" "set es \<subseteq> vertices (sl_dag st)" "length ps \<le> p"
  shows "\<exists>stop ps' acc'. select_ancestor st p es ps acc = Ok (stop, ps', acc') \<and> picked st ps' acc' \<and>
    length ps' \<le> p \<and> set ps \<subseteq> set ps' \<and>
    (p > 0 \<and> (stop \<or> (\<exists>e \<in> set es. strongly_preferred st e)) \<longrightarrow> ps' \<noteq> [])"
  using assms(2-)
proof (induction es arbitrary: ps acc)
  case (Cons e es)
  have e: "e \<in> vertices (sl_dag st)" using Cons.prems(2) by auto
  note pref = is_strongly_preferred_eq[OF ok e]
  consider "length ps \<ge> p" | "length ps < p" "strongly_preferred st e" "e \<notin> set acc"
    | "length ps < p" "\<not> (strongly_preferred st e \<and> e \<notin> set acc)" by linarith
  then show ?case
  proof cases
    case 1
    then show ?thesis using Cons.prems by auto
  next
    case 2
    moreover have "e \<notin> set ps" using 2(3) picked_accessible[OF Cons.prems(1)] by auto
    ultimately show ?thesis
      using Cons.prems picked_snoc[OF ok Cons.prems(1) e 2(2,3)] by (auto simp: pref)
  next
    case 3
    from Cons.IH[OF Cons.prems(1)] Cons.prems obtain stop ps' acc' where
      r: "select_ancestor st p es ps acc = Ok (stop, ps', acc')" "picked st ps' acc'" "length ps' \<le> p"
        "set ps \<subseteq> set ps'" "p > 0 \<and> (stop \<or> (\<exists>e \<in> set es. strongly_preferred st e)) \<longrightarrow> ps' \<noteq> []"
      by auto
    moreover have "strongly_preferred st e \<Longrightarrow> ps' \<noteq> []"
      using 3(2) Cons.prems(1) r(4) by (auto simp: picked_def)
    ultimately show ?thesis using 3 picked_accessible[OF Cons.prems(1)] by (auto simp: pref)
  qed
qed auto

lemma select_ancestors_spec:
  assumes ok: "sleet_graphs_ok E st" and "picked st ps acc" "set ls \<subseteq> vertices (sl_dag st)" "length ps \<le> p"
  shows "\<exists>ps' acc'. select_ancestors st p ls ps acc = Ok ps' \<and> picked st ps' acc' \<and>
    length ps' \<le> p \<and> set ps \<subseteq> set ps' \<and>
    (p > 0 \<and> (\<exists>l \<in> set ls. \<exists>e \<in> reach (sl_dag st) l. strongly_preferred st e) \<longrightarrow> ps' \<noteq> [])"
  using assms(2-)
proof (induction ls arbitrary: ps acc)
  case (Cons l ls)
  note wf = sleet_graphs_okD(1)[OF ok]
  have l: "l \<in> vertices (sl_dag st)" using Cons.prems(2) by auto
  have d: "set (dfs (sl_dag st) l) = reach (sl_dag st) l" using dfs_spec(2)[OF wf l] by (simp add: reach_def)
  then have "set (dfs (sl_dag st) l) \<subseteq> vertices (sl_dag st)"
    using ancestors_in_graph[OF wf l] by (auto simp: reach_def)
  from select_ancestor_spec[OF ok Cons.prems(1) this Cons.prems(3)] obtain stop ps' acc' where
    r: "select_ancestor st p (dfs (sl_dag st) l) ps acc = Ok (stop, ps', acc')" "picked st ps' acc'"
      "length ps' \<le> p" "set ps \<subseteq> set ps'"
      "p > 0 \<and> (stop \<or> (\<exists>e \<in> reach (sl_dag st) l. strongly_preferred st e)) \<longrightarrow> ps' \<noteq> []"
    unfolding d by (elim exE conjE) (rule that)
  show ?case
  proof (cases stop)
    case True
    with r show ?thesis by auto
  next
    case False
    have "set ls \<subseteq> vertices (sl_dag st)" using Cons.prems(2) by auto
    from Cons.IH[OF r(2) this r(3)] obtain ps'' acc'' where
      q: "select_ancestors st p ls ps' acc' = Ok ps''" "picked st ps'' acc''" "length ps'' \<le> p"
        "set ps' \<subseteq> set ps''"
        "p > 0 \<and> (\<exists>l \<in> set ls. \<exists>e \<in> reach (sl_dag st) l. strongly_preferred st e) \<longrightarrow> ps'' \<noteq> []"
      by (elim exE conjE) (rule that)
    have "select_ancestors st p (l # ls) ps acc = Ok ps''" using r(1) q(1) False by simp
    moreover have "ps'' \<noteq> []" if "p > 0" "\<exists>l \<in> set (l # ls). \<exists>e \<in> reach (sl_dag st) l. strongly_preferred st e"
      using that r(5) q(4,5) by auto
    ultimately show ?thesis using r(4) q(2-4) by blast
  qed
qed auto

lemma select_parents_spec:
  assumes ok: "sleet_graphs_ok E st"
  shows "\<exists>ps. select_parents st p = Ok ps \<and> length ps \<le> p \<and>
    (\<forall>x \<in> set ps. x \<in> vertices (sl_dag st) \<and> strongly_preferred st x) \<and>
    sorted_wrt (\<lambda>a b. b \<notin> reach (sl_dag st) a) ps \<and>
    (p > 0 \<longrightarrow> ps = [] \<longrightarrow> (\<forall>v \<in> vertices (sl_dag st). \<not> strongly_preferred st v))"
proof (cases "dag_g (sl_dag st) = []")
  case True
  then show ?thesis by (simp add: select_parents_def)
next
  case False
  note wf = sleet_graphs_okD(1)[OF ok]
  have dist: "distinct (leaves (sl_dag st))"
    using dag_wfD(2)[OF wf] by (simp add: leaves_def distinct_map_filter)
  have sub: "set (leaves (sl_dag st)) \<subseteq> vertices (sl_dag st)" using set_leaves[OF wf] by auto
  have "picked st [] []" by (simp add: picked_def)
  from select_leaves_spec[OF ok this, of "leaves (sl_dag st)" p] dist obtain ps acc where
    l: "select_leaves st p (leaves (sl_dag st)) [] [] = Ok (ps, acc)" "picked st ps acc" "length ps \<le> p" by auto
  from select_ancestors_spec[OF ok l(2) sub l(3)] obtain ps' acc' where
    a: "select_ancestors st p (leaves (sl_dag st)) ps acc = Ok ps'" "picked st ps' acc'" "length ps' \<le> p"
      "p > 0 \<and> (\<exists>l \<in> set (leaves (sl_dag st)). \<exists>e \<in> reach (sl_dag st) l. strongly_preferred st e) \<longrightarrow> ps' \<noteq> []"
    by (elim exE conjE) (rule that)
  have "\<exists>l \<in> set (leaves (sl_dag st)). v \<in> reach (sl_dag st) l" if "v \<in> vertices (sl_dag st)" for v
    using below_some_leaf[OF wf that] by (auto simp: reach_def)
  then have "\<not> strongly_preferred st v" if "p > 0" "ps' = []" "v \<in> vertices (sl_dag st)" for v
    using a(4) that by blast
  with False l(1) a(1-3) show ?thesis by (simp add: select_parents_def picked_def)
qed

section \<open>Receiving a transaction\<close>

lemma has_parents_remaining:
  assumes "has_parents E st t"
  shows "set (remove_accepted_parents E st (tx_parents t)) \<subseteq> vertices (sl_dag st)"
  using assms
  by (auto simp: has_parents_def has_vertices_def remove_accepted_parents_def Let_def list_all_iff filter_empty_conv
      split: result.splits if_splits)

lemma sleet_insert_spec:
  assumes ok: "sleet_graphs_ok E st" and h: "h = tx_hash E t"
    and new: "h \<notin> hm_keys (cg_cells (sl_conflict_graph st))" "hm_get (dag_chits (sl_dag st)) h \<noteq> Some 1"
    and ps: "has_parents E st t" "distinct (tx_parents t)"
    and ins: "set (cell_ids_from_inputs E (inputs (tx_cell t))) \<subseteq> hm_keys (cg_vertices (sl_conflict_graph st))"
    and outs: "\<forall>i \<in> set (cell_ids_from_outputs E h (outputs (tx_cell t))).
      spenders_of (sl_conflict_graph st) i = {} \<and> i \<notin> set (cell_ids_from_inputs E (inputs (tx_cell t)))"
  shows "\<exists>cg d. sleet_insert E st t = (Ok (), st\<lparr>sl_conflict_graph := cg, sl_dag := d\<rparr>) \<and>
    sleet_graphs_ok E (st\<lparr>sl_conflict_graph := cg, sl_dag := d\<rparr>) \<and>
    cg_cells cg = hm_insert h (tx_cell t) (cg_cells (sl_conflict_graph st)) \<and>
    vertices d = insert h (vertices (sl_dag st)) \<and>
    parents d h = remove_accepted_parents E st (tx_parents t) \<and>
    (\<forall>v. v \<noteq> h \<longrightarrow> parents d v = parents (sl_dag st) v) \<and>
    hm_keys (dag_chits d) = insert h (hm_keys (dag_chits (sl_dag st)))"
proof -
  note g = sleet_graphs_okD[OF ok]
  have hc: "h = cell_hash E (tx_cell t)" using h by (simp add: tx_hash_def)
  from cg_wf_insert_cell[OF g(2) hc new(1) ins outs] obtain cg where
    cg: "insert_cell E (sl_conflict_graph st) (tx_cell t) = (Ok (), cg)" "cg_wf E cg"
      "cg_cells cg = hm_insert h (tx_cell t) (cg_cells (sl_conflict_graph st))" by (elim exE conjE) (rule that)
  let ?ps = "remove_accepted_parents E st (tx_parents t)"
  have hv: "h \<notin> vertices (sl_dag st)" using g(3) new(1) by auto
  have d1: "distinct ?ps" using ps(2) by (simp add: remove_accepted_parents_def)
  obtain d where d: "insert_vx (sl_dag st) h ?ps = (Ok (), d)" "vertices d = insert h (vertices (sl_dag st))"
    "hm_get (dag_chits d) = (hm_get (dag_chits (sl_dag st)))(h \<mapsto> 0)"
    "\<And>v. parents d v = (if v = h then ?ps else parents (sl_dag st) v)"
    by (rule insert_vx_spec[OF g(1) hv has_parents_remaining[OF ps(1)] d1 new(2)]) (rule that)
  have wfd: "dag_wf d" using dag_wf_insert_vx[OF g(1) hv has_parents_remaining[OF ps(1)] d1 new(2) d(1)] by simp
  have chits: "hm_keys (dag_chits d) = insert h (hm_keys (dag_chits (sl_dag st)))"
    using d(3) unfolding dom_map_of_conv_image_fst[symmetric] by simp
  have same: "remove_accepted_parents E (st\<lparr>sl_conflict_graph := cg\<rparr>) = remove_accepted_parents E st"
    by (simp add: fun_eq_iff remove_accepted_parents_def)
  have run: "sleet_insert E st t = (Ok (), st\<lparr>sl_conflict_graph := cg, sl_dag := d\<rparr>)"
    using cg(1) d(1) by (simp add: sleet_insert_def on_cg_def on_dag_def same Let_def h[symmetric])
  have "sleet_graphs_ok E (st\<lparr>sl_conflict_graph := cg, sl_dag := d\<rparr>)"
    using wfd cg(2,3) d(2) g(3) by (auto simp: sleet_graphs_ok_def)
  with run cg(3) d(2,4) chits show ?thesis by (intro exI[of _ cg] exI[of _ d]) simp
qed

lemma on_receive_new_tx:
  assumes E: "storage_ok E" and inv: "sleet_inv E st" and h: "h = tx_hash E t"
    and t: "\<not> has_coinbase_output (tx_cell t)" "stored_tx E (sl_known_txs st) h = None"
    and ps: "has_parents E st t" "distinct (tx_parents t)"
    and ins: "set (cell_ids_from_inputs E (inputs (tx_cell t))) \<subseteq> hm_keys (cg_vertices (sl_conflict_graph st))"
    and outs: "\<forall>i \<in> set (cell_ids_from_outputs E h (outputs (tx_cell t))).
      spenders_of (sl_conflict_graph st) i = {} \<and> i \<notin> set (cell_ids_from_inputs E (inputs (tx_cell t)))"
  shows "\<exists>st'. on_receive_tx E st t = (Ok True, st') \<and> sleet_inv E st' \<and>
    vertices (sl_dag st') = insert h (vertices (sl_dag st)) \<and>
    parents (sl_dag st') h = remove_accepted_parents E st (tx_parents t) \<and>
    stored_tx E (sl_known_txs st') = (stored_tx E (sl_known_txs st))(h \<mapsto> t\<lparr>tx_status := TxPending\<rparr>)"
proof -
  note i = sleet_invD[OF inv]
  let ?t = "t\<lparr>tx_status := TxPending\<rparr>"
  have eq: "tx_hash E ?t = h" "tx_cell ?t = tx_cell t" "tx_parents ?t = tx_parents t" "has_parents E st ?t"
    using h ps(1) by (simp_all add: tx_hash_def has_parents_def)
  have new: "h \<notin> hm_keys (cg_cells (sl_conflict_graph st))" "hm_get (dag_chits (sl_dag st)) h \<noteq> Some 1"
    using i(5)[of h] i(6)[of h] t(2) hm_keys_get[of h "cg_cells (sl_conflict_graph st)"]
      hm_get_Some_keys[of "dag_chits (sl_dag st)" h] by (blast, blast)
  obtain cg d where g: "sleet_insert E st ?t = (Ok (), st\<lparr>sl_conflict_graph := cg, sl_dag := d\<rparr>)"
    "sleet_graphs_ok E (st\<lparr>sl_conflict_graph := cg, sl_dag := d\<rparr>)"
    "cg_cells cg = hm_insert h (tx_cell t) (cg_cells (sl_conflict_graph st))"
    "vertices d = insert h (vertices (sl_dag st))"
    "parents d h = remove_accepted_parents E st (tx_parents t)"
    "hm_keys (dag_chits d) = insert h (hm_keys (dag_chits (sl_dag st)))"
    using sleet_insert_spec[OF i(1) eq(1)[symmetric] new eq(4)] ps(2) ins outs unfolding eq
    by (elim exE conjE meta_impE) (auto intro: that)
  obtain r db where b: "insert_tx E (sl_known_txs st) ?t = (r, db)" by fastforce
  note s = stored_tx_insert[OF E i(2) b, unfolded eq]
  let ?st = "st\<lparr>sl_conflict_graph := cg, sl_dag := d, sl_known_txs := db\<rparr>"
  have "is_new_tx E (sl_known_txs st) (tx_hash E t) = Ok True"
    using t(2) h by (simp add: is_new_tx_def stored_tx_lookup[OF E i(2)])
  then have run: "on_receive_tx E st t = (Ok True, ?st)"
    using t(1) ps(1) g(1) b by (simp add: on_receive_tx_def Let_def)
  have "sleet_inv E ?st"
    using g(2,3,6) s(2,3) i(3,6,7) h eq(1) unfolding sleet_inv_def
    by (auto simp: sleet_graphs_ok_def tx_hash_def split: if_splits)
  with run g(4,5) s(3) show ?thesis by simp
qed

end
