(* ===== verification/Sleet_Conflicts.thy ===== *)
theory Sleet_Conflicts
  imports Sleet_Safety
begin

text \<open>
  Conflict resolution in the transaction consensus: what \<^verbatim>\<open>remove_conflicts\<close> of
  \<^verbatim>\<open>sleet.rs\<close> takes out of the DAG, the conflict graph and the store. The two loops remove
  the progeny of the rejected transactions; they succeed when that progeny is a forest.
\<close>

section \<open>Cells only leave the conflict graph when conflicts are resolved\<close>

lemma remove_from_vertices_cells: "remove_from_vertices E G h = (r, G') \<Longrightarrow> cg_cells G' = cg_cells G"
  by (auto simp: remove_from_vertices_def split: option.splits prod.splits result.splits)

lemma remove_cell_cells:
  assumes "remove_cell E G h = (r, G')" "hm_get (cg_cells G') k = Some c"
  shows "hm_get (cg_cells G) k = Some c"
  using assms
  by (auto simp: remove_cell_def dest!: remove_from_vertices_cells
      split: option.splits prod.splits result.splits if_splits)

lemma remove_competitors_cells:
  "remove_competitors E h ks G = (r, G') \<Longrightarrow> hm_get (cg_cells G') k = Some c \<Longrightarrow> hm_get (cg_cells G) k = Some c"
  by (induction ks arbitrary: G)
    (auto split: if_splits prod.splits result.splits dest: remove_cell_cells)

lemma accept_cell_cells:
  assumes "accept_cell E G c = (r, G')" "hm_get (cg_cells G') k = Some c'"
  shows "hm_get (cg_cells G) k = Some c'"
  using assms
  by (auto simp: accept_cell_def Let_def dest!: remove_competitors_cells
      split: option.splits prod.splits result.splits if_splits)

section \<open>Removing the progeny of rejected transactions\<close>

text \<open>The vertices that have a vertex of a set among their ancestors, that set included.\<close>

definition progeny :: "'v dag \<Rightarrow> 'v set \<Rightarrow> 'v set" where
  "progeny d R = {v. \<exists>r \<in> R. (v, r) \<in> (edge_rel d)\<^sup>*}"

lemma progeny_self: "R \<subseteq> progeny d R"
  by (auto simp: progeny_def)

lemma progeny_child: "dag_wf d \<Longrightarrow> v \<in> progeny d R \<Longrightarrow> set (children d v) \<subseteq> progeny d R"
proof
  fix u assume wf: "dag_wf d" and v: "v \<in> progeny d R" and "u \<in> set (children d v)"
  then have "(u, v) \<in> edge_rel d" by (simp add: edge_rel_def dag_wfD(8))
  with v show "u \<in> progeny d R" unfolding progeny_def by (blast intro: converse_rtrancl_into_rtrancl)
qed

lemma progeny_least:
  assumes "dag_wf d" "R \<subseteq> S" "\<And>v. v \<in> S \<Longrightarrow> set (children d v) \<subseteq> S"
  shows "progeny d R \<subseteq> S"
proof
  fix v assume "v \<in> progeny d R"
  then obtain r where r: "r \<in> R" "(v, r) \<in> (edge_rel d)\<^sup>*" by (auto simp: progeny_def)
  from r(2) show "v \<in> S"
  proof (induction rule: converse_rtrancl_induct)
    case base
    show ?case using r(1) assms(2) by auto
  next
    case (step y z)
    have "y \<in> set (children d z)" using step(1) dag_wfD(8)[OF assms(1)] by (simp add: edge_rel_def)
    with step.IH assms(3) show ?case by blast
  qed
qed

lemma progeny_vertices:
  assumes "dag_wf d" "R \<subseteq> vertices d"
  shows "progeny d R \<subseteq> vertices d"
  using progeny_least[OF assms] children_subset[OF assms(1)] by blast

text \<open>
  The invariant of the two loops: \<open>R\<close> has been removed, \<open>Q\<close> is queued, and the children of removed
  vertices are removed or queued. \<open>st0\<close> is the state at the start and \<open>rej\<close> the rejected transactions.
\<close>

definition marked :: "tx_hash_t set \<Rightarrow> tx_hash_t set \<Rightarrow> tx_hash_t \<Rightarrow> tx \<Rightarrow> tx" where
  "marked rej R h t = (if h \<in> rej \<inter> R then t\<lparr>tx_status := TxRejected\<rparr>
                       else if h \<in> R then t\<lparr>tx_status := TxRemoved\<rparr> else t)"

lemma marked_cell [simp]: "map_option tx_cell (map_option (marked rej R h) x) = map_option tx_cell x"
  by (cases x) (simp_all add: marked_def)

definition removing ::
  "('db, 'v, 'a) storage_externs_scheme \<Rightarrow> 'db sleet \<Rightarrow> tx_hash_t set \<Rightarrow> tx_hash_t set \<Rightarrow> tx_hash_t list
   \<Rightarrow> 'db sleet \<Rightarrow> bool" where
  "removing E st0 rej R Q st \<longleftrightarrow>
     dag_wf (sl_dag st) \<and> vertices (sl_dag st) = vertices (sl_dag st0) - R \<and>
     dag_chits (sl_dag st) = dag_chits (sl_dag st0) \<and>
     (\<forall>v. v \<notin> R \<longrightarrow> set (children (sl_dag st) v) = set (children (sl_dag st0) v) - R) \<and>
     R \<union> set Q \<subseteq> progeny (sl_dag st0) rej \<and>
     (\<forall>v \<in> R. set (children (sl_dag st0) v) \<subseteq> R \<union> set Q) \<and>
     tx_db_ok E (sl_known_txs st) \<and>
     stored_tx E (sl_known_txs st) = (\<lambda>h. map_option (marked rej R h) (stored_tx E (sl_known_txs st0) h))"

lemma removingD:
  assumes "removing E st0 rej R Q st"
  shows "dag_wf (sl_dag st)" "vertices (sl_dag st) = vertices (sl_dag st0) - R"
    "v \<notin> R \<Longrightarrow> set (children (sl_dag st) v) = set (children (sl_dag st0) v) - R"
    "R \<subseteq> progeny (sl_dag st0) rej" "set Q \<subseteq> progeny (sl_dag st0) rej"
    "tx_db_ok E (sl_known_txs st)"
    "stored_tx E (sl_known_txs st0) h \<noteq> None \<Longrightarrow> stored_tx E (sl_known_txs st) h \<noteq> None"
  using assms unfolding removing_def by (blast, blast, blast, blast, blast, blast, simp)

text \<open>One vertex goes: its status is set, it leaves the DAG and its children are queued.\<close>

lemma removing_step:
  assumes inv: "removing E st0 rej R (v # Q) st" and E: "storage_ok E" and wf0: "dag_wf (sl_dag st0)"
    and v: "v \<in> vertices (sl_dag st)" and status: "s = (if v \<in> rej then TxRejected else TxRemoved)"
    and db: "set_tx_status E (sl_known_txs st) v s = (r, db)" and d: "remove_vx (sl_dag st) v = (r', d)"
  shows "r' = Ok (hs_extend [] (children (sl_dag st) v))"
    "removing E st0 rej (insert v R) (Q @ hs_extend [] (children (sl_dag st) v))
       (st\<lparr>sl_known_txs := db, sl_conflict_graph := cg, sl_dag := d\<rparr>)"
proof -
  note i = inv[unfolded removing_def]
  have wf: "dag_wf (sl_dag st)" and vR: "v \<notin> R" "v \<in> vertices (sl_dag st0)" using i v by auto
  from remove_vx_cases[OF wf d] v
  have x: "r' = Ok (hs_extend [] (children (sl_dag st) v))" "dag_wf d" "vertices d = vertices (sl_dag st) - {v}"
    "dag_chits d = dag_chits (sl_dag st)" "\<And>u. u \<noteq> v \<Longrightarrow> set (children d u) = set (children (sl_dag st) u) - {v}"
    by auto
  show "r' = Ok (hs_extend [] (children (sl_dag st) v))" by (rule x(1))
  have ok: "tx_db_ok E (sl_known_txs st)" using i by blast
  note s = stored_tx_set_status[OF E ok db]
  have cv: "set (children (sl_dag st) v) = set (children (sl_dag st0) v) - R" using i vR by blast
  have vp: "v \<in> progeny (sl_dag st0) rej" using i by auto
  have stored: "stored_tx E db = (\<lambda>h. map_option (marked rej (insert v R) h) (stored_tx E (sl_known_txs st0) h))"
    using i s(3) vR(1) status by (auto simp: fun_eq_iff marked_def option.map_comp comp_def intro!: map_option_cong)
  show "removing E st0 rej (insert v R) (Q @ hs_extend [] (children (sl_dag st) v))
       (st\<lparr>sl_known_txs := db, sl_conflict_graph := cg, sl_dag := d\<rparr>)"
    using i x s(2) stored cv progeny_child[OF wf0 vp] unfolding removing_def by auto
qed

lemma removing_queue: "set Q = set Q' \<Longrightarrow> removing E st0 rej R Q st \<Longrightarrow> removing E st0 rej R Q' st"
  by (simp add: removing_def)

lemma reject_txs_removing:
  assumes "reject_txs E hs ch st = (Ok ch', st')" "removing E st0 rej R (hs @ ch) st" "set hs \<subseteq> rej"
    and E: "storage_ok E" "dag_wf (sl_dag st0)"
  shows "removing E st0 rej (R \<union> set hs) ch' st' \<and> sl_conflict_graph st' = sl_conflict_graph st \<and>
    set hs \<subseteq> vertices (sl_dag st)"
  using assms(1-3)
proof (induction hs arbitrary: ch R st)
  case (Cons h hs)
  obtain r db where db: "set_tx_status E (sl_known_txs st) h TxRejected = (r, db)" by fastforce
  obtain r' d where d: "remove_vx (sl_dag st) h = (r', d)" by fastforce
  have wf: "dag_wf (sl_dag st)" using Cons.prems(2) by (simp add: removing_def)
  have ok: "r = Ok ()" "\<exists>cs. r' = Ok cs" using Cons.prems(1) db d by (cases r; cases r'; auto simp: on_db_def on_dag_def)+
  then have h: "h \<in> vertices (sl_dag st)" using remove_vx_cases[OF wf d] by (auto split: if_splits)
  have rej: "h \<in> rej" using Cons.prems(3) by simp
  have q: "removing E st0 rej R (h # (hs @ ch)) st" using Cons.prems(2) by simp
  note step = removing_step(1)[OF q E h _ db d] removing_step(2)[OF q E h _ db d, where cg = "sl_conflict_graph st"]
  let ?cs = "hs_extend [] (children (sl_dag st) h)"
  let ?st = "st\<lparr>sl_known_txs := db, sl_dag := d\<rparr>"
  have r': "r' = Ok ?cs" using step(1) rej by simp
  have "removing E st0 rej (insert h R) ((hs @ ch) @ ?cs) ?st"
    using step(2) rej by simp
  then have inv: "removing E st0 rej (insert h R) (hs @ (ch @ ?cs)) ?st" by simp
  have "reject_txs E hs (ch @ ?cs) ?st = (Ok ch', st')"
    using Cons.prems(1) db d ok(1) r' by (simp add: on_db_def on_dag_def)
  moreover have "vertices d = vertices (sl_dag st) - {h}" using remove_vx_cases[OF wf d] h by auto
  ultimately show ?case using Cons.IH[OF _ inv] Cons.prems(3) h by auto
qed auto

lemma remove_cell_known:
  assumes "cg_wf E G" "remove_cell E G h = (Ok u, G')"
  shows "h \<in> hm_keys (cg_cells G)" "cg_wf E G'" "cg_cells G' = hm_remove h (cg_cells G)"
proof -
  have "hm_get (cg_cs G) h \<noteq> None" using assms(2) by (auto simp: remove_cell_def split: option.splits)
  then show h: "h \<in> hm_keys (cg_cells G)"
    using cg_wfD(4)[OF assms(1)] by (auto dest: hm_get_Some_keys)
  from cg_wf_remove_cell[OF assms(1) h] assms(2) show "cg_wf E G'" "cg_cells G' = hm_remove h (cg_cells G)" by auto
qed

lemma remove_progeny_removing:
  assumes "remove_progeny E Q st = (Ok (), st')" "removing E st0 rej R Q st"
    and "cg_wf E (sl_conflict_graph st)" "rej \<subseteq> R"
    and "hm_keys (cg_cells (sl_conflict_graph st)) = hm_keys (cg_cells (sl_conflict_graph st0)) - R"
    and "storage_ok E" "dag_wf (sl_dag st0)" "rej \<subseteq> vertices (sl_dag st0)"
  shows "\<exists>R'. rej \<subseteq> R' \<and> removing E st0 rej R' [] st' \<and> cg_wf E (sl_conflict_graph st') \<and>
    hm_keys (cg_cells (sl_conflict_graph st')) = hm_keys (cg_cells (sl_conflict_graph st0)) - R' \<and>
    (\<forall>k c. hm_get (cg_cells (sl_conflict_graph st')) k = Some c \<longrightarrow>
       hm_get (cg_cells (sl_conflict_graph st)) k = Some c)"
  using assms
proof (induction E Q st arbitrary: R rule: remove_progeny.induct)
  case (1 E st)
  then show ?case by auto
next
  case (2 E h hs st)
  obtain r db where db: "set_tx_status E (sl_known_txs st) h TxRemoved = (r, db)" by fastforce
  obtain r1 cg where cg: "remove_cell E (sl_conflict_graph st) h = (r1, cg)" by fastforce
  obtain r2 d where d: "remove_vx (sl_dag st) h = (r2, d)" by fastforce
  let ?st2 = "st\<lparr>sl_known_txs := db, sl_conflict_graph := cg\<rparr>"
  let ?step = "st_bind (on_db (set_tx_status E (sl_known_txs st) h TxRemoved) st)
    (\<lambda>_ st1. on_cg (remove_cell E (sl_conflict_graph st1) h) st1)"
  have ok: "r = Ok ()" "r1 = Ok ()"
    using 2(3) db cg by (cases r; cases r1; auto simp: on_db_def on_cg_def)+
  then have step: "?step = (Ok (), ?st2)" using db cg by (simp add: on_db_def on_cg_def)
  note c = remove_cell_known[OF 2(5) cg[unfolded ok]]
  have "h \<in> progeny (sl_dag st0) rej" using 2(4) by (simp add: removing_def)
  then have hv: "h \<in> vertices (sl_dag st)" and hR: "h \<notin> R"
    using c(1) 2(4,7) progeny_vertices[OF 2(9,10)] by (auto simp: removing_def)
  let ?cs = "hs_extend [] (children (sl_dag st) h)"
  let ?st3 = "st\<lparr>sl_known_txs := db, sl_conflict_graph := cg, sl_dag := d\<rparr>"
  have nrej: "h \<notin> rej" using hR 2(6) by auto
  have r2: "r2 = Ok ?cs" and inv: "removing E st0 rej (insert h R) (hs @ ?cs) ?st3"
    using removing_step(1)[OF 2(4,8,9) hv _ db d] removing_step(2)[OF 2(4,8,9) hv _ db d, where cg = cg] nrej by auto
  have run: "remove_progeny E (hs @ ?cs) ?st3 = (Ok (), st')"
    using 2(3) step d r2 by simp
  have keys: "hm_keys (cg_cells (sl_conflict_graph ?st3)) = hm_keys (cg_cells (sl_conflict_graph st0)) - insert h R"
    using c(3) 2(7) by auto
  have prems: "cg_wf E (sl_conflict_graph ?st3)" "rej \<subseteq> insert h R" using c(2) 2(6) by auto
  have rv: "(Ok ?cs, d) = remove_vx (sl_dag ?st2) h" using d r2 by simp
  from 2(1)[OF step[symmetric] refl rv refl run inv prems keys 2(8-10)] obtain R' where
    R': "rej \<subseteq> R'" "removing E st0 rej R' [] st'" "cg_wf E (sl_conflict_graph st')"
      "hm_keys (cg_cells (sl_conflict_graph st')) = hm_keys (cg_cells (sl_conflict_graph st0)) - R'"
      "\<forall>k c. hm_get (cg_cells (sl_conflict_graph st')) k = Some c \<longrightarrow> hm_get (cg_cells (sl_conflict_graph ?st3)) k = Some c"
    by (elim exE conjE) (rule that)
  have "hm_get (cg_cells (sl_conflict_graph st)) k = Some c"
    if "hm_get (cg_cells (sl_conflict_graph st')) k = Some c" for k c
    using R'(5)[rule_format, OF that] c(3) by (auto split: if_splits)
  with R'(1-4) show ?case by (intro exI[of _ R']) blast
qed

lemma removing_done:
  assumes "removing E st0 rej R [] st" "rej \<subseteq> R" "dag_wf (sl_dag st0)"
  shows "R = progeny (sl_dag st0) rej"
  using assms progeny_least[OF assms(3,2)] by (auto simp: removing_def)

lemma removing_start:
  assumes "dag_wf (sl_dag st0)" "tx_db_ok E (sl_known_txs st0)" "set hs = rej"
    "sl_dag st = sl_dag st0" "sl_known_txs st = sl_known_txs st0"
  shows "removing E st0 rej {} (hs @ []) st"
proof -
  have "marked rej {} x = (\<lambda>t. t)" for x by (simp add: marked_def fun_eq_iff)
  then show ?thesis using assms progeny_self[of rej "sl_dag st0"] by (simp add: removing_def option.map_ident)
qed

lemma remove_conflicts_Ok:
  assumes E: "storage_ok E" and inv: "sleet_inv E st" and h: "h = tx_hash E t"
    and c: "hm_get (cg_cells (sl_conflict_graph st)) h = Some (tx_cell t)"
    and run: "remove_conflicts E st t = (Ok (), st')"
    and rej: "rej = competitors E (sl_conflict_graph st) h - {h}"
  shows "sleet_inv E st' \<and>
    vertices (sl_dag st') = vertices (sl_dag st) - progeny (sl_dag st) rej \<and>
    hm_keys (cg_cells (sl_conflict_graph st')) = hm_keys (cg_cells (sl_conflict_graph st)) - progeny (sl_dag st) rej \<and>
    (\<forall>k c. hm_get (cg_cells (sl_conflict_graph st')) k = Some c \<longrightarrow> hm_get (cg_cells (sl_conflict_graph st)) k = Some c) \<and>
    stored_tx E (sl_known_txs st') =
      (\<lambda>k. map_option (marked rej (progeny (sl_dag st) rej) k) (stored_tx E (sl_known_txs st) k))"
proof -
  note i = sleet_invD[OF inv] note g = sleet_graphs_okD[OF i(1)]
  have hc: "h = cell_hash E (tx_cell t)" using h by (simp add: tx_hash_def)
  from accept_cell_spec[OF g(2) hc c] obtain rejected cg where
    a: "accept_cell E (sl_conflict_graph st) (tx_cell t) = (Ok rejected, cg)" "cg_wf E cg" "set rejected = rej"
      "hm_keys (cg_cells cg) = hm_keys (cg_cells (sl_conflict_graph st)) - rej"
    unfolding rej by auto
  let ?st1 = "st\<lparr>sl_conflict_graph := cg\<rparr>"
  obtain ch st2 where r: "reject_txs E rejected [] ?st1 = (Ok ch, st2)" "remove_progeny E ch st2 = (Ok (), st')"
    using run a(1) by (auto simp: remove_conflicts_def on_cg_def result_simps)
  have start: "removing E st rej {} (rejected @ []) ?st1"
    using g(1) i(2) a(3) by (intro removing_start) simp_all
  from reject_txs_removing[OF r(1) start _ E g(1), unfolded a(3)]
  have m: "removing E st rej rej ch st2" "sl_conflict_graph st2 = cg" and sub: "rej \<subseteq> vertices (sl_dag st)"
    by simp_all
  from remove_progeny_removing[OF r(2) m(1) _ subset_refl _ E g(1) sub] m(2) a(2,4) obtain R where
    R: "rej \<subseteq> R" "removing E st rej R [] st'" "cg_wf E (sl_conflict_graph st')"
      "hm_keys (cg_cells (sl_conflict_graph st')) = hm_keys (cg_cells (sl_conflict_graph st)) - R"
      "\<forall>k c. hm_get (cg_cells (sl_conflict_graph st')) k = Some c \<longrightarrow> hm_get (cg_cells cg) k = Some c" by auto
  have cells: "hm_get (cg_cells (sl_conflict_graph st)) k = Some c"
    if "hm_get (cg_cells (sl_conflict_graph st')) k = Some c" for k c
    using accept_cell_cells[OF a(1)] R(5) that by blast
  have Rp: "R = progeny (sl_dag st) rej" using removing_done[OF R(2,1) g(1)] .
  note f = R(2)[unfolded removing_def]
  have "sleet_graphs_ok E st'" using f R(3,4) g(3) by (auto simp: sleet_graphs_ok_def)
  moreover have "tx_hash E t' = k" if "stored_tx E (sl_known_txs st') k = Some t'" for k t'
    using that f i(3) by (auto simp: marked_def tx_hash_def split: if_splits)
  moreover have "map_option tx_cell (stored_tx E (sl_known_txs st') k) = map_option tx_cell (stored_tx E (sl_known_txs st) k)" for k
    using f by simp
  moreover have "stored_tx E (sl_known_txs st') k \<noteq> None" if "k \<in> hm_keys (dag_chits (sl_dag st'))" for k
    using f i(6) that by simp
  ultimately have "sleet_inv E st'"
    using f i(7) cells unfolding sleet_inv_def by simp
  then show ?thesis using f R(4) cells unfolding Rp by auto
qed

text \<open>
  The loops succeed when the progeny is a forest: no vertex has two parents in it, and no rejected
  transaction has one. Then no vertex is queued twice.
\<close>

definition forest :: "'v dag \<Rightarrow> 'v set \<Rightarrow> bool" where
  "forest d rej \<longleftrightarrow>
     (\<forall>v \<in> rej. set (parents d v) \<inter> progeny d rej = {}) \<and>
     (\<forall>v \<in> progeny d rej. \<forall>p \<in> set (parents d v) \<inter> progeny d rej. \<forall>q \<in> set (parents d v) \<inter> progeny d rej. p = q)"

definition queued :: "'v dag \<Rightarrow> 'v set \<Rightarrow> 'v set \<Rightarrow> 'v list \<Rightarrow> bool" where
  "queued d rej R Q \<longleftrightarrow>
     distinct Q \<and> set Q \<inter> R = {} \<and> (\<forall>q \<in> set Q. q \<in> rej \<or> (\<exists>p \<in> R. p \<in> set (parents d q)))"

lemma queued_step:
  assumes inv: "removing E st0 rej R (v # Q) st" and wf0: "dag_wf (sl_dag st0)"
    and f: "forest (sl_dag st0) rej" and q: "queued (sl_dag st0) rej R (v # Q)"
  shows "queued (sl_dag st0) rej (insert v R) (Q @ hs_extend [] (children (sl_dag st) v))"
proof -
  note i = removingD[OF inv]
  have vp: "v \<in> progeny (sl_dag st0) rej" and vR: "v \<notin> R" using i(5) q by (simp_all add: queued_def)
  have cv: "set (children (sl_dag st) v) = set (children (sl_dag st0) v) - R" using i(3)[OF vR] .
  have new: "c \<notin> set Q" "c \<noteq> v" "c \<notin> R" "v \<in> set (parents (sl_dag st0) c)" if c: "c \<in> set (children (sl_dag st) v)" for c
  proof -
    show p: "v \<in> set (parents (sl_dag st0) c)" and "c \<notin> R" using c cv dag_wfD(8)[OF wf0, of c v] by auto
    show "c \<noteq> v" using no_self_edge[OF wf0, of v] p by auto
    have "c \<in> progeny (sl_dag st0) rej" using progeny_child[OF wf0 vp] c cv by auto
    then have "p' = v" if "p' \<in> R" "p' \<in> set (parents (sl_dag st0) c)" for p'
      using f that p vp i(4) unfolding forest_def by blast
    moreover have "c \<notin> rej" using f p vp unfolding forest_def by blast
    ultimately show "c \<notin> set Q" using q vR unfolding queued_def by auto
  qed
  show ?thesis using q new unfolding queued_def by auto
qed

lemma reject_txs_total:
  assumes "removing E st0 rej R (hs @ ch) st" "queued (sl_dag st0) rej R (hs @ ch)"
    and "set hs \<subseteq> vertices (sl_dag st)" "set hs \<subseteq> rej"
    and E: "storage_ok E" "dag_wf (sl_dag st0)" and f: "forest (sl_dag st0) rej"
    and known: "\<forall>v \<in> vertices (sl_dag st0). stored_tx E (sl_known_txs st0) v \<noteq> None"
  shows "\<exists>ch' st'. reject_txs E hs ch st = (Ok ch', st') \<and> queued (sl_dag st0) rej (R \<union> set hs) ch'"
  using assms(1-4)
proof (induction hs arbitrary: ch R st)
  case (Cons h hs)
  obtain r db where db: "set_tx_status E (sl_known_txs st) h TxRejected = (r, db)" by fastforce
  obtain r' d where d: "remove_vx (sl_dag st) h = (r', d)" by fastforce
  have h: "h \<in> vertices (sl_dag st)" "h \<in> rej" using Cons.prems(3,4) by auto
  have q: "removing E st0 rej R (h # (hs @ ch)) st" "queued (sl_dag st0) rej R (h # (hs @ ch))"
    using Cons.prems(1,2) by simp_all
  note i = removingD[OF q(1)]
  have "stored_tx E (sl_known_txs st) h \<noteq> None" using i(7)[of h] known h(1) unfolding i(2) by blast
  then have r: "r = Ok ()" using stored_tx_set_status(1)[OF E(1) i(6) db] by simp
  let ?cs = "hs_extend [] (children (sl_dag st) h)"
  let ?st = "st\<lparr>sl_known_txs := db, sl_dag := d\<rparr>"
  have r': "r' = Ok ?cs" and inv: "removing E st0 rej (insert h R) (hs @ (ch @ ?cs)) ?st"
    using removing_step(1)[OF q(1) E h(1) _ db d] removing_step(2)[OF q(1) E h(1) _ db d, where cg = "sl_conflict_graph st"] h(2)
    by simp_all
  have "queued (sl_dag st0) rej (insert h R) (hs @ (ch @ ?cs))" using queued_step[OF q(1) E(2) f q(2)] by simp
  moreover have "vertices d = vertices (sl_dag st) - {h}" using remove_vx_cases[OF i(1) d] h(1) by simp
  moreover have "h \<notin> set hs" using q(2) by (simp add: queued_def)
  ultimately have "\<exists>ch' st'. reject_txs E hs (ch @ ?cs) ?st = (Ok ch', st') \<and> queued (sl_dag st0) rej (insert h R \<union> set hs) ch'"
    using Cons.prems(3,4) by (intro Cons.IH[OF inv]) auto
  then show ?case using db d r r' by (simp add: on_db_def on_dag_def)
qed auto

lemma remove_progeny_total:
  assumes "removing E st0 rej R Q st" "queued (sl_dag st0) rej R Q"
    and "cg_wf E (sl_conflict_graph st)" "rej \<subseteq> R"
    and "hm_keys (cg_cells (sl_conflict_graph st)) = hm_keys (cg_cells (sl_conflict_graph st0)) - R"
    and "storage_ok E" "dag_wf (sl_dag st0)" "rej \<subseteq> vertices (sl_dag st0)" "forest (sl_dag st0) rej"
    and "\<forall>v \<in> vertices (sl_dag st0). stored_tx E (sl_known_txs st0) v \<noteq> None"
    and "vertices (sl_dag st0) \<subseteq> hm_keys (cg_cells (sl_conflict_graph st0))"
  shows "\<exists>st'. remove_progeny E Q st = (Ok (), st')"
  using assms
proof (induction E Q st arbitrary: R rule: remove_progeny.induct)
  case (2 E h hs st)
  note p = 2(3-13)
  obtain r db where db: "set_tx_status E (sl_known_txs st) h TxRemoved = (r, db)" by fastforce
  obtain r2 d where d: "remove_vx (sl_dag st) h = (r2, d)" by fastforce
  note i = removingD[OF p(1)]
  have hR: "h \<notin> R" using p(2) by (simp add: queued_def)
  have h0: "h \<in> vertices (sl_dag st0)" using i(5) progeny_vertices[OF p(7,8)] by auto
  then have hv: "h \<in> vertices (sl_dag st)" using i(2) hR by simp
  have hc: "h \<in> hm_keys (cg_cells (sl_conflict_graph st))" using p(5,11) h0 hR by auto
  from cg_wf_remove_cell[OF p(3) hc] obtain cg where
    cg: "remove_cell E (sl_conflict_graph st) h = (Ok (), cg)" "cg_wf E cg"
      "cg_cells cg = hm_remove h (cg_cells (sl_conflict_graph st))" by (elim exE conjE) (rule that)
  have "stored_tx E (sl_known_txs st) h \<noteq> None" using i(7) p(10) h0 by blast
  then have r: "r = Ok ()" using stored_tx_set_status(1)[OF p(6) i(6) db] by simp
  let ?st2 = "st\<lparr>sl_known_txs := db, sl_conflict_graph := cg\<rparr>"
  let ?step = "st_bind (on_db (set_tx_status E (sl_known_txs st) h TxRemoved) st)
    (\<lambda>_ st1. on_cg (remove_cell E (sl_conflict_graph st1) h) st1)"
  have step: "?step = (Ok (), ?st2)" using db r cg(1) by (simp add: on_db_def on_cg_def)
  let ?cs = "hs_extend [] (children (sl_dag st) h)"
  let ?st3 = "st\<lparr>sl_known_txs := db, sl_conflict_graph := cg, sl_dag := d\<rparr>"
  have nrej: "h \<notin> rej" using hR p(4) by auto
  have r2: "r2 = Ok ?cs" and inv: "removing E st0 rej (insert h R) (hs @ ?cs) ?st3"
    using removing_step(1)[OF p(1,6,7) hv _ db d] removing_step(2)[OF p(1,6,7) hv _ db d, where cg = cg] nrej by auto
  have q: "queued (sl_dag st0) rej (insert h R) (hs @ ?cs)" by (rule queued_step[OF p(1,7,9,2)])
  have keys: "hm_keys (cg_cells (sl_conflict_graph ?st3)) = hm_keys (cg_cells (sl_conflict_graph st0)) - insert h R"
    using cg(3) p(5) by auto
  have prems: "cg_wf E (sl_conflict_graph ?st3)" "rej \<subseteq> insert h R" using cg(2) p(4) by auto
  have rv: "(Ok ?cs, d) = remove_vx (sl_dag ?st2) h" using d r2 by simp
  from 2(1)[OF step[symmetric] refl rv refl inv q prems keys p(6-11)]
  show ?case using step d r2 by simp
qed simp

lemma remove_conflicts_total:
  assumes E: "storage_ok E" and inv: "sleet_inv E st" and h: "h = tx_hash E t"
    and c: "hm_get (cg_cells (sl_conflict_graph st)) h = Some (tx_cell t)"
    and rej: "rej = competitors E (sl_conflict_graph st) h - {h}" "rej \<subseteq> vertices (sl_dag st)"
    and f: "forest (sl_dag st) rej"
  shows "\<exists>st'. remove_conflicts E st t = (Ok (), st')"
proof -
  note i = sleet_invD[OF inv] note g = sleet_graphs_okD[OF i(1)]
  have hc: "h = cell_hash E (tx_cell t)" using h by (simp add: tx_hash_def)
  from accept_cell_spec[OF g(2) hc c] obtain rejected cg where
    a: "accept_cell E (sl_conflict_graph st) (tx_cell t) = (Ok rejected, cg)" "cg_wf E cg" "set rejected = rej"
      "distinct rejected" "hm_keys (cg_cells cg) = hm_keys (cg_cells (sl_conflict_graph st)) - rej"
    by (elim exE conjE) (rule that, simp_all add: rej(1))
  let ?st1 = "st\<lparr>sl_conflict_graph := cg\<rparr>"
  have start: "removing E st rej {} (rejected @ []) ?st1"
    using g(1) i(2) a(3) by (intro removing_start) simp_all
  have q: "queued (sl_dag st) rej {} (rejected @ [])" using a(3,4) by (simp add: queued_def)
  have known: "\<forall>v \<in> vertices (sl_dag st). stored_tx E (sl_known_txs st) v \<noteq> None"
    using g(3) i(5) hm_keys_get[of _ "cg_cells (sl_conflict_graph st)"] by blast
  have subs: "set rejected \<subseteq> vertices (sl_dag ?st1)" "set rejected \<subseteq> rej" using rej(2) a(3) by simp_all
  from reject_txs_total[OF start q subs E g(1) f known] a(3) obtain ch st2 where
    r: "reject_txs E rejected [] ?st1 = (Ok ch, st2)" "queued (sl_dag st) rej rej ch" by auto
  from reject_txs_removing[OF r(1) start subs(2) E g(1), unfolded a(3)]
  have m: "removing E st rej rej ch st2" "sl_conflict_graph st2 = cg" by simp_all
  have "\<exists>st'. remove_progeny E ch st2 = (Ok (), st')"
    using m(2) a(2,5) by (intro remove_progeny_total[OF m(1) r(2) _ subset_refl _ E g(1) rej(2) f known g(3)]) simp_all
  then obtain st' where "remove_progeny E ch st2 = (Ok (), st')" ..
  with a(1) r(1) show ?thesis by (simp add: remove_conflicts_def on_cg_def)
qed

end
