(* ===== verification/Sleet_Finality.thy ===== *)
theory Sleet_Finality
  imports Sleet_Safety
begin

text \<open>
  Finality in the transaction consensus. Whether a transaction is final is an ancestral question;
  \<^verbatim>\<open>compute_accepted_txs\<close> accepts the final ancestors of a transaction, and
  \<^verbatim>\<open>compute_accepted_frontier\<close> finds vertices above which everything is final.
\<close>

section \<open>The question of finality\<close>

definition accepted :: "('db, 'v, 'a) storage_externs_scheme \<Rightarrow> 'db sleet \<Rightarrow> tx_hash_t \<Rightarrow> bool" where
  "accepted E st h \<longleftrightarrow> map_option tx_status (stored_tx E (sl_known_txs st) h) = Some TxAccepted"

text \<open>A transaction is decided when its own status or its own confidence says so.\<close>

definition decided :: "('db, 'v, 'a) storage_externs_scheme \<Rightarrow> 'db sleet \<Rightarrow> tx_hash_t \<Rightarrow> bool" where
  "decided E st h \<longleftrightarrow> sleet_is_accepted_tx E st h = Ok True"

definition final :: "('db, 'v, 'a) storage_externs_scheme \<Rightarrow> 'db sleet \<Rightarrow> tx_hash_t \<Rightarrow> bool" where
  "final E st h \<longleftrightarrow> (\<forall>u. (h, u) \<in> (edge_rel (sl_dag st))\<^sup>* \<longrightarrow> decided E st u)"

lemma accepted_is_accepted_tx:
  "storage_ok E \<Longrightarrow> tx_db_ok E (sl_known_txs st) \<Longrightarrow>
   unwrap_or False (is_accepted_tx E (sl_known_txs st) h) = accepted E st h"
  by (auto simp: stored_tx_lookup accepted_def unwrap_or_def split: option.splits)

interpretation sleet_finality: ancestral_question
  "sleet_graphs_ok E" sl_dag "sleet_is_accepted_tx E" "decided E" "sleet_is_accepted E"
  for E :: "('db, 'v, 'a) storage_externs_scheme"
proof
  fix st :: "'db sleet" and v
  assume ok: "sleet_graphs_ok E st"
  show "dag_wf (sl_dag st)" by (rule sleet_graphs_okD(1)[OF ok])
  assume "v \<in> vertices (sl_dag st)"
  from sleet_graphs_okD(4)[OF ok this] obtain cs where "hm_get (cg_cs (sl_conflict_graph st)) v = Some cs" ..
  then have "\<exists>b. sleet_is_accepted_tx E st v = Ok b"
    by (auto simp: sleet_is_accepted_tx_def get_confidence_def cg_is_singleton_def conflicting_cells_def unwrap_result_def)
  then show "sleet_is_accepted_tx E st v = Ok (decided E st v)" by (auto simp: decided_def)
qed (simp add: sleet_is_accepted_def)

lemma sleet_is_accepted_eq:
  assumes "sleet_graphs_ok E st" "h \<in> vertices (sl_dag st)"
  shows "sleet_is_accepted E st h = Ok (final E st h)"
  using sleet_finality.all_ancestors[OF assms] by (simp add: final_def)

lemma final_ancestor: "final E st h \<Longrightarrow> (h, u) \<in> (edge_rel (sl_dag st))\<^sup>* \<Longrightarrow> final E st u"
  unfolding final_def using rtrancl_trans by fast

section \<open>Accepting the final ancestors\<close>

text \<open>
  The loop of \<open>compute_accepted_txs\<close>: \<open>new\<close> has been accepted since \<open>st0\<close>. Accepting a final
  transaction changes no answer, so the answers in the memo stay right.
\<close>

definition accepting ::
  "('db, 'v, 'a) storage_externs_scheme \<Rightarrow> 'db sleet \<Rightarrow> tx_hash_t list \<Rightarrow> (tx_hash_t, bool) hashmap \<Rightarrow> 'db sleet \<Rightarrow> bool" where
  "accepting E st0 new memo st \<longleftrightarrow>
     (\<exists>db acc. st = st0\<lparr>sl_accepted_txs := acc, sl_known_txs := db\<rparr> \<and> tx_db_ok E db \<and> bs_inv acc \<and>
        stored_tx E db = (\<lambda>h. if h \<in> set new then map_option (\<lambda>t. t\<lparr>tx_status := TxAccepted\<rparr>) (stored_tx E (sl_known_txs st0) h)
                              else stored_tx E (sl_known_txs st0) h)) \<and>
     (\<forall>h b. hm_get memo h = Some b \<longrightarrow> sleet_is_accepted E st0 h = Ok b) \<and>
     (\<forall>h \<in> set new. decided E st0 h \<and> stored_tx E (sl_known_txs st0) h \<noteq> None)"

lemma accepting_same_answer:
  assumes "storage_ok E" "tx_db_ok E (sl_known_txs st0)" "accepting E st0 new memo st"
  shows "sleet_is_accepted E st = sleet_is_accepted E st0"
    "accepted E st h = (h \<in> set new \<or> accepted E st0 h)"
proof -
  from assms(3) obtain db acc where
    s: "st = st0\<lparr>sl_accepted_txs := acc, sl_known_txs := db\<rparr>" "tx_db_ok E db"
      "stored_tx E db = (\<lambda>h. if h \<in> set new then map_option (\<lambda>t. t\<lparr>tx_status := TxAccepted\<rparr>) (stored_tx E (sl_known_txs st0) h)
                              else stored_tx E (sl_known_txs st0) h)"
    and n: "\<forall>h \<in> set new. decided E st0 h \<and> stored_tx E (sl_known_txs st0) h \<noteq> None"
    by (auto simp: accepting_def)
  have "sleet_is_accepted_tx E st = sleet_is_accepted_tx E st0"
  proof
    fix h
    show "sleet_is_accepted_tx E st h = sleet_is_accepted_tx E st0 h"
    proof (cases "h \<in> set new")
      case True
      then obtain t where "stored_tx E (sl_known_txs st0) h = Some t" "sleet_is_accepted_tx E st0 h = Ok True"
        using n by (auto simp: decided_def)
      then show ?thesis
        using True s by (simp add: sleet_is_accepted_tx_def unwrap_or_def stored_tx_lookup[OF assms(1) s(2)])
    next
      case False
      then show ?thesis
        using s by (simp add: sleet_is_accepted_tx_def stored_tx_lookup[OF assms(1,2)] stored_tx_lookup[OF assms(1) s(2)])
    qed
  qed
  moreover have "sl_dag st = sl_dag st0" using s(1) by simp
  ultimately show "sleet_is_accepted E st = sleet_is_accepted E st0"
    by (intro ext) (simp only: sleet_is_accepted_def)
  show "accepted E st h = (h \<in> set new \<or> accepted E st0 h)"
    using s n by (auto simp: accepted_def)
qed

lemma is_accepted_memo_answer:
  assumes "\<forall>h b. hm_get memo h = Some b \<longrightarrow> sleet_is_accepted E st0 h = Ok b"
    and "sleet_is_accepted E st0 t = Ok b" "sleet_is_accepted E st = sleet_is_accepted E st0"
  obtains memo' where "is_accepted_memo E st t memo = Ok (b, memo')"
    and "\<forall>h b. hm_get memo' h = Some b \<longrightarrow> sleet_is_accepted E st0 h = Ok b"
proof (cases "hm_get memo t")
  case None
  then show ?thesis using assms by (intro that[of "hm_insert t b memo"]) (auto simp: is_accepted_memo_def)
next
  case (Some b')
  with assms have "b' = b" by simp
  with Some assms(1) show ?thesis by (intro that[of memo]) (auto simp: is_accepted_memo_def)
qed

lemma accept_txs_accepting:
  assumes E: "storage_ok E" "tx_db_ok E (sl_known_txs st0)"
    and a: "accepting E st0 new memo st" and "set new \<inter> set ts = {}" "distinct ts"
    and ts: "\<forall>t \<in> set ts. (\<exists>b. sleet_is_accepted E st0 t = Ok b) \<and> stored_tx E (sl_known_txs st0) t \<noteq> None"
    and dec: "\<forall>t \<in> set ts. sleet_is_accepted E st0 t = Ok True \<longrightarrow> decided E st0 t"
  shows "\<exists>new' memo' st'. accept_txs E ts new memo st = (Ok new', st') \<and> accepting E st0 new' memo' st' \<and>
    new' = new @ filter (\<lambda>t. \<not> accepted E st0 t \<and> sleet_is_accepted E st0 t = Ok True) ts"
  using assms(3-)
proof (induction ts arbitrary: new memo st)
  case Nil
  then show ?case by auto
next
  case (Cons t ts)
  note same = accepting_same_answer[OF E Cons.prems(1)]
  obtain db acc where
    s: "st = st0\<lparr>sl_accepted_txs := acc, sl_known_txs := db\<rparr>" "tx_db_ok E db" "bs_inv acc"
      "stored_tx E db = (\<lambda>h. if h \<in> set new then map_option (\<lambda>t. t\<lparr>tx_status := TxAccepted\<rparr>) (stored_tx E (sl_known_txs st0) h)
                              else stored_tx E (sl_known_txs st0) h)"
    using Cons.prems(1) by (auto simp: accepting_def)
  have acc: "unwrap_or False (is_accepted_tx E (sl_known_txs st) t) = accepted E st0 t"
    using accepted_is_accepted_tx[OF E(1), of st t] s(1,2) same(2)[of t] Cons.prems(2) by auto
  have IH: "\<exists>new' memo' st'. accept_txs E ts new'' memo'' st'' = (Ok new', st') \<and> accepting E st0 new' memo' st' \<and>
      new' = new'' @ filter (\<lambda>t. \<not> accepted E st0 t \<and> sleet_is_accepted E st0 t = Ok True) ts"
    if "accepting E st0 new'' memo'' st''" "set new'' \<subseteq> insert t (set new)" for new'' memo'' st''
    using that Cons.prems(2-) by (intro Cons.IH) auto
  show ?case
  proof (cases "accepted E st0 t")
    case True
    then show ?thesis using IH[OF Cons.prems(1)] acc by auto
  next
    case False
    obtain b where b: "sleet_is_accepted E st0 t = Ok b" using Cons.prems(4) by auto
    have memo: "\<forall>h b. hm_get memo h = Some b \<longrightarrow> sleet_is_accepted E st0 h = Ok b"
      using Cons.prems(1) by (simp add: accepting_def)
    obtain memo' where m: "is_accepted_memo E st t memo = Ok (b, memo')"
      and memo': "\<forall>h b. hm_get memo' h = Some b \<longrightarrow> sleet_is_accepted E st0 h = Ok b"
      by (rule is_accepted_memo_answer[OF memo b same(1)]) (rule that)
    show ?thesis
    proof (cases b)
      case True
      from bounded_set_insert_total[OF s(3)] obtain acc' where
        i: "bounded_set_insert t acc = Some acc'" "bs_inv acc'" by blast
      obtain r db' where d: "set_tx_status E db t TxAccepted = (r, db')" by fastforce
      note u = stored_tx_set_status[OF E(1) s(2) d]
      have r: "r = Ok ()" using u(1) s(4) Cons.prems(2,4) by auto
      have "accepting E st0 (new @ [t]) memo' (st0\<lparr>sl_accepted_txs := acc', sl_known_txs := db'\<rparr>)"
        using u(2,3) i(2) s(4) memo' Cons.prems True b unfolding accepting_def
        by (intro conjI exI[of _ db'] exI[of _ acc']) (auto simp: fun_eq_iff)
      from IH[OF this] show ?thesis
        using False acc m b True s(1) i(1) d r by (auto simp: on_db_def st_unwrap_def)
    next
      case F: False
      have "accepting E st0 new memo' st" using Cons.prems(1) memo' by (simp add: accepting_def)
      from IH[OF this] show ?thesis using False acc m b F by auto
    qed
  qed
qed

lemma compute_accepted_txs_spec:
  assumes E: "storage_ok E" and inv: "sleet_inv E st" and acc: "bs_inv (sl_accepted_txs st)"
    and h: "h \<in> vertices (sl_dag st)"
  shows "\<exists>new st'. compute_accepted_txs E st h = (Ok new, st') \<and> sleet_inv E st' \<and> distinct new \<and>
    set new = {u. (h, u) \<in> (edge_rel (sl_dag st))\<^sup>* \<and> final E st u \<and> \<not> accepted E st u} \<and>
    sl_dag st' = sl_dag st \<and> sl_live_cells st' = sl_live_cells st \<and> bs_inv (sl_accepted_txs st') \<and>
    (\<forall>u. accepted E st' u \<longleftrightarrow> u \<in> set new \<or> accepted E st u)"
proof -
  note i = sleet_invD[OF inv] note g = sleet_graphs_okD[OF i(1)]
  note d = dfs_spec[OF g(1) h]
  have v: "u \<in> vertices (sl_dag st)" if "u \<in> set (dfs (sl_dag st) h)" for u
    using ancestors_in_graph[OF g(1) h] that d(2) by auto
  have eq: "sleet_is_accepted E st u = Ok (final E st u)" if "u \<in> set (dfs (sl_dag st) h)" for u
    by (rule sleet_is_accepted_eq[OF i(1) v[OF that]])
  have stored: "stored_tx E (sl_known_txs st) u \<noteq> None" if "u \<in> set (dfs (sl_dag st) h)" for u
    using g(3) v[OF that] i(5) hm_keys_get[of u "cg_cells (sl_conflict_graph st)"] by blast
  have "accepting E st [] [] st" using i(2) acc unfolding accepting_def
    by (intro conjI exI[of _ "sl_known_txs st"] exI[of _ "sl_accepted_txs st"]) simp_all
  moreover have "\<forall>t \<in> set (dfs (sl_dag st) h). sleet_is_accepted E st t = Ok True \<longrightarrow> decided E st t"
    using eq by (auto simp: final_def)
  ultimately obtain new memo st' where
    r: "accept_txs E (dfs (sl_dag st) h) [] [] st = (Ok new, st')" "accepting E st new memo st'"
      "new = filter (\<lambda>t. \<not> accepted E st t \<and> sleet_is_accepted E st t = Ok True) (dfs (sl_dag st) h)"
    using accept_txs_accepting[OF E i(2), of "[]" "[]" st "dfs (sl_dag st) h"] eq stored d(1) by auto
  have new: "set new = {u. (h, u) \<in> (edge_rel (sl_dag st))\<^sup>* \<and> final E st u \<and> \<not> accepted E st u}"
    using r(3) eq d(2) by auto
  obtain db ac where
    s: "st' = st\<lparr>sl_accepted_txs := ac, sl_known_txs := db\<rparr>" "tx_db_ok E db"
      "stored_tx E db = (\<lambda>h. if h \<in> set new then map_option (\<lambda>t. t\<lparr>tx_status := TxAccepted\<rparr>) (stored_tx E (sl_known_txs st) h)
                              else stored_tx E (sl_known_txs st) h)" "bs_inv ac"
    using r(2) by (auto simp: accepting_def)
  have "sleet_graphs_ok E st'" using i(1) s(1) by (simp add: sleet_graphs_ok_def)
  moreover have "tx_hash E t = k" if "stored_tx E db k = Some t" for k t
    using that s(3) i(3) by (auto simp: tx_hash_def split: if_splits)
  moreover have "map_option tx_cell (stored_tx E db k) = map_option tx_cell (stored_tx E (sl_known_txs st) k)" for k
    using s(3) by simp
  ultimately have "sleet_inv E st'"
    using s i(6) i(7) unfolding sleet_inv_def by auto
  moreover have "distinct new" using r(3) d(1) by simp
  ultimately show ?thesis
    using r(1) new s(1,4) accepting_same_answer(2)[OF E i(2) r(2)] by (simp add: compute_accepted_txs_def)
qed

section \<open>The accepted frontier\<close>

text \<open>
  The loop state of \<open>compute_accepted_frontier\<close>: final vertices, everything reachable from them,
  and right answers in the memo. \<open>seen\<close> are the vertices visited so far.
\<close>

definition frontier_inv ::
  "('db, 'v, 'a) storage_externs_scheme \<Rightarrow> 'db sleet \<Rightarrow> tx_hash_t set
   \<Rightarrow> tx_hash_t hashset \<times> tx_hash_t hashset \<times> (tx_hash_t, bool) hashmap \<Rightarrow> bool" where
  "frontier_inv E st seen = (\<lambda>(frontier, above_f, memo).
     (\<forall>f \<in> set frontier. f \<in> vertices (sl_dag st) \<and> final E st f) \<and> distinct frontier \<and>
     set above_f = (\<Union>f \<in> set frontier. reach (sl_dag st) f) \<and>
     (\<forall>h b. hm_get memo h = Some b \<longrightarrow> sleet_is_accepted E st h = Ok b) \<and>
     (\<forall>v \<in> seen. final E st v \<longrightarrow> v \<in> set above_f))"

lemma frontier_step_inv:
  assumes ok: "sleet_graphs_ok E st" and "frontier_inv E st seen acc" "set hs \<subseteq> vertices (sl_dag st)"
  shows "\<exists>acc'. frontier_step E st hs acc = Ok acc' \<and> frontier_inv E st (seen \<union> set hs) acc'"
  using assms(2-)
proof (induction hs arbitrary: seen acc)
  case (Cons h hs)
  obtain F U m where acc: "acc = (F, U, m)" by (cases acc)
  note i = Cons.prems(1)[unfolded acc frontier_inv_def prod.case]
  have h: "h \<in> vertices (sl_dag st)" and hs: "set hs \<subseteq> vertices (sl_dag st)" using Cons.prems(2) by auto
  have step: ?case if "frontier_step E st (h # hs) acc = frontier_step E st hs acc1"
    "frontier_inv E st (insert h seen) acc1" for acc1
    using Cons.IH[OF that(2) hs] that(1) by simp
  show ?case
  proof (cases "h \<in> set U")
    case True
    with i have "frontier_inv E st (insert h seen) acc" unfolding acc frontier_inv_def prod.case by blast
    with True show ?thesis by (intro step) (auto simp: acc)
  next
    case False
    have memo: "\<forall>h b. hm_get m h = Some b \<longrightarrow> sleet_is_accepted E st h = Ok b" using i by blast
    obtain m' where m': "is_accepted_memo E st h m = Ok (final E st h, m')"
      "\<forall>h b. hm_get m' h = Some b \<longrightarrow> sleet_is_accepted E st h = Ok b"
      by (rule is_accepted_memo_answer[OF memo sleet_is_accepted_eq[OF ok h] refl]) (rule that)
    have d: "set (dfs (sl_dag st) h) = reach (sl_dag st) h"
      using dfs_spec(2)[OF sleet_graphs_okD(1)[OF ok] h] by (simp add: reach_def)
    show ?thesis
    proof (cases "final E st h")
      case True
      have "h \<in> reach (sl_dag st) h" by (simp add: reach_def)
      then have "frontier_inv E st (insert h seen) (hs_insert h F, hs_extend U (dfs (sl_dag st) h), m')"
        using i m'(2) True h d by (auto simp: frontier_inv_def)
      then show ?thesis using True False m'(1) by (intro step) (auto simp: acc)
    next
      case n: False
      then have "frontier_inv E st (insert h seen) (F, U, m')"
        using i m'(2) unfolding frontier_inv_def prod.case by blast
      then show ?thesis using n False m'(1) by (intro step) (auto simp: acc)
    qed
  qed
qed auto

lemma frontier_leaves_inv:
  assumes ok: "sleet_graphs_ok E st" and "frontier_inv E st seen acc" "set ls \<subseteq> vertices (sl_dag st)"
  shows "\<exists>acc'. frontier_leaves E st ls acc = Ok acc' \<and>
    frontier_inv E st (seen \<union> (\<Union>l \<in> set ls. reach (sl_dag st) l)) acc'"
  using assms(2-)
proof (induction ls arbitrary: seen acc)
  case (Cons l ls)
  note wf = sleet_graphs_okD(1)[OF ok]
  have l: "l \<in> vertices (sl_dag st)" and ls: "set ls \<subseteq> vertices (sl_dag st)" using Cons.prems(2) by auto
  have d: "set (dfs (sl_dag st) l) = reach (sl_dag st) l" using dfs_spec(2)[OF wf l] by (simp add: reach_def)
  then have "set (dfs (sl_dag st) l) \<subseteq> vertices (sl_dag st)"
    using ancestors_in_graph[OF wf l] by (auto simp: reach_def)
  from frontier_step_inv[OF ok Cons.prems(1) this] obtain acc1 where
    s: "frontier_step E st (dfs (sl_dag st) l) acc = Ok acc1" "frontier_inv E st (seen \<union> reach (sl_dag st) l) acc1"
    unfolding d by blast
  from Cons.IH[OF s(2) ls] s(1) show ?case by (simp add: Un_assoc)
qed auto

lemma compute_accepted_frontier_spec:
  assumes ok: "sleet_graphs_ok E st"
  obtains F where "compute_accepted_frontier E st = (Ok (), st\<lparr>sl_accepted_frontier := F\<rparr>)" "distinct F"
    "\<And>f. f \<in> set F \<Longrightarrow> f \<in> vertices (sl_dag st) \<and> final E st f"
    "\<And>v. v \<in> vertices (sl_dag st) \<Longrightarrow> final E st v \<longleftrightarrow> (\<exists>f \<in> set F. v \<in> reach (sl_dag st) f)"
proof -
  let ?st = "if dag_g (sl_dag st) = [] then st\<lparr>sl_accepted_frontier := []\<rparr> else st"
  note wf = sleet_graphs_okD(1)[OF ok]
  have dag: "sl_dag ?st = sl_dag st" by simp
  have ok': "sleet_graphs_ok E ?st" using ok by (simp add: sleet_graphs_ok_def)
  have fin: "final E ?st = final E st" by (auto simp: fun_eq_iff final_def decided_def sleet_is_accepted_tx_def)
  have start: "frontier_inv E ?st {} ([], [], [])" by (simp add: frontier_inv_def)
  have "set (leaves (sl_dag ?st)) \<subseteq> vertices (sl_dag ?st)" using set_leaves[OF wf] unfolding dag by auto
  from frontier_leaves_inv[OF ok' start this] obtain acc where
    r0: "frontier_leaves E ?st (leaves (sl_dag ?st)) ([], [], []) = Ok acc"
      "frontier_inv E ?st ({} \<union> (\<Union>l \<in> set (leaves (sl_dag ?st)). reach (sl_dag ?st) l)) acc" by blast
  obtain F U m where "acc = (F, U, m)" by (cases acc)
  note r = r0[unfolded this]
  note i = r(2)[unfolded frontier_inv_def prod.case dag fin]
  have v: "v \<in> (\<Union>l \<in> set (leaves (sl_dag st)). reach (sl_dag st) l)" if "v \<in> vertices (sl_dag st)" for v
    using below_some_leaf[OF wf that] by (auto simp: reach_def)
  show thesis
  proof
    show "compute_accepted_frontier E st = (Ok (), st\<lparr>sl_accepted_frontier := F\<rparr>)"
      using r(1) by (auto simp: compute_accepted_frontier_def Let_def split: if_splits)
    show "distinct F" "\<And>f. f \<in> set F \<Longrightarrow> f \<in> vertices (sl_dag st) \<and> final E st f" using i by auto
    fix u assume "u \<in> vertices (sl_dag st)"
    then show "final E st u \<longleftrightarrow> (\<exists>f \<in> set F. u \<in> reach (sl_dag st) f)"
      using v[of u] i final_ancestor[of E st _ u] by (auto simp: reach_def)
  qed
qed

lemma remove_vertices_spec:
  "dag_wf d \<Longrightarrow> dag_wf (remove_vertices hs d) \<and> vertices (remove_vertices hs d) = vertices d - set hs \<and>
   dag_chits (remove_vertices hs d) = dag_chits d"
proof (induction hs arbitrary: d)
  case (Cons h hs)
  obtain r d' where d': "remove_vx d h = (r, d')" by fastforce
  have "dag_wf d' \<and> vertices d' = vertices d - {h} \<and> dag_chits d' = dag_chits d"
    using remove_vx_cases[OF Cons.prems d'] Cons.prems by (auto split: if_splits)
  with Cons.IH[of d'] d' show ?case by auto
qed simp

text \<open>Pruning takes out the final transactions that are not on the frontier, and nothing else.\<close>

lemma prune_at_accepted_frontier_spec:
  assumes inv: "sleet_inv E st"
  shows "\<exists>st'. prune_at_accepted_frontier E st = (Ok (), st') \<and> sleet_inv E st' \<and>
    sl_live_cells st' = sl_live_cells st \<and> sl_accepted_txs st' = sl_accepted_txs st \<and>
    set (sl_accepted_frontier st') \<subseteq> {v \<in> vertices (sl_dag st). final E st v} \<and>
    vertices (sl_dag st') = {v \<in> vertices (sl_dag st). final E st v \<longrightarrow> v \<in> set (sl_accepted_frontier st')} \<and>
    (\<forall>v \<in> vertices (sl_dag st). final E st v \<longrightarrow> (\<exists>f \<in> set (sl_accepted_frontier st'). (f, v) \<in> (edge_rel (sl_dag st))\<^sup>*))"
proof -
  note i = sleet_invD[OF inv] note g = sleet_graphs_okD[OF i(1)]
  obtain F where f: "compute_accepted_frontier E st = (Ok (), st\<lparr>sl_accepted_frontier := F\<rparr>)"
    "\<And>f. f \<in> set F \<Longrightarrow> f \<in> vertices (sl_dag st) \<and> final E st f"
    "\<And>v. v \<in> vertices (sl_dag st) \<Longrightarrow> final E st v \<longleftrightarrow> (\<exists>f \<in> set F. v \<in> reach (sl_dag st) f)"
    by (rule compute_accepted_frontier_spec[OF i(1)]) (rule that)
  let ?p = "filter (\<lambda>a. a \<notin> set F) (hs_extend [] (concat (map (dfs (sl_dag st)) F)))"
  let ?st = "st\<lparr>sl_accepted_frontier := F, sl_dag := remove_vertices ?p (sl_dag st)\<rparr>"
  have run: "prune_at_accepted_frontier E st = (Ok (), ?st)"
    using f(1) by (simp add: prune_at_accepted_frontier_def Let_def)
  have "set (dfs (sl_dag st) f) = reach (sl_dag st) f" if "f \<in> set F" for f
    using dfs_spec(2)[OF g(1)] f(2)[OF that] by (auto simp: reach_def)
  then have p: "set ?p = (\<Union>f \<in> set F. reach (sl_dag st) f) - set F" by auto
  note r = remove_vertices_spec[OF g(1), of ?p, unfolded p]
  have vs: "vertices (sl_dag ?st) = {v \<in> vertices (sl_dag st). final E st v \<longrightarrow> v \<in> set F}"
    using r f(3) by auto
  have "sleet_inv E ?st"
    using r g i(2,3,6,7) unfolding sleet_inv_def sleet_graphs_ok_def by auto
  moreover have "\<exists>f \<in> set F. (f, v) \<in> (edge_rel (sl_dag st))\<^sup>*" if "v \<in> vertices (sl_dag st)" "final E st v" for v
    using f(3) that by (auto simp: reach_def)
  moreover have "set F \<subseteq> {v \<in> vertices (sl_dag st). final E st v}" using f(2) by auto
  moreover have "sl_accepted_frontier ?st = F" "sl_live_cells ?st = sl_live_cells st"
    "sl_accepted_txs ?st = sl_accepted_txs st" by simp_all
  ultimately show ?thesis using run vs by (intro exI[of _ ?st] conjI ballI impI) (simp_all only:)
qed

end
