(* ===== verification/Sleet_Run.thy ===== *)
theory Sleet_Run
  imports Sleet_Conflicts Sleet_Finality
begin

text \<open>
  Runs of the transaction consensus: a step is one message handler of \<^verbatim>\<open>sleet.rs\<close>. The
  invariant holds in every state that the steps reach. Two things would break it and are excluded by
  the premises of the steps: a new transaction whose inputs the conflict graph does not have, and
  an acceptance whose conflicts cannot be removed.
\<close>

section \<open>Operations and the invariant\<close>

definition sleet_safe :: "('db, 'v, 'a) storage_externs_scheme \<Rightarrow> 'db sleet \<Rightarrow> bool" where
  "sleet_safe E st \<longleftrightarrow> sleet_inv E st \<and> bs_inv (sl_accepted_txs st) \<and> bm_inv (sl_live_cells st)"

lemma sleet_inv_cong:
  "sl_dag st' = sl_dag st \<Longrightarrow> sl_conflict_graph st' = sl_conflict_graph st \<Longrightarrow> sl_known_txs st' = sl_known_txs st
   \<Longrightarrow> sleet_inv E st' = sleet_inv E st"
  by (simp add: sleet_inv_def sleet_graphs_ok_def)

lemma sleet_inv_status:
  assumes E: "storage_ok E" and inv: "sleet_inv E st" and s: "set_tx_status E (sl_known_txs st) h s = (r, db)"
  shows "sleet_inv E (st\<lparr>sl_known_txs := db\<rparr>)"
proof -
  note i = sleet_invD[OF inv] and u = stored_tx_set_status[OF E sleet_invD(2)[OF inv] s]
  have "tx_hash E t = k" if "stored_tx E db k = Some t" for k t
    using that u(3) i(3) by (auto simp: tx_hash_def split: if_splits)
  moreover have "map_option tx_cell (stored_tx E db k) = map_option tx_cell (stored_tx E (sl_known_txs st) k)" for k
    using u(3) by simp
  moreover have "stored_tx E db k \<noteq> None" if "k \<in> hm_keys (dag_chits (sl_dag st))" for k
    using u(3) i(6)[OF that] by auto
  ultimately show ?thesis
    using i(1) i(7) u(2) unfolding sleet_inv_def by (simp add: sleet_graphs_ok_def)
qed

lemma sleet_inv_chit:
  assumes inv: "sleet_inv E st" and h: "stored_tx E (sl_known_txs st) h \<noteq> None"
    and c: "set_chit (sl_dag st) h c = (r, d)" "c \<le> 1"
  shows "sleet_inv E (st\<lparr>sl_dag := d\<rparr>)" "dag_g d = dag_g (sl_dag st)"
proof -
  note i = sleet_invD[OF inv] note g = sleet_graphs_okD[OF i(1)]
  have d: "d = sl_dag st \<or> d = (sl_dag st)\<lparr>dag_chits := hm_insert h c (dag_chits (sl_dag st))\<rparr>"
    using c(1) by (auto simp: set_chit_def split: option.splits if_splits)
  then show "dag_g d = dag_g (sl_dag st)" by auto
  have wf: "dag_wf d"
    using d g(1) dag_wf_chits[OF g(1) c(2)] by blast
  have "hm_keys (dag_chits d) \<subseteq> insert h (hm_keys (dag_chits (sl_dag st)))" using d
    by (elim disjE) (simp_all add: subset_insertI)
  then have "stored_tx E (sl_known_txs st) k \<noteq> None" if "k \<in> hm_keys (dag_chits d)" for k
    using that h i(6)[of k] by blast
  with wf show "sleet_inv E (st\<lparr>sl_dag := d\<rparr>)"
    using inv \<open>dag_g d = dag_g (sl_dag st)\<close> unfolding sleet_inv_def sleet_graphs_ok_def by simp
qed

lemma sleet_inv_conflict_graph:
  assumes "sleet_inv E st" "cg_wf E cg" "cg_cells cg = cg_cells (sl_conflict_graph st)"
  shows "sleet_inv E (st\<lparr>sl_conflict_graph := cg\<rparr>)"
  using assms unfolding sleet_inv_def sleet_graphs_ok_def by simp

lemma update_cset_kept:
  assumes "cnt cs \<le> SLEET_BETA2"
  shows "conflicts (update_cset h d1 d2 cs) = conflicts cs" "cnt (update_cset h d1 d2 cs) \<le> SLEET_BETA2"
proof -
  show "conflicts (update_cset h d1 d2 cs) = conflicts cs" by (simp add: update_cset_def Let_def)
  have "cnt cs + 1 \<le> SLEET_BETA2" if "cnt cs < SLEET_BETA2"
    using that by (simp add: inc_le)
  then show "cnt (update_cset h d1 d2 cs) \<le> SLEET_BETA2" using assms by (simp add: update_cset_def Let_def)
qed

lemma update_conflict_set_wf:
  assumes wf: "cg_wf E G" and u: "update_conflict_set G h d1 d2 = (r, G')"
  shows "cg_wf E G' \<and> cg_cells G' = cg_cells G"
proof (cases "hm_get (cg_cs G) h")
  case (Some cs)
  show ?thesis
    using u Some cg_wf_replace_cset[OF wf Some] update_cset_kept[OF cg_wfD(12)[OF wf Some]] wf
    by (auto simp: update_conflict_set_def split: if_splits)
qed (use wf u in \<open>auto simp: update_conflict_set_def split: if_splits\<close>)

lemma reset_count_wf:
  assumes wf: "cg_wf E G" and u: "reset_count G h = (r, G')"
  shows "cg_wf E G' \<and> cg_cells G' = cg_cells G"
proof (cases "hm_get (cg_cs G) h")
  case (Some cs)
  show ?thesis
    using u Some cg_wf_replace_cset[OF wf Some, of "cs\<lparr>cnt := 0\<rparr>"] wf
    by (auto simp: reset_count_def split: if_splits)
qed (use wf u in \<open>auto simp: reset_count_def split: if_splits\<close>)

text \<open>The votes and the resets change nothing but the conflict sets.\<close>

definition votes_only :: "'a externs_scheme \<Rightarrow> 'db sleet \<Rightarrow> 'db sleet \<Rightarrow> bool" where
  "votes_only E st st' \<longleftrightarrow> (\<exists>cg. st' = st\<lparr>sl_conflict_graph := cg\<rparr> \<and> cg_wf E cg \<and>
     cg_cells cg = cg_cells (sl_conflict_graph st))"

lemma update_preferences_votes:
  "cg_wf E (sl_conflict_graph st) \<Longrightarrow> update_preferences st hs = (r, st') \<Longrightarrow> votes_only E st st'"
proof (induction hs arbitrary: st)
  case Nil
  then show ?case by (auto simp: votes_only_def intro!: exI[of _ "sl_conflict_graph st"])
next
  case (Cons h hs)
  have self: "votes_only E st st"
    using Cons.prems(1) by (auto simp: votes_only_def intro!: exI[of _ "sl_conflict_graph st"])
  show ?case
  proof (cases "result_bind (get_preferred (sl_conflict_graph st) h) (\<lambda>p.
             result_bind (conviction (sl_dag st) h) (\<lambda>d1.
             result_bind (conviction (sl_dag st) p) (\<lambda>d2. Ok (d1, d2))))")
    case (Ok d)
    obtain r1 cg where u: "update_conflict_set (sl_conflict_graph st) h (fst d) (snd d) = (r1, cg)" by fastforce
    note w = update_conflict_set_wf[OF Cons.prems(1) u]
    show ?thesis
    proof (cases r1)
      case k: (Ok x)
      then have "update_preferences (st\<lparr>sl_conflict_graph := cg\<rparr>) hs = (r, st')"
        using Cons.prems(2) Ok u by (cases d) (simp add: on_cg_def)
      from Cons.IH[OF _ this] w show ?thesis by (auto simp: votes_only_def)
    qed (use Cons.prems Ok u w in \<open>cases d, auto simp: on_cg_def votes_only_def\<close>)+
  qed (use Cons.prems(2) self in auto)
qed

lemma reset_counts_votes:
  "cg_wf E (sl_conflict_graph st) \<Longrightarrow> reset_counts st hs = (r, st') \<Longrightarrow> votes_only E st st'"
proof (induction hs arbitrary: st)
  case Nil
  then show ?case by (auto simp: votes_only_def intro!: exI[of _ "sl_conflict_graph st"])
next
  case (Cons h hs)
  obtain r1 cg where u: "reset_count (sl_conflict_graph st) h = (r1, cg)" by fastforce
  note w = reset_count_wf[OF Cons.prems(1) u]
  show ?case
  proof (cases r1)
    case k: (Ok x)
    then have "reset_counts (st\<lparr>sl_conflict_graph := cg\<rparr>) hs = (r, st')"
      using Cons.prems(2) u by (simp add: on_cg_def)
    from Cons.IH[OF _ this] w show ?thesis by (auto simp: votes_only_def)
  qed (use Cons.prems u w in \<open>auto simp: on_cg_def votes_only_def\<close>)
qed

lemma votes_only_safe: "sleet_safe E st \<Longrightarrow> votes_only E st st' \<Longrightarrow> sleet_safe E st'"
  using sleet_inv_conflict_graph by (auto simp: votes_only_def sleet_safe_def)

section \<open>Receiving\<close>

text \<open>
  A transaction is admissible when it is refused at once, or is unknown, has distinct parents, spends
  ids that the conflict graph has, and produces ids that nobody spends.
\<close>

definition fresh_cell :: "'a externs_scheme \<Rightarrow> conflict_graph \<Rightarrow> cell \<Rightarrow> bool" where
  "fresh_cell E G c \<longleftrightarrow>
     \<not> has_coinbase_output c \<and> set (cell_ids_from_inputs E (inputs c)) \<subseteq> hm_keys (cg_vertices G) \<and>
     (\<forall>i \<in> set (cell_ids_from_outputs E (cell_hash E c) (outputs c)).
        spenders_of G i = {} \<and> i \<notin> set (cell_ids_from_inputs E (inputs c)))"

definition admissible :: "('db, 'v, 'a) storage_externs_scheme \<Rightarrow> 'db sleet \<Rightarrow> tx \<Rightarrow> bool" where
  "admissible E st t \<longleftrightarrow>
     has_coinbase_output (tx_cell t) \<or> \<not> has_parents E st t \<or>
     is_new_tx E (sl_known_txs st) (tx_hash E t) = Ok False \<or>
     stored_tx E (sl_known_txs st) (tx_hash E t) = None \<and> distinct (tx_parents t) \<and>
       fresh_cell E (sl_conflict_graph st) (tx_cell t)"

lemma on_receive_tx_frame:
  "on_receive_tx E st t = (r, st') \<Longrightarrow> sl_accepted_txs st' = sl_accepted_txs st \<and> sl_live_cells st' = sl_live_cells st"
  by (auto simp: on_receive_tx_def sleet_insert_def on_cg_def on_dag_def st_bind_def Let_def
      split: if_splits result.splits bool.splits prod.splits)

lemma on_receive_tx_fresh:
  assumes E: "storage_ok E" and safe: "sleet_safe E st"
    and t: "stored_tx E (sl_known_txs st) (tx_hash E t) = None" "distinct (tx_parents t)" "has_parents E st t"
      "fresh_cell E (sl_conflict_graph st) (tx_cell t)"
  shows "\<exists>st'. on_receive_tx E st t = (Ok True, st') \<and> sleet_safe E st' \<and>
    vertices (sl_dag st') = insert (tx_hash E t) (vertices (sl_dag st)) \<and>
    parents (sl_dag st') (tx_hash E t) = remove_accepted_parents E st (tx_parents t) \<and>
    stored_tx E (sl_known_txs st') = (stored_tx E (sl_known_txs st))(tx_hash E t \<mapsto> t\<lparr>tx_status := TxPending\<rparr>)"
proof -
  have inv: "sleet_inv E st" using safe by (simp add: sleet_safe_def)
  have f: "\<not> has_coinbase_output (tx_cell t)"
    "set (cell_ids_from_inputs E (inputs (tx_cell t))) \<subseteq> hm_keys (cg_vertices (sl_conflict_graph st))"
    "\<forall>i \<in> set (cell_ids_from_outputs E (tx_hash E t) (outputs (tx_cell t))).
        spenders_of (sl_conflict_graph st) i = {} \<and> i \<notin> set (cell_ids_from_inputs E (inputs (tx_cell t)))"
    using t(4) by (simp_all add: fresh_cell_def tx_hash_def)
  from on_receive_new_tx[OF E inv refl f(1) t(1,3,2) f(2,3)] obtain st' where
    r: "on_receive_tx E st t = (Ok True, st')" "sleet_inv E st'"
      "vertices (sl_dag st') = insert (tx_hash E t) (vertices (sl_dag st))"
      "parents (sl_dag st') (tx_hash E t) = remove_accepted_parents E st (tx_parents t)"
      "stored_tx E (sl_known_txs st') = (stored_tx E (sl_known_txs st))(tx_hash E t \<mapsto> t\<lparr>tx_status := TxPending\<rparr>)"
    by (elim exE conjE) (rule that)
  have "sl_accepted_txs st' = sl_accepted_txs st \<and> sl_live_cells st' = sl_live_cells st"
    using on_receive_tx_frame[OF r(1)] .
  with r safe show ?thesis by (simp add: sleet_safe_def)
qed

lemma on_receive_tx_safe:
  assumes E: "storage_ok E" and safe: "sleet_safe E st" and t: "admissible E st t"
    and r: "on_receive_tx E st t = (r, st')"
  shows "sleet_safe E st'"
proof (cases "has_coinbase_output (tx_cell t) \<or> \<not> has_parents E st t \<or>
     is_new_tx E (sl_known_txs st) (tx_hash E t) = Ok False")
  case True
  then have "st' = st" using r by (auto simp: on_receive_tx_def split: if_splits result.splits bool.splits)
  with safe show ?thesis by simp
next
  case False
  with t have "stored_tx E (sl_known_txs st) (tx_hash E t) = None" "distinct (tx_parents t)" "has_parents E st t"
      "fresh_cell E (sl_conflict_graph st) (tx_cell t)"
    by (auto simp: admissible_def)
  from on_receive_tx_fresh[OF E safe this] r show ?thesis by auto
qed

fun all_admissible :: "('db, 'v, 'a) storage_externs_scheme \<Rightarrow> 'db sleet \<Rightarrow> tx list \<Rightarrow> bool" where
  "all_admissible E st [] \<longleftrightarrow> True"
| "all_admissible E st (t # ts) \<longleftrightarrow> admissible E st t \<and> all_admissible E (snd (on_receive_tx E st t)) ts"

lemma receive_ancestors_safe:
  assumes "storage_ok E" "sleet_safe E st" "all_admissible E st ts" "receive_ancestors E ts effs st = (r, st', effs')"
  shows "sleet_safe E st'"
  using assms(2-)
proof (induction ts arbitrary: st effs)
  case (Cons t ts)
  obtain r1 st1 where t: "on_receive_tx E st t = (r1, st1)" by fastforce
  have s: "sleet_safe E st1" using on_receive_tx_safe[OF assms(1) Cons.prems(1) _ t] Cons.prems(2) by simp
  have a: "all_admissible E st1 ts" using Cons.prems(2) t by simp
  from Cons.prems(3) t s Cons.IH[OF s a] show ?case by (auto split: result.splits bool.splits)
qed simp

lemma check_pending_loop_safe:
  assumes "storage_ok E" "sleet_safe E st" "all_admissible E st (map fst qs)"
    and "check_pending_loop E is_closed qs remaining effs st = (r, st', effs')"
  shows "sleet_safe E st'"
  using assms(2-)
proof (induction qs arbitrary: st effs remaining)
  case (Cons q qs)
  obtain t chan where q: "q = (t, chan)" by (cases q)
  obtain r1 st1 where t: "on_receive_tx E st t = (r1, st1)" by fastforce
  have s: "sleet_safe E st1" using on_receive_tx_safe[OF assms(1) Cons.prems(1) _ t] Cons.prems(2) q by simp
  have a: "all_admissible E st1 (map fst qs)" using Cons.prems(2) t q by simp
  have stay: "st1 = st" if "\<not> has_parents E st t"
    using t that by (auto simp: on_receive_tx_def split: if_splits result.splits bool.splits)
  from Cons.prems(3) t s stay Cons.IH[OF s a] show ?case
    by (auto simp: q split: result.splits if_splits)
qed simp

section \<open>Queries, acceptance and the committee\<close>

lemma mark_queried_safe:
  assumes "storage_ok E" "sleet_safe E st" "mark_queried E t st = (r, st')"
  shows "sleet_safe E st'"
proof -
  obtain r0 db where "set_tx_status E (sl_known_txs st) (tx_hash E t) TxQueried = (r0, db)" by fastforce
  with assms sleet_inv_status[OF assms(1) _ this] show ?thesis
    by (auto simp: mark_queried_def on_db_def st_unwrap_def sleet_safe_def)
qed

lemma reset_ancestor_confidence_safe:
  "sleet_safe E st \<Longrightarrow> reset_ancestor_confidence st h = (r, st') \<Longrightarrow> sleet_safe E st'"
  using votes_only_safe reset_counts_votes sleet_graphs_okD(2) sleet_invD(1)
  unfolding reset_ancestor_confidence_def sleet_safe_def by metis

lemma update_ancestral_preference_safe:
  "sleet_safe E st \<Longrightarrow> update_ancestral_preference st h = (r, st') \<Longrightarrow> sleet_safe E st'"
  using votes_only_safe update_preferences_votes sleet_graphs_okD(2) sleet_invD(1)
  unfolding update_ancestral_preference_def sleet_safe_def by metis

lemma insert_live_cell_safe:
  "sleet_safe E st \<Longrightarrow> insert_live_cell E c st = (r, st') \<Longrightarrow> sleet_safe E st'"
  using bounded_map_insert_total[of "sl_live_cells st" "cell_hash E c" c] sleet_inv_cong[of st' st E]
  by (auto simp: insert_live_cell_def sleet_safe_def split: option.splits)

lemma compute_accepted_txs_safe:
  assumes E: "storage_ok E" and safe: "sleet_safe E st" and c: "compute_accepted_txs E st h = (r, st')"
  shows "sleet_safe E st'"
proof (cases "h \<in> vertices (sl_dag st)")
  case True
  with compute_accepted_txs_spec[OF E _ _ True] safe c show ?thesis by (auto simp: sleet_safe_def)
next
  case False
  then show ?thesis using c safe by (simp add: compute_accepted_txs_def dfs_missing)
qed

lemma set_chit_safe:
  assumes "sleet_safe E st" "stored_tx E (sl_known_txs st) h \<noteq> None" "on_dag (set_chit (sl_dag st) h 1) st = (r, st')"
  shows "sleet_safe E st'"
proof -
  obtain r0 d where c: "set_chit (sl_dag st) h 1 = (r0, d)" by fastforce
  with sleet_inv_chit(1)[OF _ assms(2) c] assms show ?thesis by (auto simp: on_dag_def sleet_safe_def)
qed

lemma st_bind_inv:
  assumes "st_bind p f = (r, s')" "P (snd p)" "\<And>a s r s'. p = (Ok a, s) \<Longrightarrow> f a s = (r, s') \<Longrightarrow> P s'"
  shows "P s'"
  using assms by (cases p; cases "fst p") auto

lemma query_succeeded_safe:
  assumes E: "storage_ok E" and "sleet_safe E st" "stored_tx E (sl_known_txs st) (tx_hash E t) \<noteq> None"
    and "query_succeeded E t st = (r, st')"
  shows "sleet_safe E st'"
proof -
  have set_chit: "sleet_safe E (snd (st_unwrap (on_dag (set_chit (sl_dag st) (tx_hash E t) 1) st)))"
    using set_chit_safe[OF assms(2,3)] by (metis prod.collapse snd_conv st_unwrap_def)
  have update: "sleet_safe E (snd (st_unwrap (update_ancestral_preference s (tx_hash E t))))" if "sleet_safe E s" for s
    using update_ancestral_preference_safe[OF that] by (metis prod.collapse snd_conv st_unwrap_def)
  have live: "sleet_safe E (snd (insert_live_cell E (tx_cell t) s))" if "sleet_safe E s" for s
    using insert_live_cell_safe[OF that] by (metis prod.collapse)
  have accept: "sleet_safe E s'" if "sleet_safe E s" "compute_accepted_txs E s (tx_hash E t) = (q, s')" for s s' q
    using compute_accepted_txs_safe[OF E that] .
  show ?thesis
    using assms(4) unfolding query_succeeded_def
    apply (rule st_bind_inv)
     apply (rule set_chit)
    apply (erule st_bind_inv)
     apply (rule update, use set_chit in \<open>metis snd_conv\<close>)
    apply (erule st_bind_inv)
     apply (rule live, use set_chit update in \<open>metis snd_conv\<close>)
    apply (erule accept[rotated], use set_chit update live in \<open>metis snd_conv\<close>)
    done
qed

lemma query_failed_safe:
  assumes "sleet_safe E st" "query_failed E t st = (r, st')"
  shows "sleet_safe E st'"
proof -
  obtain r1 st1 where r1: "reset_ancestor_confidence st (tx_hash E t) = (r1, st1)" by fastforce
  with assms(2) have "st' = st1" by (cases r1) (auto simp: query_failed_def st_unwrap_def)
  with reset_ancestor_confidence_safe[OF assms(1) r1] show ?thesis by simp
qed

lemma sends_state: "sends p effs = (r, st', es) \<Longrightarrow> snd p = st'"
  by (auto simp: sends_def split: prod.splits result.splits)

lemma query_complete_safe:
  assumes E: "storage_ok E" and safe: "sleet_safe E st" "stored_tx E (sl_known_txs st) (tx_hash E t) \<noteq> None"
    and q: "query_complete E t acks st = (r, st', effs)"
  shows "sleet_safe E st'"
proof (cases "collect_outcomes (sl_committee st) acks")
  case (Ok os)
  let ?q = "if f64_gt (sum_outcomes (f64_round E) os) SLEET_ALPHA then query_succeeded E t st else query_failed E t st"
  obtain r1 st1 where q1: "?q = (r1, st1)" by fastforce
  have s1: "sleet_safe E st1"
    using q1 query_succeeded_safe[OF E safe] query_failed_safe[OF safe(1)] by (auto split: if_splits)
  have run: "snd (st_bind (r1, st1) (\<lambda>new_accepted st1. st_bind (mark_queried E t st1) (\<lambda>_ st2. (Ok new_accepted, st2)))) = st'"
    using q Ok q1 by (auto dest!: sends_state simp: query_complete_def)
  obtain r2 st2 where m: "mark_queried E t st1 = (r2, st2)" by fastforce
  from run m s1 mark_queried_safe[OF E s1 m] show ?thesis
    by (cases r1; cases r2) auto
qed (use q safe in \<open>auto simp: query_complete_def\<close>)

lemma query_incomplete_safe:
  assumes E: "storage_ok E" and safe: "sleet_safe E st" and q: "query_incomplete E t acks st = (r, st', effs)"
  shows "sleet_safe E st'"
proof -
  obtain r1 st1 where q1: "reset_ancestor_confidence st (tx_hash E t) = (r1, st1)" by fastforce
  have s1: "sleet_safe E st1" by (rule reset_ancestor_confidence_safe[OF safe q1])
  obtain r2 st2 where m: "mark_queried E t st1 = (r2, st2)" by fastforce
  have "snd (st_bind (st_unwrap (r1, st1)) (\<lambda>_ st1. mark_queried E t st1)) = st'"
    using q q1 by (auto dest!: sends_state simp: query_incomplete_def)
  with m s1 mark_queried_safe[OF E s1 m] show ?thesis by (cases r1; auto simp: st_unwrap_def)
qed

lemma reject_txs_frame:
  "reject_txs E hs ch st = (r, st') \<Longrightarrow> sl_accepted_txs st' = sl_accepted_txs st \<and> sl_live_cells st' = sl_live_cells st"
  by (induction hs arbitrary: ch st)
    (fastforce simp: on_db_def on_dag_def st_bind_def split: prod.splits result.splits)+

lemma remove_progeny_frame:
  "remove_progeny E hs st = (r, st') \<Longrightarrow> sl_accepted_txs st' = sl_accepted_txs st \<and> sl_live_cells st' = sl_live_cells st"
proof (induction E hs st arbitrary: r st' rule: remove_progeny.induct)
  case (2 E h hs st)
  let ?step = "st_bind (on_db (set_tx_status E (sl_known_txs st) h TxRemoved) st)
    (\<lambda>_ st1. on_cg (remove_cell E (sl_conflict_graph st1) h) st1)"
  obtain r2 st2 where step: "?step = (r2, st2)" by fastforce
  then have st2: "sl_accepted_txs st2 = sl_accepted_txs st \<and> sl_live_cells st2 = sl_live_cells st"
    by (auto simp: on_db_def on_cg_def st_bind_def split: prod.splits result.splits)
  obtain r3 d where d: "remove_vx (sl_dag st2) h = (r3, d)" by fastforce
  show ?case
  proof (cases r2)
    case k: (Ok u)
    show ?thesis
    proof (cases r3)
      case (Ok cs)
      with 2(3) step d k have "remove_progeny E (hs @ cs) (st2\<lparr>sl_dag := d\<rparr>) = (r, st')" by simp
      from 2(1)[OF step[unfolded k, symmetric] refl d[unfolded Ok, symmetric] refl this] st2 show ?thesis by simp
    next
      case (Err e)
      with 2(3) step d k have "remove_progeny E hs (st2\<lparr>sl_dag := d\<rparr>) = (r, st')" by simp
      from 2(2)[OF step[unfolded k, symmetric] refl d[unfolded Err, symmetric] refl this] st2 show ?thesis by simp
    next
      case Panic
      with 2(3) step d k st2 show ?thesis by auto
    qed
  qed (use 2(3) step st2 in auto)
qed simp

lemma remove_conflicts_safe:
  assumes E: "storage_ok E" and safe: "sleet_safe E st" and t: "stored_tx E (sl_known_txs st) h = Some t"
    and run: "remove_conflicts E st t = (Ok (), st')"
  shows "sleet_safe E st'"
proof -
  have inv: "sleet_inv E st" using safe by (simp add: sleet_safe_def)
  note i = sleet_invD[OF inv] note g = sleet_graphs_okD[OF i(1)]
  have h: "tx_hash E t = h" using i(3)[OF t] .
  obtain r0 cg where r0: "accept_cell E (sl_conflict_graph st) (tx_cell t) = (r0, cg)" by fastforce
  obtain rejected ch st2 where
    a: "accept_cell E (sl_conflict_graph st) (tx_cell t) = (Ok rejected, cg)"
      "reject_txs E rejected [] (st\<lparr>sl_conflict_graph := cg\<rparr>) = (Ok ch, st2)" "remove_progeny E ch st2 = (Ok (), st')"
    using run r0 by (cases r0) (auto simp: remove_conflicts_def on_cg_def st_bind_def split: prod.splits result.splits)
  have "hm_get (cg_cs (sl_conflict_graph st)) h \<noteq> None"
    using a(1) h by (auto simp: accept_cell_def tx_hash_def Let_def split: prod.splits result.splits option.splits)
  then have "h \<in> hm_keys (cg_cells (sl_conflict_graph st))"
    using cg_wfD(4)[OF g(2)] by (auto dest: hm_get_Some_keys)
  from hm_keys_get[OF this] obtain c where c: "hm_get (cg_cells (sl_conflict_graph st)) h = Some c" ..
  have "c = tx_cell t" using i(7)[OF c] t by simp
  from remove_conflicts_Ok[OF E inv h[symmetric] c[unfolded this] run refl] have "sleet_inv E st'" by (rule conjunct1)
  moreover have "sl_accepted_txs st' = sl_accepted_txs st \<and> sl_live_cells st' = sl_live_cells st"
    using reject_txs_frame[OF a(2)] remove_progeny_frame[OF a(3)] by simp
  ultimately show ?thesis using safe by (simp add: sleet_safe_def)
qed

text \<open>Every conflict of the accepted transactions can be removed.\<close>

fun resolvable :: "('db, 'v, 'a) storage_externs_scheme \<Rightarrow> 'db sleet \<Rightarrow> tx_hash_t list \<Rightarrow> bool" where
  "resolvable E st [] \<longleftrightarrow> True"
| "resolvable E st (h # hs) \<longleftrightarrow>
     (case get_tx E (sl_known_txs st) h of
        Ok (_, t) \<Rightarrow> fst (remove_conflicts E st t) = Ok () \<and> resolvable E (snd (remove_conflicts E st t)) hs
      | _ \<Rightarrow> False)"

lemma resolve_accepted_safe:
  assumes E: "storage_ok E"
  shows "sleet_safe E st \<Longrightarrow> resolvable E st hs \<Longrightarrow> resolve_accepted E hs cells st = (r, st') \<Longrightarrow> sleet_safe E st'"
proof (induction hs arbitrary: st cells)
  case (Cons h hs)
  from Cons.prems(2) obtain k t where t: "get_tx E (sl_known_txs st) h = Ok (k, t)"
    by (auto split: result.splits)
  obtain r1 st1 where c: "remove_conflicts E st t = (r1, st1)" by fastforce
  have r1: "r1 = Ok ()" "resolvable E st1 hs" using Cons.prems(2) t c by auto
  have "tx_db_ok E (sl_known_txs st)" using Cons.prems(1) sleet_invD(2) by (auto simp: sleet_safe_def)
  then have "stored_tx E (sl_known_txs st) h = Some t"
    using t stored_tx_lookup(2)[OF E] by (auto split: option.splits)
  from remove_conflicts_safe[OF E Cons.prems(1) this c[unfolded r1(1)]] Cons.IH[OF _ r1(2)] Cons.prems(3) t c r1(1)
  show ?case by auto
qed simp

lemma new_accepted_safe:
  assumes E: "storage_ok E" and safe: "sleet_safe E st" and hs: "resolvable E st hs"
    and n: "new_accepted E hs st = (r, st', effs)"
  shows "sleet_safe E st'"
proof -
  obtain r1 st1 where r1: "resolve_accepted E hs [] st = (r1, st1)" by fastforce
  have s1: "sleet_safe E st1" by (rule resolve_accepted_safe[OF E safe hs r1])
  then have "sleet_inv E st1" by (simp add: sleet_safe_def)
  from prune_at_accepted_frontier_spec[OF this] obtain st2 where
    p: "prune_at_accepted_frontier E st1 = (Ok (), st2)" "sleet_inv E st2" "sl_live_cells st2 = sl_live_cells st1"
      "sl_accepted_txs st2 = sl_accepted_txs st1" by (elim exE conjE) (rule that)
  have "snd (st_bind (r1, st1) (\<lambda>cells st1. st_bind (prune_at_accepted_frontier E st1) (\<lambda>_ st2. (Ok cells, st2)))) = st'"
    using n r1 by (auto dest!: sends_state simp: new_accepted_def)
  with s1 p show ?thesis by (cases r1) (auto simp: sleet_safe_def)
qed

lemma add_live_cells_safe:
  "sleet_safe E st \<Longrightarrow> add_live_cells E' cs ids st = (r, st') \<Longrightarrow> sleet_safe E st'"
proof (induction cs arbitrary: ids st)
  case (Cons c cs)
  obtain h cell where c: "c = (h, cell)" by (cases c)
  have "\<exists>m. bounded_map_insert h cell (sl_live_cells st) = Some m \<and> bm_inv m"
    using Cons.prems(1) by (intro bounded_map_insert_total) (simp add: sleet_safe_def)
  then obtain m where m: "bounded_map_insert h cell (sl_live_cells st) = Some m" "bm_inv m" by blast
  have "sleet_safe E (st\<lparr>sl_live_cells := m\<rparr>)"
    using Cons.prems(1) m(2) sleet_inv_cong[of "st\<lparr>sl_live_cells := m\<rparr>" st E] by (simp add: sleet_safe_def)
  with Cons m(1) show ?case by (auto simp: c Let_def split: if_splits)
qed simp

lemma sleet_live_committee_safe:
  assumes safe: "sleet_safe E st" and c: "sleet_live_committee E' vs live st = (r, st', effs)"
  shows "sleet_safe E st'"
proof -
  obtain r1 st1 where a: "add_live_cells E' live cell_ids_empty st = (r1, st1)" by fastforce
  have s1: "sleet_safe E st1" by (rule add_live_cells_safe[OF safe a])
  have "sleet_safe E (st1\<lparr>sl_conflict_graph := cg_append (sl_conflict_graph st1) ids, sl_committee := vs\<rparr>)" for ids
  proof -
    have wf: "cg_wf E (sl_conflict_graph st1)"
      using s1 sleet_graphs_okD(2)[OF sleet_invD(1)] by (auto simp: sleet_safe_def)
    have "sleet_inv E (st1\<lparr>sl_conflict_graph := cg_append (sl_conflict_graph st1) ids\<rparr>)"
      using s1 by (intro sleet_inv_conflict_graph cg_wf_append[OF wf]) (simp_all add: sleet_safe_def cg_append_def)
    then show ?thesis
      using s1 sleet_inv_cong[of "st1\<lparr>sl_conflict_graph := cg_append (sl_conflict_graph st1) ids, sl_committee := vs\<rparr>"
          "st1\<lparr>sl_conflict_graph := cg_append (sl_conflict_graph st1) ids\<rparr>" E] by (simp add: sleet_safe_def)
  qed
  with s1 a c show ?thesis
    by (cases r1) (auto simp: sleet_live_committee_def sends_def)
qed

section \<open>Runs\<close>

text \<open>A step is a handler that returns; an actor that panics stops.\<close>

inductive sleet_step :: "('db, 'v, 'a) node_externs_scheme \<Rightarrow> 'db sleet \<Rightarrow> 'db sleet \<Rightarrow> bool"
  for E :: "('db, 'v, 'a) node_externs_scheme" where
  generate: "sleet_step E st st'"
    if "\<And>ps. select_parents st NPARENTS = Ok ps \<Longrightarrow> admissible E st (tx_new ps c)"
      and "generate_tx E c st = (Ok reply, st', effs)"
| query: "sleet_step E st st'"
    if "admissible E st (qt_tx q)" and "handle_query_tx E chan q st = (Ok reply, st', effs)"
| complete: "sleet_step E st st'"
    if "stored_tx E (sl_known_txs st) (tx_hash E t) \<noteq> None" and "query_complete E t acks st = (Ok (), st', effs)"
| incomplete: "sleet_step E st st'"
    if "query_incomplete E t acks st = (Ok (), st', effs)"
| new_accepted: "sleet_step E st st'"
    if "resolvable E st hs" and "new_accepted E hs st = (Ok (), st', effs)"
| ancestors: "sleet_step E st st'"
    if "all_admissible E st ts"
      and "ask_for_ancestors_response E (Some (OneshotResponse (Some (RespTxAncestors ts)))) st = (Ok (), st', effs)"
| pending: "sleet_step E st st'"
    if "all_admissible E (st\<lparr>sl_pending_queries := []\<rparr>) (map fst (rev (sl_pending_queries st)))"
      and "check_pending E is_closed st = (Ok (), st', effs)"
| committee: "sleet_step E st st'"
    if "sleet_live_committee E validators live st = (Ok (), st', effs)"
| bootstrapped: "sleet_step E st st'"
    if "bootstrap_response res st = (Ok (), st', [])"

lemma sleet_safe_cong:
  "sl_dag st' = sl_dag st \<Longrightarrow> sl_conflict_graph st' = sl_conflict_graph st \<Longrightarrow> sl_known_txs st' = sl_known_txs st
   \<Longrightarrow> sl_accepted_txs st' = sl_accepted_txs st \<Longrightarrow> sl_live_cells st' = sl_live_cells st \<Longrightarrow> sleet_safe E st' = sleet_safe E st"
  using sleet_inv_cong[of st' st E] by (simp add: sleet_safe_def)

lemma generate_tx_safe:
  assumes "storage_ok E" "sleet_safe E st" "\<And>ps. select_parents st NPARENTS = Ok ps \<Longrightarrow> admissible E st (tx_new ps c)"
    and "generate_tx E c st = (Ok reply, st', effs)"
  shows "sleet_safe E st'"
proof -
  from assms(4) obtain ps where ps: "select_parents st NPARENTS = Ok ps"
    by (auto simp: generate_tx_def split: result.splits)
  obtain r st1 where r: "on_receive_tx E st (tx_new ps c) = (r, st1)" by fastforce
  from assms(4) ps r have "st' = st1" by (auto simp: generate_tx_def Let_def split: result.splits bool.splits)
  with on_receive_tx_safe[OF assms(1,2) assms(3)[OF ps] r] show ?thesis by simp
qed

lemma handle_query_tx_safe:
  assumes "storage_ok E" "sleet_safe E st" "admissible E st (qt_tx q)" "handle_query_tx E chan q st = (Ok reply, st', effs)"
  shows "sleet_safe E st'"
proof -
  obtain r st1 where r: "on_receive_tx E st (qt_tx q) = (r, st1)" by fastforce
  have "st' = st1 \<or> st' = st1\<lparr>sl_pending_queries := sl_pending_queries st1 @ [(qt_tx q, chan)]\<rparr>"
    using assms(4) r by (auto simp: handle_query_tx_def Let_def split: result.splits sleet_error.splits)
  with on_receive_tx_safe[OF assms(1-3) r]
    sleet_safe_cong[of "st1\<lparr>sl_pending_queries := sl_pending_queries st1 @ [(qt_tx q, chan)]\<rparr>" st1 E]
  show ?thesis by auto
qed

lemma check_pending_safe:
  assumes E: "storage_ok E" and safe: "sleet_safe E st"
    and a: "all_admissible E (st\<lparr>sl_pending_queries := []\<rparr>) (map fst (rev (sl_pending_queries st)))"
    and c: "check_pending E is_closed st = (Ok (), st', effs)"
  shows "sleet_safe E st'"
proof -
  obtain r st1 es where
    r: "check_pending_loop E is_closed (rev (sl_pending_queries st)) [] [] (st\<lparr>sl_pending_queries := []\<rparr>) = (r, st1, es)"
    by (metis prod_cases3)
  have "sleet_safe E (st\<lparr>sl_pending_queries := []\<rparr>)"
    using safe sleet_safe_cong[of "st\<lparr>sl_pending_queries := []\<rparr>" st E] by simp
  from check_pending_loop_safe[OF E this a r] have "sleet_safe E st1" .
  moreover have "\<exists>qs. st' = st1\<lparr>sl_pending_queries := qs\<rparr>"
    using c r by (auto simp: check_pending_def split: result.splits)
  ultimately show ?thesis using sleet_safe_cong[of st' st1 E] by auto
qed

lemma bootstrapped_safe:
  assumes "sleet_safe E st" "bootstrap_response res st = (Ok (), st', [])"
  shows "sleet_safe E st'"
proof -
  from assms(2) obtain fs where fs: "res = Some (FanoutResponse fs)"
    by (auto simp: bootstrap_response_def split: option.splits client_response.splits)
  with assms(2) have "\<exists>fr. st' = st\<lparr>sl_accepted_frontier := fr, sl_bootstrapped := True\<rparr>"
    by (auto simp: bootstrap_response_def Let_def sends_def split: result.splits if_splits prod.splits)
  then show ?thesis using assms(1) sleet_safe_cong[of st' st E] by auto
qed

lemma ancestors_safe:
  assumes "storage_ok E" "sleet_safe E st" "all_admissible E st ts"
    and "ask_for_ancestors_response E (Some (OneshotResponse (Some (RespTxAncestors ts)))) st = (Ok (), st', effs)"
  shows "sleet_safe E st'"
proof -
  obtain r st1 es where r: "receive_ancestors E ts [] st = (r, st1, es)" by (metis prod_cases3)
  with assms(4) have "st' = st1" by (auto simp: ask_for_ancestors_response_def split: result.splits)
  with receive_ancestors_safe[OF assms(1-3) r] show ?thesis by simp
qed

lemma sleet_step_safe:
  assumes "sleet_step E st st'" "storage_ok E" "sleet_safe E st"
  shows "sleet_safe E st'"
  using assms(1)
proof cases
  case (generate c reply effs)
  then show ?thesis by (rule generate_tx_safe[OF assms(2,3)])
next
  case (query q chan reply effs)
  then show ?thesis by (rule handle_query_tx_safe[OF assms(2,3)])
next
  case (complete t acks effs)
  then show ?thesis by (rule query_complete_safe[OF assms(2,3)])
next
  case (incomplete t acks effs)
  then show ?thesis by (rule query_incomplete_safe[OF assms(2,3)])
next
  case (new_accepted hs effs)
  then show ?thesis by (rule new_accepted_safe[OF assms(2,3)])
next
  case (ancestors ts effs)
  then show ?thesis by (rule ancestors_safe[OF assms(2,3)])
next
  case (pending is_closed effs)
  then show ?thesis by (rule check_pending_safe[OF assms(2,3)])
next
  case (committee validators live effs)
  then show ?thesis by (rule sleet_live_committee_safe[OF assms(3)])
next
  case (bootstrapped res)
  then show ?thesis by (rule bootstrapped_safe[OF assms(3)])
qed

lemma sleet_new_safe: "sled_map E (sled_temporary E) = Map.empty \<Longrightarrow> sleet_safe E (sleet_new E nid ip peers)"
  by (simp add: sleet_safe_def sleet_inv_def sleet_graphs_ok_def sleet_new_def dag_wf_new cg_wf_new bs_inv_def bm_inv_def
      bounded_set_new_def bounded_map_new_def tx_db_ok_def stored_tx_def)
    (simp add: dag_new_def cg_new_def)

end
