(* ===== verification/Sleet_Theorems.thy ===== *)
theory Sleet_Theorems
  imports Sleet_Run
begin

text \<open>
  The properties of the transaction consensus, and a small run on which they are instantiated: two
  transactions that spend the same output, and one that builds on the second of them.
\<close>

section \<open>A run\<close>

lemmas sleet_eval = sleet_new_def bounded_map_new_def bounded_set_new_def example_node_cells example_inputs
  cg_new_def dag_new_def Let_def tx_hash_def tx_new_def on_receive_tx_def is_new_tx_def is_known_tx_def is_removed_tx_def
  is_accepted_tx_def cannot_be_accepted_def of_sled_def of_codec_def has_parents_def has_vertices_def sleet_insert_def
  on_cg_def on_dag_def on_db_def insert_vx_def insert_cell_def unwrap_result_def unwrap_or_def
  remove_accepted_parents_def insert_tx_def conflict_set_new_def hs_insert_def inherit_preference_def set_chit_def

lemma spend_cell_no_coinbase [simp]: "\<not> has_coinbase_output (spend_cell hs cap)"
  by (simp add: has_coinbase_output_def spend_cell_def cell_new_def)

definition sleet_with :: "conflict_graph \<Rightarrow> tx_hash_t dag \<Rightarrow> example_db \<Rightarrow> example_db sleet" where
  "sleet_with cg d db = (sleet_new example_node_externs 1 ([10, 0, 0, 1], 7000) [])
     \<lparr>sl_conflict_graph := cg, sl_dag := d, sl_known_txs := db\<rparr>"

definition funded_sleet :: "example_db sleet" where
  "funded_sleet = sleet_with (cg_new [1792]) dag_new []"

definition one_tx :: "example_db sleet" where
  "one_tx = snd (on_receive_tx example_node_externs funded_sleet (tx_new [] (spend_cell [7] 6)))"

definition two_txs :: "example_db sleet" where
  "two_txs = snd (on_receive_tx example_node_externs one_tx (tx_new [] (spend_cell [7] 9)))"

definition three_txs :: "example_db sleet" where
  "three_txs = snd (on_receive_tx example_node_externs two_txs (tx_new [265] (spend_cell [9] 3)))"

lemma one_tx_eq: "one_tx = sleet_with
    \<lparr>cg_vertices = [(1792, \<lparr>spenders = [262], vertex_status = Accepted\<rparr>),
                    (1536, \<lparr>spenders = [], vertex_status = Pending\<rparr>)],
     cg_cells = [(262, spend_cell [7] 6)],
     cg_cs = [(262, \<lparr>conflicts = [262], pref = 262, last_queried = 262, cnt = 0\<rparr>)],
     cg_order = [262]\<rparr>
    \<lparr>dag_g = [(262, [])], dag_inv = [(262, [])], dag_chits = [(262, 0)]\<rparr>
    [(tx_key 262, EncTx (tx_new [] (spend_cell [7] 6)))]"
  by (simp add: one_tx_def funded_sleet_def sleet_with_def sleet_eval)

lemma two_txs_eq: "two_txs = sleet_with
    \<lparr>cg_vertices = [(1792, \<lparr>spenders = [262, 265], vertex_status = Accepted\<rparr>),
                    (1536, \<lparr>spenders = [], vertex_status = Pending\<rparr>),
                    (2304, \<lparr>spenders = [], vertex_status = Pending\<rparr>)],
     cg_cells = [(262, spend_cell [7] 6), (265, spend_cell [7] 9)],
     cg_cs = [(262, \<lparr>conflicts = [262, 265], pref = 262, last_queried = 262, cnt = 0\<rparr>),
              (265, \<lparr>conflicts = [265, 262], pref = 262, last_queried = 262, cnt = 0\<rparr>)],
     cg_order = [262, 265]\<rparr>
    \<lparr>dag_g = [(262, []), (265, [])], dag_inv = [(262, []), (265, [])], dag_chits = [(262, 0), (265, 0)]\<rparr>
    [(tx_key 262, EncTx (tx_new [] (spend_cell [7] 6))), (tx_key 265, EncTx (tx_new [] (spend_cell [7] 9)))]"
  by (simp add: two_txs_def one_tx_eq sleet_with_def sleet_eval)

lemma three_txs_eq: "three_txs = sleet_with
    \<lparr>cg_vertices = [(1792, \<lparr>spenders = [262, 265], vertex_status = Accepted\<rparr>),
                    (1536, \<lparr>spenders = [], vertex_status = Pending\<rparr>),
                    (2304, \<lparr>spenders = [259], vertex_status = Pending\<rparr>),
                    (768, \<lparr>spenders = [], vertex_status = Pending\<rparr>)],
     cg_cells = [(262, spend_cell [7] 6), (265, spend_cell [7] 9), (259, spend_cell [9] 3)],
     cg_cs = [(262, \<lparr>conflicts = [262, 265], pref = 262, last_queried = 262, cnt = 0\<rparr>),
              (265, \<lparr>conflicts = [265, 262], pref = 262, last_queried = 262, cnt = 0\<rparr>),
              (259, \<lparr>conflicts = [259], pref = 259, last_queried = 259, cnt = 0\<rparr>)],
     cg_order = [262, 265, 259]\<rparr>
    \<lparr>dag_g = [(262, []), (265, []), (259, [265])], dag_inv = [(262, []), (265, [259]), (259, [])],
     dag_chits = [(262, 0), (265, 0), (259, 0)]\<rparr>
    [(tx_key 262, EncTx (tx_new [] (spend_cell [7] 6))), (tx_key 265, EncTx (tx_new [] (spend_cell [7] 9))),
     (tx_key 259, EncTx (tx_new [265] (spend_cell [9] 3)))]"
  by (simp add: three_txs_def two_txs_eq sleet_with_def sleet_eval)

lemma example_temporary: "sled_map example_node_externs (sled_temporary example_node_externs) = Map.empty"
  by (simp add: fun_eq_iff sled_map_def)

lemma funded_sleet_safe: "sleet_safe example_node_externs funded_sleet"
proof -
  let ?st = "sleet_new example_node_externs 1 ([10, 0, 0, 1], 7000) []"
  have "sleet_inv example_node_externs (?st\<lparr>sl_conflict_graph := cg_new [1792]\<rparr>)"
    using sleet_new_safe[OF example_temporary] by (intro sleet_inv_conflict_graph cg_wf_new) (auto simp: sleet_safe_def sleet_new_def cg_new_def)
  moreover have "funded_sleet = ?st\<lparr>sl_conflict_graph := cg_new [1792]\<rparr>"
    by (simp add: funded_sleet_def sleet_with_def sleet_new_def)
  moreover have "bs_inv (sl_accepted_txs ?st)" "bm_inv (sl_live_cells ?st)"
    using sleet_new_safe[OF example_temporary] by (auto simp: sleet_safe_def)
  moreover have "sl_accepted_txs funded_sleet = sl_accepted_txs ?st" "sl_live_cells funded_sleet = sl_live_cells ?st"
    by (simp_all add: funded_sleet_def sleet_with_def)
  ultimately show ?thesis by (simp add: sleet_safe_def)
qed

lemmas admissible_eval = admissible_def fresh_cell_def stored_tx_def sled_map_def spenders_of_def

lemma one_tx_safe: "sleet_safe example_node_externs one_tx"
  unfolding one_tx_def
  by (rule on_receive_tx_safe[OF example_node_ok funded_sleet_safe _ prod.collapse[symmetric]])
    (simp add: admissible_eval funded_sleet_def sleet_with_def sleet_eval)

lemma two_txs_safe: "sleet_safe example_node_externs two_txs"
  unfolding two_txs_def
  by (rule on_receive_tx_safe[OF example_node_ok one_tx_safe _ prod.collapse[symmetric]])
    (simp add: admissible_eval one_tx_eq sleet_with_def sleet_eval)

lemma three_txs_safe: "sleet_safe example_node_externs three_txs"
  unfolding three_txs_def
  by (rule on_receive_tx_safe[OF example_node_ok two_txs_safe _ prod.collapse[symmetric]])
    (simp add: admissible_eval two_txs_eq sleet_with_def sleet_eval)

section \<open>The invariant along every run\<close>










section \<open>Issuing and judging transactions\<close>

text \<open>
  C6: A client's transaction is issued. In a sound state, for a cell that is not known, spends known
  outputs and produces unspent ones, \<^verbatim>\<open>GenerateTx\<close> never fails: it selects at most three parents,
  all strongly preferred vertices and none an ancestor of an earlier one, inserts the transaction as a
  vertex whose parents are the selected ones that are not accepted, stores it as pending, asks for it to be
  queried, answers with the hash of the cell, and leaves a sound state.
\<close>

theorem generate_tx_issues:
  assumes E: "storage_ok E" and safe: "sleet_safe E st" and c: "fresh_cell E (sl_conflict_graph st) c"
    and new: "stored_tx E (sl_known_txs st) (cell_hash E c) = None"
  shows "\<exists>ps st'. generate_tx E c st = (Ok (Some (cell_hash E c)), st', [Notify (MsgFreshTx (tx_new ps c))]) \<and>
    length ps \<le> 3 \<and> (\<forall>p \<in> set ps. p \<in> vertices (sl_dag st) \<and> strongly_preferred st p) \<and>
    sorted_wrt (\<lambda>a b. (a, b) \<notin> (edge_rel (sl_dag st))\<^sup>*) ps \<and>
    sleet_safe E st' \<and> vertices (sl_dag st') = insert (cell_hash E c) (vertices (sl_dag st)) \<and>
    parents (sl_dag st') (cell_hash E c) = filter (\<lambda>p. \<not> accepted E st p) ps \<and>
    stored_tx E (sl_known_txs st') = (stored_tx E (sl_known_txs st))(cell_hash E c \<mapsto> tx_new ps c)"
proof -
  have ok: "sleet_graphs_ok E st" and db: "tx_db_ok E (sl_known_txs st)"
    using safe sleet_invD(1,2) by (auto simp: sleet_safe_def)
  from select_parents_spec[OF ok, of NPARENTS] obtain ps where
    ps: "select_parents st NPARENTS = Ok ps" "length ps \<le> NPARENTS"
      "\<forall>x \<in> set ps. x \<in> vertices (sl_dag st) \<and> strongly_preferred st x"
      "sorted_wrt (\<lambda>a b. b \<notin> reach (sl_dag st) a) ps" by (elim exE conjE) (rule that)
  let ?t = "tx_new ps c"
  have t: "tx_parents ?t = ps" "tx_cell ?t = c" "tx_hash E ?t = cell_hash E c" "?t\<lparr>tx_status := TxPending\<rparr> = ?t"
    by (simp_all add: tx_new_def tx_hash_def)
  have d: "distinct ps" using ps(4) by (induction ps) (auto simp: reach_def)
  have hp: "has_parents E st ?t"
    using ps(3) has_vertices_Ok[of "sl_dag st" ps] by (auto simp: has_parents_def t(1))
  from on_receive_tx_fresh[OF E safe, of ?t, unfolded t, OF new d hp c]
  obtain st' where r: "on_receive_tx E st ?t = (Ok True, st')" "sleet_safe E st'"
    "vertices (sl_dag st') = insert (cell_hash E c) (vertices (sl_dag st))"
    "parents (sl_dag st') (cell_hash E c) = remove_accepted_parents E st ps"
    "stored_tx E (sl_known_txs st') = (stored_tx E (sl_known_txs st))(cell_hash E c \<mapsto> ?t)"
    by (elim exE conjE) (rule that)
  have "remove_accepted_parents E st ps = filter (\<lambda>p. \<not> accepted E st p) ps"
    by (simp add: remove_accepted_parents_def accepted_is_accepted_tx[OF E db])
  with r ps show ?thesis
    by (intro exI[of _ ps] exI[of _ st']) (simp add: generate_tx_def NPARENTS_def reach_def)
qed

theorem generate_tx_issues_witness:
  "\<exists>ps st'. generate_tx example_node_externs (spend_cell [6] 2) one_tx =
     (Ok (Some 258), st', [Notify (MsgFreshTx (tx_new ps (spend_cell [6] 2)))]) \<and>
     sleet_safe example_node_externs st'"
proof -
  have "fresh_cell example_node_externs (sl_conflict_graph one_tx) (spend_cell [6] 2)"
    "stored_tx example_node_externs (sl_known_txs one_tx) (cell_hash example_node_externs (spend_cell [6] 2)) = None"
    by (simp_all add: admissible_eval one_tx_eq sleet_with_def sleet_eval)
  from generate_tx_issues[OF example_node_ok one_tx_safe this]
  show ?thesis by (simp add: example_node_cells example_inputs) blast
qed

text \<open>
  C17: Strong preference is preference of the whole ancestry. In a sound state the question never fails
  for a vertex of the DAG, and it is answered yes exactly when the vertex and each of its ancestors
  is the preferred transaction of its conflict set; so the answer for a vertex is inherited by its ancestors.
\<close>

theorem strong_preference_is_ancestral:
  assumes "sleet_safe E st" "h \<in> vertices (sl_dag st)"
  shows "is_strongly_preferred st h = Ok (\<forall>u. (h, u) \<in> (edge_rel (sl_dag st))\<^sup>* \<longrightarrow>
      map_option pref (hm_get (cg_cs (sl_conflict_graph st)) u) = Some u) \<and>
    (\<forall>u. is_strongly_preferred st h = Ok True \<longrightarrow> (h, u) \<in> (edge_rel (sl_dag st))\<^sup>* \<longrightarrow>
      is_strongly_preferred st u = Ok True)"
proof -
  have ok: "sleet_graphs_ok E st" using assms(1) sleet_invD(1) by (auto simp: sleet_safe_def)
  show ?thesis
    using is_strongly_preferred_eq[OF ok assms(2)] sleet_preference.ancestors_inherit[OF ok assms(2)]
    by (simp add: strongly_preferred_def prefers_def)
qed

theorem strong_preference_is_ancestral_witness:
  "is_strongly_preferred three_txs 262 = Ok True \<and> is_strongly_preferred three_txs 259 = Ok False"
proof -
  have e: "(259, 265) \<in> (edge_rel (sl_dag three_txs))\<^sup>*" "(262, u) \<in> (edge_rel (sl_dag three_txs))\<^sup>* \<Longrightarrow> u = 262" for u
    by (auto simp: three_txs_eq sleet_with_def edge_rel_def parents_def elim: converse_rtranclE split: if_splits)
  have p: "map_option pref (hm_get (cg_cs (sl_conflict_graph three_txs)) 265) \<noteq> Some 265"
    "map_option pref (hm_get (cg_cs (sl_conflict_graph three_txs)) 262) = Some 262"
    "262 \<in> vertices (sl_dag three_txs)" "259 \<in> vertices (sl_dag three_txs)"
    by (simp_all add: three_txs_eq sleet_with_def)
  from strong_preference_is_ancestral[OF three_txs_safe p(3)] strong_preference_is_ancestral[OF three_txs_safe p(4)] e p(1,2)
  show ?thesis by auto
qed

text \<open>
  C18: Parents are selected within bounds and not in vain. In a sound state, for every limit, the
  selection succeeds with at most that many strongly preferred vertices, none reachable from an earlier
  one; for a positive limit it is empty only if no vertex at all is strongly preferred.
\<close>

theorem select_parents_bounds:
  assumes "sleet_safe E st"
  shows "\<exists>ps. select_parents st p = Ok ps \<and> length ps \<le> p \<and>
    (\<forall>x \<in> set ps. x \<in> vertices (sl_dag st) \<and> strongly_preferred st x) \<and>
    sorted_wrt (\<lambda>a b. (a, b) \<notin> (edge_rel (sl_dag st))\<^sup>*) ps \<and>
    (0 < p \<and> ps = [] \<longrightarrow> (\<forall>v \<in> vertices (sl_dag st). \<not> strongly_preferred st v))"
proof -
  have "sleet_graphs_ok E st" using assms sleet_invD(1) by (auto simp: sleet_safe_def)
  from select_parents_spec[OF this, of p] show ?thesis unfolding reach_def mem_Collect_eq by (auto simp only:)
qed

theorem select_parents_bounds_witness:
  "\<exists>ps. select_parents three_txs 2 = Ok ps \<and> length ps \<le> 2"
  using select_parents_bounds[OF three_txs_safe, of 2] by blast

section \<open>Acceptance\<close>

text \<open>
  C7: Nothing is accepted before its ancestors. In a sound state, accepting below a vertex never fails;
  the newly accepted transactions are exactly the ancestors of the vertex that were not accepted and
  whose whole ancestry is decided, each listed once; afterwards every ancestor of a newly accepted
  transaction is accepted, no other status has become accepted or stopped being so, the DAG is
  untouched, and the state is sound.
\<close>

theorem acceptance_is_ancestral:
  assumes E: "storage_ok E" and safe: "sleet_safe E st" and h: "h \<in> vertices (sl_dag st)"
  shows "\<exists>new st'. compute_accepted_txs E st h = (Ok new, st') \<and> sleet_safe E st' \<and> distinct new \<and>
    set new = {u. (h, u) \<in> (edge_rel (sl_dag st))\<^sup>* \<and> \<not> accepted E st u \<and>
                (\<forall>w. (u, w) \<in> (edge_rel (sl_dag st))\<^sup>* \<longrightarrow> sleet_is_accepted_tx E st w = Ok True)} \<and>
    sl_dag st' = sl_dag st \<and> (\<forall>u. accepted E st' u \<longleftrightarrow> u \<in> set new \<or> accepted E st u) \<and>
    (\<forall>u \<in> set new. \<forall>w. (u, w) \<in> (edge_rel (sl_dag st))\<^sup>* \<longrightarrow> accepted E st' w)"
proof -
  have inv: "sleet_inv E st" and acc: "bs_inv (sl_accepted_txs st)" and live: "bm_inv (sl_live_cells st)"
    using safe by (simp_all add: sleet_safe_def)
  from compute_accepted_txs_spec[OF E inv acc h] obtain new st' where
    r: "compute_accepted_txs E st h = (Ok new, st')" "sleet_inv E st'" "distinct new"
      "set new = {u. (h, u) \<in> (edge_rel (sl_dag st))\<^sup>* \<and> final E st u \<and> \<not> accepted E st u}"
      "sl_dag st' = sl_dag st" "sl_live_cells st' = sl_live_cells st" "bs_inv (sl_accepted_txs st')"
      "\<forall>u. accepted E st' u \<longleftrightarrow> u \<in> set new \<or> accepted E st u" by (elim exE conjE) (rule that)
  have "accepted E st' w" if u: "u \<in> set new" and w: "(u, w) \<in> (edge_rel (sl_dag st))\<^sup>*" for u w
  proof -
    have "(h, w) \<in> (edge_rel (sl_dag st))\<^sup>*" "final E st w"
      using u r(4) w final_ancestor[of E st u w] rtrancl_trans[of h u _ w] by auto
    then show ?thesis using r(4,8) by blast
  qed
  moreover have "set new = {u. (h, u) \<in> (edge_rel (sl_dag st))\<^sup>* \<and> \<not> accepted E st u \<and>
                (\<forall>w. (u, w) \<in> (edge_rel (sl_dag st))\<^sup>* \<longrightarrow> sleet_is_accepted_tx E st w = Ok True)}"
    using r(4) by (auto simp: final_def decided_def)
  moreover have "sleet_safe E st'" using r(2,6,7) live by (simp add: sleet_safe_def)
  ultimately show ?thesis using r(1,3,5,8) by (intro exI[of _ new] exI[of _ st'] conjI) (rule refl | assumption | blast)+
qed

text \<open>The run again, with enough votes for the first transaction and for the one without rivals.\<close>

definition voted_sleet :: "example_db sleet" where
  "voted_sleet = one_tx\<lparr>sl_conflict_graph := (sl_conflict_graph one_tx)
     \<lparr>cg_cs := hm_insert 262 \<lparr>conflicts = [262], pref = 262, last_queried = 262, cnt = 11\<rparr> (cg_cs (sl_conflict_graph one_tx))\<rparr>\<rparr>"

lemma voted_sleet_safe: "sleet_safe example_node_externs voted_sleet"
proof -
  have inv: "sleet_inv example_node_externs one_tx" using one_tx_safe by (simp add: sleet_safe_def)
  have "cg_wf example_node_externs (sl_conflict_graph voted_sleet)"
    unfolding voted_sleet_def using sleet_graphs_okD(2)[OF sleet_invD(1)[OF inv]]
    by (simp, intro cg_wf_replace_cset[where cs = "\<lparr>conflicts = [262], pref = 262, last_queried = 262, cnt = 0\<rparr>"])
      (simp_all add: one_tx_eq sleet_with_def SLEET_BETA2_def)
  from sleet_inv_conflict_graph[OF inv this] have "sleet_inv example_node_externs voted_sleet" by (simp add: voted_sleet_def)
  then show ?thesis using one_tx_safe by (simp add: sleet_safe_def voted_sleet_def)
qed

theorem acceptance_is_ancestral_witness:
  "\<exists>new st'. compute_accepted_txs example_node_externs voted_sleet 262 = (Ok new, st') \<and> set new = {262} \<and>
     accepted example_node_externs st' 262"
proof -
  have e: "edge_rel (sl_dag voted_sleet) = {}" "262 \<in> vertices (sl_dag voted_sleet)"
    by (auto simp: voted_sleet_def one_tx_eq sleet_with_def edge_rel_def parents_def)
  have a: "\<not> accepted example_node_externs voted_sleet 262" "sleet_is_accepted_tx example_node_externs voted_sleet 262 = Ok True"
    by (simp_all add: accepted_def stored_tx_def sled_map_def voted_sleet_def one_tx_eq sleet_with_def sleet_eval
        sleet_is_accepted_tx_def get_confidence_def cg_is_singleton_def cset_is_singleton_def conflicting_cells_def SLEET_BETA1_def)
  from acceptance_is_ancestral[OF example_node_ok voted_sleet_safe e(2), unfolded e(1)] obtain new st' where
    "compute_accepted_txs example_node_externs voted_sleet 262 = (Ok new, st')"
    "set new = {u. (262, u) \<in> {}\<^sup>* \<and> \<not> accepted example_node_externs voted_sleet u \<and>
                (\<forall>w. (u, w) \<in> {}\<^sup>* \<longrightarrow> sleet_is_accepted_tx example_node_externs voted_sleet w = Ok True)}"
    "\<forall>u. accepted example_node_externs st' u \<longleftrightarrow> u \<in> set new \<or> accepted example_node_externs voted_sleet u"
    by (elim exE conjE) (rule that)
  with a show ?thesis by auto
qed



text \<open>
  C19: Pruning forgets only what is decided. In a sound state pruning at the accepted frontier succeeds;
  the new frontier consists of final vertices and every final vertex is an ancestor of one of them, the
  vertices that go are exactly the final ones that are not on the frontier, and the state stays sound.
\<close>

theorem prune_forgets_only_final:
  assumes "sleet_safe E st"
  shows "\<exists>st'. prune_at_accepted_frontier E st = (Ok (), st') \<and> sleet_safe E st' \<and>
    set (sl_accepted_frontier st') \<subseteq> {v \<in> vertices (sl_dag st). final E st v} \<and>
    (\<forall>v \<in> vertices (sl_dag st). final E st v \<longrightarrow> (\<exists>f \<in> set (sl_accepted_frontier st'). (f, v) \<in> (edge_rel (sl_dag st))\<^sup>*)) \<and>
    vertices (sl_dag st') = vertices (sl_dag st) - {v. final E st v \<and> v \<notin> set (sl_accepted_frontier st')}"
proof -
  have "sleet_inv E st" using assms by (simp add: sleet_safe_def)
  from prune_at_accepted_frontier_spec[OF this] obtain st' where
    r: "prune_at_accepted_frontier E st = (Ok (), st')" "sleet_inv E st'" "sl_live_cells st' = sl_live_cells st"
      "sl_accepted_txs st' = sl_accepted_txs st"
      "set (sl_accepted_frontier st') \<subseteq> {v \<in> vertices (sl_dag st). final E st v}"
      "vertices (sl_dag st') = {v \<in> vertices (sl_dag st). final E st v \<longrightarrow> v \<in> set (sl_accepted_frontier st')}"
      "\<forall>v \<in> vertices (sl_dag st). final E st v \<longrightarrow> (\<exists>f \<in> set (sl_accepted_frontier st'). (f, v) \<in> (edge_rel (sl_dag st))\<^sup>*)"
    by (elim exE conjE) (rule that)
  have "vertices (sl_dag st') = vertices (sl_dag st) - {v. final E st v \<and> v \<notin> set (sl_accepted_frontier st')}"
    using r(6) by blast
  moreover have "sleet_safe E st'" using r(2-4) assms by (simp add: sleet_safe_def)
  ultimately show ?thesis using r(1,5,7) by (intro exI[of _ st'] conjI) assumption+
qed

theorem prune_forgets_only_final_witness:
  "\<exists>st'. prune_at_accepted_frontier example_node_externs voted_sleet = (Ok (), st') \<and> 262 \<in> vertices (sl_dag st')"
proof -
  have e: "edge_rel (sl_dag voted_sleet) = {}" "vertices (sl_dag voted_sleet) = {262}"
    by (auto simp: voted_sleet_def one_tx_eq sleet_with_def edge_rel_def parents_def)
  from prune_forgets_only_final[OF voted_sleet_safe, unfolded e] show ?thesis by auto
qed

section \<open>Queries\<close>

text \<open>
  C9: Votes are honest. In a sound state, a query for an unknown transaction with a fresh cell is
  answered as follows. If its parents are known it is inserted, and the vote is yes exactly when it
  is strongly preferred in the resulting sound state; it is then queried in turn, and the pending
  queries are looked at again. If parents are missing, nothing but the list of pending queries
  changes, the vote is put off, and the sender is asked for the ancestors.
\<close>

theorem query_tx_votes:
  assumes E: "storage_ok E" and safe: "sleet_safe E st" and q: "t = qt_tx q" "h = tx_hash E t"
    and new: "stored_tx E (sl_known_txs st) h = None" "distinct (tx_parents t)" "fresh_cell E (sl_conflict_graph st) (tx_cell t)"
  shows "if has_parents E st t
    then \<exists>st'. handle_query_tx E chan q st =
        (Ok (ReplyNow \<lparr>qta_id = sl_node_id st, qta_tx_hash = h, qta_outcome = strongly_preferred st' h\<rparr>), st',
         [Notify (MsgFreshTx t), Notify MsgCheckPending]) \<and>
        sleet_safe E st' \<and> vertices (sl_dag st') = insert h (vertices (sl_dag st))
    else handle_query_tx E chan q st =
        (Ok (ReplyLater (sl_node_id st) h chan), st\<lparr>sl_pending_queries := sl_pending_queries st @ [(t, chan)]\<rparr>,
         [Notify (MsgAskForAncestors h (qt_id q) (qt_ip q))])"
proof (cases "has_parents E st t")
  case True
  from on_receive_tx_fresh[OF E safe new(1)[unfolded q(2)] new(2) True new(3)] obtain st' where
    r: "on_receive_tx E st t = (Ok True, st')" "sleet_safe E st'"
      "vertices (sl_dag st') = insert h (vertices (sl_dag st))"
      "stored_tx E (sl_known_txs st') = (stored_tx E (sl_known_txs st))(h \<mapsto> t\<lparr>tx_status := TxPending\<rparr>)"
    unfolding q(2)[symmetric] by (elim exE conjE) (rule that)
  have inv: "sleet_inv E st'" using r(2) by (simp add: sleet_safe_def)
  note db = sleet_invD(2)[OF inv]
  have "is_strongly_preferred st' h = Ok (strongly_preferred st' h)"
    using is_strongly_preferred_eq[OF sleet_invD(1)[OF inv]] r(3) by simp
  then have "query_outcome E h st' = Ok (strongly_preferred st' h)"
    using r(4) by (simp add: query_outcome_def stored_tx_lookup[OF E db] unwrap_or_def)
  with True r show ?thesis by (simp add: handle_query_tx_def q Let_def)
next
  case False
  have "is_new_tx E (sl_known_txs st) h = Ok True"
    using new(1) safe by (simp add: is_new_tx_def stored_tx_lookup[OF E] sleet_safe_def sleet_invD(2))
  with False new(3) have "on_receive_tx E st t = (Err MissingAncestry, st)"
    by (simp add: on_receive_tx_def q(2)[symmetric] fresh_cell_def)
  with False show ?thesis by (simp add: handle_query_tx_def q Let_def)
qed

theorem query_tx_votes_witness:
  "\<exists>st'. handle_query_tx example_node_externs 0 \<lparr>qt_id = 5, qt_ip = ([10, 0, 0, 5], 7000), qt_tx = tx_new [262] (spend_cell [6] 2)\<rparr> one_tx =
     (Ok (ReplyNow \<lparr>qta_id = 1, qta_tx_hash = 258, qta_outcome = strongly_preferred st' 258\<rparr>), st',
      [Notify (MsgFreshTx (tx_new [262] (spend_cell [6] 2))), Notify MsgCheckPending])"
proof -
  let ?q = "\<lparr>qt_id = 5, qt_ip = ([10, 0, 0, 5], 7000), qt_tx = tx_new [262] (spend_cell [6] 2)\<rparr>"
  have "stored_tx example_node_externs (sl_known_txs one_tx) 258 = None" "distinct (tx_parents (tx_new [262] (spend_cell [6] 2)))"
    "fresh_cell example_node_externs (sl_conflict_graph one_tx) (tx_cell (tx_new [262] (spend_cell [6] 2)))"
    "tx_new [262] (spend_cell [6] 2) = qt_tx ?q" "258 = tx_hash example_node_externs (tx_new [262] (spend_cell [6] 2))"
    "has_parents example_node_externs one_tx (tx_new [262] (spend_cell [6] 2))" "sl_node_id one_tx = 1"
    by (simp_all add: admissible_eval one_tx_eq sleet_with_def sleet_eval)
  from query_tx_votes[OF example_node_ok one_tx_safe this(4,5,1,2,3), of 0] this(6,7) show ?thesis by auto
qed

section \<open>Fetching the ancestry\<close>












section \<open>Shortcomings\<close>

text \<open>
  C39: The status of a transaction that its own query has just accepted does not stay accepted.
  Whenever \<^verbatim>\<open>QueryComplete\<close> returns in a sound state, the stored status of its transaction is queried,
  also when the acceptance of that very transaction has just been announced.
\<close>

theorem query_complete_leaves_queried:
  assumes E: "storage_ok E" and safe: "sleet_safe E st" and t: "stored_tx E (sl_known_txs st) (tx_hash E t) \<noteq> None"
    and q: "query_complete E t acks st = (Ok (), st', effs)"
  shows "map_option tx_status (stored_tx E (sl_known_txs st') (tx_hash E t)) = Some TxQueried \<and> \<not> accepted E st' (tx_hash E t)"
proof -
  from q obtain os where os: "collect_outcomes (sl_committee st) acks = Ok os"
    by (auto simp: query_complete_def split: result.splits)
  let ?q = "if f64_gt (sum_outcomes (f64_round E) os) SLEET_ALPHA then query_succeeded E t st else query_failed E t st"
  obtain r1 st1 where q1: "?q = (r1, st1)" by fastforce
  have s1: "sleet_safe E st1"
    using q1 query_succeeded_safe[OF E safe t] query_failed_safe[OF safe] by (auto split: if_splits)
  obtain r2 db where m: "set_tx_status E (sl_known_txs st1) (tx_hash E t) TxQueried = (r2, db)" by fastforce
  have "r2 = Ok () \<and> st' = st1\<lparr>sl_known_txs := db\<rparr>"
    using q os q1 m by (cases r1; cases r2) (simp_all add: query_complete_def mark_queried_def on_db_def st_unwrap_def sends_def)
  moreover have "tx_db_ok E (sl_known_txs st1)" using s1 sleet_invD(2) by (auto simp: sleet_safe_def)
  ultimately show ?thesis
    using stored_tx_set_status[OF E _ m] by (auto simp: accepted_def split: if_splits)
qed

definition almost_accepted :: "example_db sleet" where
  "almost_accepted = one_tx\<lparr>sl_committee := [(2, ([10, 0, 0, 2], 7000), Fin 1)], sl_conflict_graph := (sl_conflict_graph one_tx)
     \<lparr>cg_cs := hm_insert 262 \<lparr>conflicts = [262], pref = 262, last_queried = 262, cnt = 10\<rparr> (cg_cs (sl_conflict_graph one_tx))\<rparr>\<rparr>"

lemma almost_accepted_safe: "sleet_safe example_node_externs almost_accepted"
proof -
  have inv: "sleet_inv example_node_externs one_tx" using one_tx_safe by (simp add: sleet_safe_def)
  have "cg_wf example_node_externs (sl_conflict_graph almost_accepted)"
    unfolding almost_accepted_def using sleet_graphs_okD(2)[OF sleet_invD(1)[OF inv]]
    by (simp, intro cg_wf_replace_cset[where cs = "\<lparr>conflicts = [262], pref = 262, last_queried = 262, cnt = 0\<rparr>"])
      (simp_all add: one_tx_eq sleet_with_def SLEET_BETA2_def)
  from sleet_inv_conflict_graph[OF inv this]
  have "sleet_inv example_node_externs (one_tx\<lparr>sl_conflict_graph := sl_conflict_graph almost_accepted\<rparr>)"
    by (simp add: almost_accepted_def)
  moreover have "sleet_inv example_node_externs almost_accepted =
      sleet_inv example_node_externs (one_tx\<lparr>sl_conflict_graph := sl_conflict_graph almost_accepted\<rparr>)"
    by (rule sleet_inv_cong) (simp_all add: almost_accepted_def)
  ultimately show ?thesis using one_tx_safe by (simp add: sleet_safe_def almost_accepted_def)
qed

lemma almost_accepted_run:
  "fst (query_complete example_node_externs (tx_new [] (spend_cell [7] 6))
     [RespQueryTxAck \<lparr>qta_id = 2, qta_tx_hash = 262, qta_outcome = True\<rparr>] almost_accepted) = Ok ()"
  "snd (snd (query_complete example_node_externs (tx_new [] (spend_cell [7] 6))
     [RespQueryTxAck \<lparr>qta_id = 2, qta_tx_hash = 262, qta_outcome = True\<rparr>] almost_accepted)) = [Notify (MsgNewAccepted [262])]"
  by (simp_all add: almost_accepted_def one_tx_eq sleet_with_def sleet_eval query_complete_def sum_outcomes_def
      SLEET_ALPHA_def query_succeeded_def st_unwrap_def sends_def mark_queried_def update_ancestral_preference_def
      insert_live_cell_def bounded_map_insert_def bounded_set_insert_def compute_accepted_txs_def dfs_def dfs_run.simps
      dfs_next.simps get_chit_def get_preferred_def conviction_def conflicting_cells_def update_conflict_set_def update_cset_def
      is_accepted_memo_def sleet_is_accepted_def sleet_is_accepted_tx_def get_confidence_def cg_is_singleton_def
      cset_is_singleton_def SLEET_BETA1_def SLEET_BETA2_def set_tx_status_def update_and_fetch_def update_closure_def
      example_update_def)

theorem query_complete_leaves_queried_witness:
  "\<exists>st'. query_complete example_node_externs (tx_new [] (spend_cell [7] 6))
     [RespQueryTxAck \<lparr>qta_id = 2, qta_tx_hash = 262, qta_outcome = True\<rparr>] almost_accepted
       = (Ok (), st', [Notify (MsgNewAccepted [262])]) \<and> \<not> accepted example_node_externs st' 262"
proof -
  let ?t = "tx_new [] (spend_cell [7] 6)"
  let ?q = "query_complete example_node_externs ?t
     [RespQueryTxAck \<lparr>qta_id = 2, qta_tx_hash = 262, qta_outcome = True\<rparr>] almost_accepted"
  have q: "?q = (Ok (), fst (snd ?q), [Notify (MsgNewAccepted [262])])"
    using almost_accepted_run by (metis prod.collapse)
  have "stored_tx example_node_externs (sl_known_txs almost_accepted) (tx_hash example_node_externs ?t) \<noteq> None"
    "tx_hash example_node_externs ?t = 262"
    by (simp_all add: stored_tx_def sled_map_def almost_accepted_def one_tx_eq sleet_with_def sleet_eval)
  with query_complete_leaves_queried[OF example_node_ok almost_accepted_safe _ q] q show ?thesis by auto
qed


end
