(* ===== verification/Hail_Committee.thy ===== *)
theory Hail_Committee
  imports Messages
begin

text \<open>
  The parts of the block consensus: the committee (\<^verbatim>\<open>src/hail/committee.rs\<close>), the conflict set
  of a height (\<^verbatim>\<open>conflict_set.rs\<close>) and the map from heights to conflict sets
  (\<^verbatim>\<open>conflict_map.rs\<close>). The sortition is the parameter \<open>sortition_select\<close> of a node.
\<close>

section \<open>The committee\<close>

record committee =
  cm_self_id :: node_id
  cm_self_staking_capacity :: u64
  cm_validators :: "(node_id, socket_addr \<times> u64) hashmap"
  cm_committee :: "(node_id, socket_addr \<times> weight) hashmap"
  cm_block_production_slot :: "vrf_output option"
  cm_block_proposed :: bool
  cm_block_producers :: "vrf_output hashset"

definition compute_vrf_h :: "'a externs_scheme \<Rightarrow> node_id \<Rightarrow> vrf_output \<Rightarrow> hash32" where
  "compute_vrf_h E i vrf = blake3 E (id_bytes i @ bytes_of_hash vrf)"

definition committee_empty :: "node_id \<Rightarrow> committee" where
  "committee_empty self_id =
     \<lparr>cm_self_id = self_id, cm_self_staking_capacity = 0, cm_validators = [], cm_committee = [],
      cm_block_production_slot = None, cm_block_proposed = False, cm_block_producers = []\<rparr>"

definition calculate_total_staking_capacity :: "committee \<Rightarrow> u64 \<Rightarrow> u64" where
  "calculate_total_staking_capacity cm init = foldl (\<lambda>acc (_, _, cap). acc + cap) init (cm_validators cm)"

text \<open>
  \<^verbatim>\<open>(n as f64).sqrt().ceil()\<close>, which is exact for any number of validators a node can have
  (below \<open>2 ^ 50\<close>): the least number whose square is at least \<open>n\<close>.
\<close>

definition ceil_sqrt :: "nat \<Rightarrow> nat" where
  "ceil_sqrt n = length (filter (\<lambda>k. k * k < n) [0..<n])"

definition expected_size :: "nat \<Rightarrow> f64" where
  "expected_size n = Fin (of_nat (ceil_sqrt n + 100))"

text \<open>The loop of \<^verbatim>\<open>next_committee\<close> over the validators; it panics on a duplicate.\<close>

fun committee_loop ::
  "('db, 'v, 'a) node_externs_scheme \<Rightarrow> vrf_output \<Rightarrow> u64 \<Rightarrow> f64 \<Rightarrow> (node_id \<times> socket_addr \<times> u64) list
   \<Rightarrow> (node_id, socket_addr \<times> weight) hashmap \<Rightarrow> vrf_output hashset
   \<Rightarrow> (hail_error, (node_id, socket_addr \<times> weight) hashmap \<times> vrf_output hashset) result" where
  "committee_loop E vrf total_cap size_f [] members producers = Ok (members, producers)"
| "committee_loop E vrf total_cap size_f ((i, ip, cap) # vs) members producers =
     (let vrf_h = compute_vrf_h E i vrf;
          s_w = sortition_select E cap total_cap size_f vrf_h;
          producers' = (if s_w > 0 then hs_insert vrf_h producers else producers);
          v_w = percent_of (f64_round E) cap total_cap in
      if hm_get members i \<noteq> None then Panic
      else committee_loop E vrf total_cap size_f vs (hm_insert i (ip, v_w) members) producers')"

definition next_committee ::
  "('db, 'v, 'a) node_externs_scheme \<Rightarrow> committee \<Rightarrow> vrf_output \<Rightarrow> (node_id, socket_addr \<times> u64) hashmap
   \<Rightarrow> (hail_error, (node_id, socket_addr \<times> weight) hashmap \<times> vrf_output hashset \<times> vrf_output option) result" where
  "next_committee E cm vrf validators =
     (let size_f = expected_size (length validators);
          total_cap = calculate_total_staking_capacity cm (cm_self_staking_capacity cm) in
      result_bind (committee_loop E vrf total_cap size_f validators [] []) (\<lambda>(members, producers).
        let vrf_h = compute_vrf_h E (cm_self_id cm) vrf;
            s_w = sortition_select E (cm_self_staking_capacity cm) total_cap size_f vrf_h in
        if s_w > 0 then Ok (members, hs_insert vrf_h producers, Some vrf_h)
        else Ok (members, producers, None)))"

definition committee_next ::
  "('db, 'v, 'a) node_externs_scheme \<Rightarrow> committee \<Rightarrow> u64 \<Rightarrow> vrf_output \<Rightarrow> (node_id, socket_addr \<times> u64) hashmap
   \<Rightarrow> (hail_error, unit) result \<times> committee" where
  "committee_next E cm self_cap vrf validators =
     (let cm1 = cm\<lparr>cm_self_staking_capacity := self_cap, cm_validators := validators\<rparr> in
      case next_committee E cm1 vrf validators of
        Ok (members, producers, slot) \<Rightarrow>
          (Ok (), cm1\<lparr>cm_committee := members, cm_block_producers := producers,
                     cm_block_production_slot := slot, cm_block_proposed := False\<rparr>)
      | Err e \<Rightarrow> (Err e, cm1)
      | Panic \<Rightarrow> (Panic, cm1))"

definition is_valid_vrf :: "committee \<Rightarrow> vrf_output \<Rightarrow> bool" where
  "is_valid_vrf cm vrf = (vrf \<in> set (cm_block_producers cm))"

definition set_block_proposed :: "committee \<Rightarrow> bool \<Rightarrow> committee" where
  "set_block_proposed cm b = cm\<lparr>cm_block_proposed := b\<rparr>"

section \<open>Conflict sets of blocks\<close>

definition HAIL_BETA1 :: u8 where "HAIL_BETA1 = 11"

definition HAIL_BETA2 :: u8 where "HAIL_BETA2 = 20"

record block_conflict_set =
  bc_conflicts :: "block_hash hashset"
  bc_pref :: block_hash
  bc_last :: block_hash
  bc_cnt :: u8

definition block_conflict_set_new :: "block_hash \<Rightarrow> block_conflict_set" where
  "block_conflict_set_new t = \<lparr>bc_conflicts = [t], bc_pref = t, bc_last = t, bc_cnt = 0\<rparr>"

definition bc_is_equivalent :: "block_conflict_set \<Rightarrow> block_hash hashset \<Rightarrow> bool" where
  "bc_is_equivalent cs hs = (set (bc_conflicts cs) = set hs)"

definition bc_is_preferred :: "block_conflict_set \<Rightarrow> block_hash \<Rightarrow> bool" where
  "bc_is_preferred cs t = (bc_pref cs = t)"

definition bc_is_singleton :: "block_conflict_set \<Rightarrow> bool" where
  "bc_is_singleton cs = (length (bc_conflicts cs) = 1)"

definition bc_set_conflicts :: "block_conflict_set \<Rightarrow> block_hash hashset \<Rightarrow> block_conflict_set" where
  "bc_set_conflicts cs hs = cs\<lparr>bc_conflicts := hs\<rparr>"

text \<open>Hashes compare as byte strings, which is the order of the words.\<close>

fun lowest_of :: "block_hash \<Rightarrow> block_hash list \<Rightarrow> block_hash" where
  "lowest_of h [] = h"
| "lowest_of h (hi # hs) = lowest_of (if hi < h then hi else h) hs"

definition lowest_hash :: "block_conflict_set \<Rightarrow> block_hash option" where
  "lowest_hash cs = (case bc_conflicts cs of [] \<Rightarrow> None | h # hs \<Rightarrow> Some (lowest_of h hs))"

definition is_lowest_hash :: "block_conflict_set \<Rightarrow> block_hash \<Rightarrow> bool" where
  "is_lowest_hash cs h = (case lowest_hash cs of Some l \<Rightarrow> l = h | None \<Rightarrow> True)"

section \<open>The conflict map\<close>

type_synonym conflict_map = "(u64, block_conflict_set) hashmap"

definition conflict_map_new :: conflict_map where "conflict_map_new = []"

definition cmap_is_preferred :: "conflict_map \<Rightarrow> u64 \<Rightarrow> block_hash \<Rightarrow> (hail_error, bool) result" where
  "cmap_is_preferred m h bh =
     (case hm_get m h of Some cs \<Rightarrow> Ok (bc_is_preferred cs bh) | None \<Rightarrow> Err (InvalidBlockHeight h))"

definition cmap_is_singleton :: "conflict_map \<Rightarrow> u64 \<Rightarrow> (hail_error, bool) result" where
  "cmap_is_singleton m h =
     (case hm_get m h of Some cs \<Rightarrow> Ok (bc_is_singleton cs) | None \<Rightarrow> Err (InvalidBlockHeight h))"

definition cmap_get_preferred :: "conflict_map \<Rightarrow> u64 \<Rightarrow> (hail_error, block_hash) result" where
  "cmap_get_preferred m h =
     (case hm_get m h of Some cs \<Rightarrow> Ok (bc_pref cs) | None \<Rightarrow> Err (InvalidBlockHeight h))"

definition cmap_get_confidence :: "conflict_map \<Rightarrow> vertex \<Rightarrow> (hail_error, u8) result" where
  "cmap_get_confidence m vx =
     (case hm_get m (vx_height vx) of
        Some cs \<Rightarrow> if bc_pref cs = vx_block_hash vx then Ok (bc_cnt cs) else Ok 0
      | None \<Rightarrow> Err (InvalidBlockHeight (vx_height vx)))"

definition cmap_insert_block :: "'a alpha_externs_scheme \<Rightarrow> conflict_map \<Rightarrow> alpha_block \<Rightarrow> conflict_map" where
  "cmap_insert_block E m b =
     (let bh = alpha_block_hash E b in
      case hm_get m (ab_height b) of
        Some cs \<Rightarrow>
          (let cs1 = cs\<lparr>bc_conflicts := hs_insert bh (bc_conflicts cs)\<rparr>;
               cs2 = (if bc_cnt cs1 < HAIL_BETA1 \<and> is_lowest_hash cs1 bh
                      then cs1\<lparr>bc_pref := bh, bc_cnt := 0\<rparr> else cs1) in
           hm_insert (ab_height b) cs2 m)
      | None \<Rightarrow> hm_insert (ab_height b) (block_conflict_set_new bh) m)"

definition vote_block :: "block_hash \<Rightarrow> u8 \<Rightarrow> u8 \<Rightarrow> block_conflict_set \<Rightarrow> block_conflict_set" where
  "vote_block bh d1 d2 cs =
     (let cs1 = (if d1 > d2 then cs\<lparr>bc_pref := bh\<rparr> else cs) in
      if bh \<noteq> bc_last cs1 then cs1\<lparr>bc_last := bh\<rparr> else cs1\<lparr>bc_cnt := bc_cnt cs1 + 1\<rparr>)"

definition cmap_update_conflict_set ::
  "conflict_map \<Rightarrow> u64 \<Rightarrow> block_hash \<Rightarrow> u8 \<Rightarrow> u8 \<Rightarrow> (hail_error, unit) result \<times> conflict_map" where
  "cmap_update_conflict_set m h bh d1 d2 =
     (case hm_get m h of
        Some cs \<Rightarrow> (Ok (), hm_insert h (vote_block bh d1 d2 cs) m)
      | None \<Rightarrow> (Err (InvalidBlockHeight h), m))"

end
