(* ===== verification/Hail.thy ===== *)
theory Hail
  imports Hail_Committee Voting Dag_Topo
begin

text \<open>
  The block consensus: state, methods and message handlers of \<^verbatim>\<open>src/hail/hail.rs\<close>. Handlers
  return their result, the new state and the messages they send, as in \<open>Sleet\<close>.
\<close>

section \<open>State\<close>

definition HAIL_ALPHA :: f64 where "HAIL_ALPHA = Fin (1 / 2)"

record 'db hail =
  hl_last_accepted_hash :: "block_hash option"
  hl_height :: u64
  hl_node_id :: node_id
  hl_committee :: committee
  hl_known_blocks :: 'db
  hl_queried_blocks :: 'db
  hl_conflict_map :: conflict_map
  hl_live_blocks :: "(block_hash, alpha_block) hashmap"
  hl_accepted_vertices :: "vertex hashset"
  hl_dag :: "vertex dag"

definition hail_new :: "('db, 'v, 'a) storage_externs_scheme \<Rightarrow> node_id \<Rightarrow> 'db hail" where
  "hail_new E nid =
     \<lparr>hl_last_accepted_hash = None, hl_height = 0, hl_node_id = nid, hl_committee = committee_empty nid,
      hl_known_blocks = sled_temporary E, hl_queried_blocks = sled_temporary E,
      hl_conflict_map = conflict_map_new, hl_live_blocks = [], hl_accepted_vertices = [],
      hl_dag = dag_new\<rparr>"

definition on_hail_dag :: "(graph_error, 'a) result \<times> vertex dag \<Rightarrow> 'db hail \<Rightarrow> (hail_error, 'a) result \<times> 'db hail" where
  "on_hail_dag p st = (map_err HailGraph (fst p), st\<lparr>hl_dag := snd p\<rparr>)"

section \<open>Receiving blocks\<close>

definition hail_insert ::
  "('db, 'v, 'a) storage_externs_scheme \<Rightarrow> 'db hail \<Rightarrow> hail_block \<Rightarrow> (hail_error, unit) result \<times> 'db hail" where
  "hail_insert E st b =
     (let vx = hb_vertex E b;
          st1 = st\<lparr>hl_conflict_map := cmap_insert_block E (hl_conflict_map st) (hb_block b)\<rparr> in
      if \<not> hm_contains (dag_g (hl_dag st)) vx then
        (case hb_parent b of
           Some p \<Rightarrow> on_hail_dag (insert_vx (hl_dag st1) vx [p]) st1
         | None \<Rightarrow>
             if vx_height vx = 0 then on_hail_dag (insert_vx (hl_dag st1) vx []) st1
             else (Err (InvalidBlock (hb_block b)), st))
      else (Ok (), st))"

definition on_receive_block ::
  "('db, 'v, 'a) storage_externs_scheme \<Rightarrow> 'db hail \<Rightarrow> hail_block \<Rightarrow> (hail_error, bool) result \<times> 'db hail" where
  "on_receive_block E st b =
     (case is_known_hail_block E (hl_known_blocks st) (hb_hash E b) of
        Ok False \<Rightarrow>
          st_bind (hail_insert E st b) (\<lambda>_ st1.
            (Ok True, st1\<lparr>hl_known_blocks := snd (insert_hail_block E (hl_known_blocks st1) b)\<rparr>))
      | Ok True \<Rightarrow> (Ok False, st)
      | _ \<Rightarrow> (Panic, st))"

section \<open>Preference\<close>

definition is_preferred_vertex :: "'db hail \<Rightarrow> vertex \<Rightarrow> (hail_error, bool) result" where
  "is_preferred_vertex st vx = cmap_is_preferred (hl_conflict_map st) (vx_height vx) (vx_block_hash vx)"

definition hail_is_strongly_preferred :: "'db hail \<Rightarrow> vertex \<Rightarrow> (hail_error, bool) result" where
  "hail_is_strongly_preferred st vx = check_all (is_preferred_vertex st) (dfs (hl_dag st) vx)"

fun candidates_in :: "'db hail \<Rightarrow> u64 \<Rightarrow> vertex list \<Rightarrow> (hail_error, vertex list) result" where
  "candidates_in st h [] = Ok []"
| "candidates_in st h (vx # vxs) =
     result_bind (hail_is_strongly_preferred st vx) (\<lambda>b.
       result_bind (candidates_in st h vxs) (\<lambda>rest.
         Ok (if b \<and> vx_height vx = h - 1 then vx # rest else rest)))"

fun parent_candidates :: "'db hail \<Rightarrow> u64 \<Rightarrow> vertex list \<Rightarrow> (hail_error, vertex list) result" where
  "parent_candidates st h [] = Ok []"
| "parent_candidates st h (leaf # ls) =
     result_bind (candidates_in st h (dfs (hl_dag st) leaf)) (\<lambda>vxs.
       result_bind (parent_candidates st h ls) (\<lambda>rest. Ok (vxs @ rest)))"

fun lowest_vertex :: "vertex \<Rightarrow> vertex list \<Rightarrow> vertex" where
  "lowest_vertex v [] = v"
| "lowest_vertex v (vi # vs) = lowest_vertex (if vx_block_hash vi < vx_block_hash v then vi else v) vs"

definition select_parent :: "'db hail \<Rightarrow> u64 \<Rightarrow> (hail_error, vertex) result" where
  "select_parent st h =
     (if dag_g (hl_dag st) = [] then Err EmptyDAG
      else result_bind (parent_candidates st h (leaves (hl_dag st))) (\<lambda>vxs.
        case vxs of [] \<Rightarrow> Panic | v # vs \<Rightarrow> Ok (lowest_vertex v vs)))"

fun hail_update_preferences :: "'db hail \<Rightarrow> vertex list \<Rightarrow> (hail_error, unit) result \<times> 'db hail" where
  "hail_update_preferences st [] = (Ok (), st)"
| "hail_update_preferences st (vx # vxs) =
     (case result_bind (cmap_get_preferred (hl_conflict_map st) (vx_height vx)) (\<lambda>p.
             result_bind (map_err HailGraph (conviction (hl_dag st) vx)) (\<lambda>d1.
             result_bind (map_err HailGraph (conviction (hl_dag st) \<lparr>vx_height = vx_height vx, vx_block_hash = p\<rparr>))
               (\<lambda>d2. Ok (d1, d2)))) of
        Ok (d1, d2) \<Rightarrow>
          (case cmap_update_conflict_set (hl_conflict_map st) (vx_height vx) (vx_block_hash vx) d1 d2 of
             (Ok _, m) \<Rightarrow> hail_update_preferences (st\<lparr>hl_conflict_map := m\<rparr>) vxs
           | (r, m) \<Rightarrow> (r, st\<lparr>hl_conflict_map := m\<rparr>))
      | Err e \<Rightarrow> (Err e, st)
      | Panic \<Rightarrow> (Panic, st))"

definition hail_update_ancestral_preference :: "'db hail \<Rightarrow> vertex \<Rightarrow> (hail_error, unit) result \<times> 'db hail" where
  "hail_update_ancestral_preference st root_vx = hail_update_preferences st (dfs (hl_dag st) root_vx)"

section \<open>Finality\<close>

definition is_accepted_block :: "'db hail \<Rightarrow> vertex \<Rightarrow> (hail_error, bool) result" where
  "is_accepted_block st vx =
     result_bind (cmap_is_singleton (hl_conflict_map st) (vx_height vx)) (\<lambda>single.
       result_bind (cmap_get_confidence (hl_conflict_map st) vx) (\<lambda>confidence.
         Ok (single \<and> confidence \<ge> HAIL_BETA1 \<or> confidence \<ge> HAIL_BETA2)))"

definition hail_is_accepted :: "'db hail \<Rightarrow> vertex \<Rightarrow> (hail_error, bool) result" where
  "hail_is_accepted st vx =
     (case hm_get (dag_g (hl_dag st)) vx of
        Some ps \<Rightarrow> result_bind (check_all (is_accepted_block st) ps) (\<lambda>parent_accepted.
                     if parent_accepted then is_accepted_block st vx else Ok False)
      | None \<Rightarrow> Err (InvalidBlockHash (vx_block_hash vx)))"

fun first_accepted :: "'db hail \<Rightarrow> vertex list \<Rightarrow> (hail_error, vertex list) result" where
  "first_accepted st [] = Ok []"
| "first_accepted st (vx # vxs) =
     result_bind (hail_is_accepted st vx) (\<lambda>b. if b then Ok [vx] else first_accepted st vxs)"

fun accepted_from_leaves :: "'db hail \<Rightarrow> vertex list \<Rightarrow> (hail_error, vertex list) result" where
  "accepted_from_leaves st [] = Ok []"
| "accepted_from_leaves st (leaf # ls) =
     result_bind (first_accepted st (dfs (hl_dag st) leaf)) (\<lambda>vxs.
       result_bind (accepted_from_leaves st ls) (\<lambda>rest. Ok (vxs @ rest)))"

definition hail_get_accepted_frontier :: "'db hail \<Rightarrow> (hail_error, vertex list) result" where
  "hail_get_accepted_frontier st =
     (if dag_g (hl_dag st) = [] then Ok [] else accepted_from_leaves st (leaves (hl_dag st)))"

fun next_accepted_in :: "'db hail \<Rightarrow> vertex list \<Rightarrow> (hail_error, vertex option) result" where
  "next_accepted_in st [] = Ok None"
| "next_accepted_in st (vx # vxs) =
     (if vx \<in> set (hl_accepted_vertices st) then next_accepted_in st vxs
      else result_bind (hail_is_accepted st vx) (\<lambda>b. if b then Ok (Some vx) else next_accepted_in st vxs))"

definition next_accepted_vertex :: "'db hail \<Rightarrow> vertex \<Rightarrow> (hail_error, vertex option) result \<times> 'db hail" where
  "next_accepted_vertex st vx =
     (case next_accepted_in st (dfs (hl_dag st) vx) of
        Ok (Some v) \<Rightarrow> (Ok (Some v), st\<lparr>hl_accepted_vertices := hs_insert v (hl_accepted_vertices st)\<rparr>)
      | r \<Rightarrow> (r, st))"

definition hail_sample ::
  "('db, 'v, 'a) node_externs_scheme \<Rightarrow> ((node_id \<times> socket_addr \<times> weight) list \<Rightarrow> (node_id \<times> socket_addr \<times> weight) list)
   \<Rightarrow> 'db hail \<Rightarrow> weight \<Rightarrow> (hail_error, peer list) result" where
  "hail_sample E shuffle st minimum_weight =
     ok_or HailInsufficientWeight
       (sample_weighted (f64_round E) shuffle minimum_weight
          (map (\<lambda>(id, ip, w). (id, ip, w)) (cm_committee (hl_committee st))))"

section \<open>Handlers\<close>

datatype hail_effect =
    NotifyHailQueryIncomplete hail_block "response list"
  | NotifyHailQueryComplete hail_block "response list"
  | NotifyAccepted vertex
  | NotifyFreshBlock hail_block
  | NotifyGenerateBlock alpha_block
  | HailSend client_request

type_synonym ('db, 'a) hail_out = "(hail_error, 'a) result \<times> 'db hail \<times> hail_effect list"

record live_committee_msg =
  lc_last_accepted_hash :: block_hash
  lc_last_accepted_block :: hail_block
  lc_height :: u64
  lc_self_id :: node_id
  lc_self_staking_capacity :: u64
  lc_total_staking_capacity :: u64
  lc_validators :: "(node_id, socket_addr \<times> u64) hashmap"
  lc_vrf_out :: vrf_output

definition on_committee :: "(hail_error, 'a) result \<times> committee \<Rightarrow> 'db hail \<Rightarrow> (hail_error, 'a) result \<times> 'db hail" where
  "on_committee p st = (fst p, st\<lparr>hl_committee := snd p\<rparr>)"

definition hail_live_committee ::
  "('db, 'v, 'a) node_externs_scheme \<Rightarrow> live_committee_msg \<Rightarrow> 'db hail \<Rightarrow> (hail_error, unit) result \<times> 'db hail" where
  "hail_live_committee E msg st =
     st_bind (on_committee (committee_next E (hl_committee st) (lc_self_staking_capacity msg)
                              (lc_vrf_out msg) (lc_validators msg)) st) (\<lambda>_ st1.
       case hail_insert E (st1\<lparr>hl_last_accepted_hash := Some (lc_last_accepted_hash msg),
                              hl_height := lc_height msg\<rparr>) (lc_last_accepted_block msg) of
         (r, st2) \<Rightarrow> (unwrap_result r, st2))"

definition hail_query_incomplete :: "hail_block \<Rightarrow> response list \<Rightarrow> 'db hail \<Rightarrow> ('db, unit) hail_out" where
  "hail_query_incomplete b acks st = (Ok (), st, [])"

fun block_outcomes ::
  "(node_id, socket_addr \<times> weight) hashmap \<Rightarrow> response list \<Rightarrow> (node_id \<times> weight \<times> bool) list" where
  "block_outcomes members [] = []"
| "block_outcomes members (a # acks) =
     (case a of
        RespQueryBlockAck q \<Rightarrow>
          (case hm_get members (qba_id q) of
             Some (_, w) \<Rightarrow> (qba_id q, w, qba_outcome q) # block_outcomes members acks
           | None \<Rightarrow> block_outcomes members acks)
      | _ \<Rightarrow> block_outcomes members acks)"

definition hail_query_succeeded ::
  "('db, 'v, 'a) node_externs_scheme \<Rightarrow> hail_block \<Rightarrow> 'db hail \<Rightarrow> (hail_error, vertex option) result \<times> 'db hail" where
  "hail_query_succeeded E b st =
     (let vx = hb_vertex E b in
      case st_bind (on_hail_dag (set_chit (hl_dag st) vx 1) st) (\<lambda>_ st1.
             st_bind (hail_update_ancestral_preference st1 vx) (\<lambda>_ st2.
             let st3 = st2\<lparr>hl_live_blocks := hm_insert (vx_block_hash vx) (hb_block b) (hl_live_blocks st2)\<rparr> in
             st_bind (on_committee (committee_next E (hl_committee st3)
                                      (cm_self_staking_capacity (hl_committee st3))
                                      (ab_vrf_out (hb_block b)) (cm_validators (hl_committee st3))) st3) (\<lambda>_ st4.
             next_accepted_vertex (st4\<lparr>hl_last_accepted_hash := Some (vx_block_hash vx),
                                      hl_height := vx_height vx\<rparr>) vx))) of
        (r, st5) \<Rightarrow> (unwrap_result r, st5))"

definition hail_query_complete ::
  "('db, 'v, 'a) node_externs_scheme \<Rightarrow> hail_block \<Rightarrow> response list \<Rightarrow> 'db hail \<Rightarrow> ('db, unit) hail_out" where
  "hail_query_complete E b acks st =
     (let outcomes = block_outcomes (cm_committee (hl_committee st)) acks in
      case st_bind (if f64_ge (sum_outcomes (f64_round E) outcomes) HAIL_ALPHA
                    then hail_query_succeeded E b st else (Ok None, st)) (\<lambda>accepted st1.
             case insert_hail_block E (hl_queried_blocks st1) b of
               (r, db) \<Rightarrow> (result_bind (unwrap_result r) (\<lambda>_. Ok accepted), st1\<lparr>hl_queried_blocks := db\<rparr>)) of
        (Ok (Some v), st2) \<Rightarrow> (Ok (), st2, [NotifyAccepted v])
      | (Ok None, st2) \<Rightarrow> (Ok (), st2, [])
      | (Err e, st2) \<Rightarrow> (Err e, st2, [])
      | (Panic, st2) \<Rightarrow> (Panic, st2, []))"

definition hail_accepted :: "vertex \<Rightarrow> 'db hail \<Rightarrow> ('db, unit) hail_out" where
  "hail_accepted vx st = (Ok (), st, [])"

definition fresh_block ::
  "('db, 'v, 'a) node_externs_scheme \<Rightarrow> ((node_id \<times> socket_addr \<times> weight) list \<Rightarrow> (node_id \<times> socket_addr \<times> weight) list)
   \<Rightarrow> hail_block \<Rightarrow> 'db hail \<Rightarrow> ('db, peer list) hail_out" where
  "fresh_block E shuffle b st =
     (case hail_sample E shuffle st HAIL_ALPHA of
        Ok validators \<Rightarrow>
          (Ok validators, st,
           [HailSend (Fanout validators (ReqQueryBlock \<lparr>qb_id = hl_node_id st, qb_block = b\<rparr>))])
      | _ \<Rightarrow> (Panic, st, []))"

definition fresh_block_response ::
  "hail_block \<Rightarrow> peer list \<Rightarrow> client_response option \<Rightarrow> 'db hail \<Rightarrow> ('db, unit) hail_out" where
  "fresh_block_response b validators res st =
     (case res of
        Some (FanoutResponse acks) \<Rightarrow>
          if length acks = length validators then (Ok (), st, [NotifyHailQueryComplete b acks])
          else (Ok (), st, [NotifyHailQueryIncomplete b acks])
      | Some (OneshotResponse _) \<Rightarrow> (Panic, st, [])
      | None \<Rightarrow> (Err HailActixMailbox, st, []))"

definition handle_query_block ::
  "('db, 'v, 'a) storage_externs_scheme \<Rightarrow> query_block \<Rightarrow> 'db hail \<Rightarrow> ('db, query_block_ack) hail_out" where
  "handle_query_block E q st =
     (let vx = hb_vertex E (qb_block q);
          reply = (\<lambda>b. \<lparr>qba_id = hl_node_id st, qba_block_hash = vx_block_hash vx, qba_outcome = b\<rparr>) in
      case on_receive_block E st (qb_block q) of
        (Panic, st1) \<Rightarrow> (Panic, st1, [])
      | (r, st1) \<Rightarrow>
          (case hail_is_strongly_preferred st1 vx of
             Ok b \<Rightarrow> Ok (reply b)
           | Err e \<Rightarrow> Ok (reply False)
           | Panic \<Rightarrow> Panic,
           st1, if r = Ok True then [NotifyFreshBlock (qb_block q)] else []))"

definition get_block :: "block_hash \<Rightarrow> 'db hail \<Rightarrow> alpha_block option" where
  "get_block bh st = hm_get (hl_live_blocks st) bh"

definition get_block_by_height :: "u64 \<Rightarrow> 'db hail \<Rightarrow> alpha_block option" where
  "get_block_by_height h st =
     map_option snd (List.find (\<lambda>e. ab_height (snd e) = h) (hl_live_blocks st))"

definition generate_block ::
  "('db, 'v, 'a) storage_externs_scheme \<Rightarrow> alpha_block \<Rightarrow> 'db hail \<Rightarrow> ('db, block_hash option) hail_out" where
  "generate_block E b st =
     (case select_parent st (ab_height b) of
        Ok p \<Rightarrow>
          (let hb = hail_block_new (Some p) b in
           case on_receive_block E st hb of
             (Ok True, st1) \<Rightarrow> (Ok (Some (alpha_block_hash E b)), st1, [NotifyFreshBlock hb])
           | (Ok False, st1) \<Rightarrow> (Ok None, st1, [])
           | (Err e, st1) \<Rightarrow> (Ok None, st1, [])
           | (Panic, st1) \<Rightarrow> (Panic, st1, []))
      | _ \<Rightarrow> (Panic, st, []))"

definition accepted_cells :: "cell list \<Rightarrow> 'db hail \<Rightarrow> ('db, unit) hail_out" where
  "accepted_cells cells st =
     (case cm_block_production_slot (hl_committee st) of
        Some vrf_out \<Rightarrow>
          if \<not> cm_block_proposed (hl_committee st) then
            (case hl_last_accepted_hash st of
               None \<Rightarrow> (Panic, st, [])
             | Some lah \<Rightarrow>
                 (Ok (), st\<lparr>hl_committee := set_block_proposed (hl_committee st) True\<rparr>,
                  [NotifyGenerateBlock (alpha_block_new lah (hl_height st + 1) vrf_out cells)]))
          else (Ok (), st, [])
      | None \<Rightarrow> (Ok (), st, []))"

end
