(* ===== verification/Hail_Safety.thy ===== *)
theory Hail_Safety
  imports Hail
begin

text \<open>
  What the block consensus guarantees. \<open>hail_inv\<close> ties the DAG of blocks to the conflict map: the
  conflict set of a height holds the hashes of the blocks of the DAG at that height, and prefers one
  of them. Strong preference is an ancestral question as in the transaction consensus.
\<close>

section \<open>The invariant\<close>

definition hail_inv :: "'db hail \<Rightarrow> bool" where
  "hail_inv st \<longleftrightarrow>
     dag_wf (hl_dag st) \<and> hm_keys (dag_chits (hl_dag st)) = vertices (hl_dag st) \<and>
     hm_keys (hl_conflict_map st) = vx_height ` vertices (hl_dag st) \<and>
     (\<forall>h cs. hm_get (hl_conflict_map st) h = Some cs \<longrightarrow>
        distinct (bc_conflicts cs) \<and> bc_pref cs \<in> set (bc_conflicts cs) \<and>
        set (bc_conflicts cs) = {bh. \<lparr>vx_height = h, vx_block_hash = bh\<rparr> \<in> vertices (hl_dag st)})"

lemma hail_invD:
  assumes "hail_inv st"
  shows "dag_wf (hl_dag st)" "hm_keys (dag_chits (hl_dag st)) = vertices (hl_dag st)"
    "hm_keys (hl_conflict_map st) = vx_height ` vertices (hl_dag st)"
    "hm_get (hl_conflict_map st) h = Some cs \<Longrightarrow> distinct (bc_conflicts cs)"
    "hm_get (hl_conflict_map st) h = Some cs \<Longrightarrow> bc_pref cs \<in> set (bc_conflicts cs)"
    "hm_get (hl_conflict_map st) h = Some cs \<Longrightarrow>
       set (bc_conflicts cs) = {bh. \<lparr>vx_height = h, vx_block_hash = bh\<rparr> \<in> vertices (hl_dag st)}"
    "v \<in> vertices (hl_dag st) \<Longrightarrow> \<exists>cs. hm_get (hl_conflict_map st) (vx_height v) = Some cs"
proof -
  note i = assms[unfolded hail_inv_def]
  note c = i[THEN conjunct2, THEN conjunct2, THEN conjunct2, rule_format]
  show "dag_wf (hl_dag st)" "hm_keys (dag_chits (hl_dag st)) = vertices (hl_dag st)"
    and k: "hm_keys (hl_conflict_map st) = vx_height ` vertices (hl_dag st)"
    using i by simp_all
  show "hm_get (hl_conflict_map st) h = Some cs \<Longrightarrow> distinct (bc_conflicts cs)" by (rule c[THEN conjunct1])
  show "hm_get (hl_conflict_map st) h = Some cs \<Longrightarrow> bc_pref cs \<in> set (bc_conflicts cs)"
    by (rule c[THEN conjunct2, THEN conjunct1])
  show "hm_get (hl_conflict_map st) h = Some cs \<Longrightarrow>
       set (bc_conflicts cs) = {bh. \<lparr>vx_height = h, vx_block_hash = bh\<rparr> \<in> vertices (hl_dag st)}"
    by (rule c[THEN conjunct2, THEN conjunct2])
  assume "v \<in> vertices (hl_dag st)"
  then have "vx_height v \<in> hm_keys (hl_conflict_map st)" unfolding k by (rule imageI)
  then show "\<exists>cs. hm_get (hl_conflict_map st) (vx_height v) = Some cs" by (rule hm_keys_get)
qed

lemma hail_new_inv: "hail_inv (hail_new E nid)"
  by (simp add: hail_inv_def hail_new_def dag_wf_new conflict_map_new_def) (simp add: dag_new_def)

section \<open>Preference\<close>

definition prefers_block :: "'db hail \<Rightarrow> vertex \<Rightarrow> bool" where
  "prefers_block st v \<longleftrightarrow> map_option bc_pref (hm_get (hl_conflict_map st) (vx_height v)) = Some (vx_block_hash v)"

definition strongly_preferred_block :: "'db hail \<Rightarrow> vertex \<Rightarrow> bool" where
  "strongly_preferred_block st v \<longleftrightarrow> (\<forall>u. (v, u) \<in> (edge_rel (hl_dag st))\<^sup>* \<longrightarrow> prefers_block st u)"

interpretation hail_preference: ancestral_question
  hail_inv hl_dag is_preferred_vertex prefers_block hail_is_strongly_preferred
proof
  fix st :: "'b hail" and v
  assume ok: "hail_inv st"
  show "dag_wf (hl_dag st)" by (rule hail_invD(1)[OF ok])
  assume "v \<in> vertices (hl_dag st)"
  from hail_invD(7)[OF ok this] obtain cs where "hm_get (hl_conflict_map st) (vx_height v) = Some cs" ..
  then show "is_preferred_vertex st v = Ok (prefers_block st v)"
    by (simp add: is_preferred_vertex_def cmap_is_preferred_def prefers_block_def bc_is_preferred_def)
qed (simp add: hail_is_strongly_preferred_def)

lemma hail_is_strongly_preferred_eq:
  assumes "hail_inv st" "v \<in> vertices (hl_dag st)"
  shows "hail_is_strongly_preferred st v = Ok (strongly_preferred_block st v)"
  using hail_preference.all_ancestors[OF assms] by (simp add: strongly_preferred_block_def)

section \<open>Receiving a block\<close>

lemma lowest_of_min: "lowest_of h hs = Min (insert h (set hs))"
proof -
  have "lowest_of h hs = fold min hs h"
    by (induction hs arbitrary: h) (simp_all add: min_def less_le_not_le)
  then show ?thesis using Min.set_eq_fold[of h hs] by simp
qed

lemma is_lowest_hash_min:
  "is_lowest_hash cs h \<longleftrightarrow> bc_conflicts cs = [] \<or> h = Min (set (bc_conflicts cs))"
  by (cases "bc_conflicts cs") (auto simp: is_lowest_hash_def lowest_hash_def lowest_of_min)

text \<open>
  The conflict set of the height of a new block: the block joins it, and is preferred if it is alone,
  or if its hash is the lowest and the preferred block has less than \<open>HAIL_BETA1\<close> confidence.
\<close>

lemma cmap_insert_block_get:
  "hm_get (cmap_insert_block E m b) h =
     (if h = ab_height b then
        (case hm_get m h of
           Some cs \<Rightarrow>
             (let hs = hs_insert (alpha_block_hash E b) (bc_conflicts cs) in
              if bc_cnt cs < HAIL_BETA1 \<and> alpha_block_hash E b = Min (set hs)
              then Some (cs\<lparr>bc_conflicts := hs, bc_pref := alpha_block_hash E b, bc_cnt := 0\<rparr>)
              else Some (cs\<lparr>bc_conflicts := hs\<rparr>))
         | None \<Rightarrow> Some (block_conflict_set_new (alpha_block_hash E b)))
      else hm_get m h)"
proof -
  have "hs_insert k ks \<noteq> []" for k :: block_hash and ks by (metis insert_not_empty set_empty set_hs_insert)
  then show ?thesis by (auto simp: cmap_insert_block_def Let_def is_lowest_hash_min split: option.splits)
qed

lemma hm_keys_cmap_insert_block: "hm_keys (cmap_insert_block E m b) = insert (ab_height b) (hm_keys m)"
  by (auto simp: cmap_insert_block_def Let_def split: option.splits)

lemma hail_insert_inv:
  assumes inv: "hail_inv st" and new: "hb_vertex E b \<notin> vertices (hl_dag st)"
    and parent: "case hb_parent b of Some p \<Rightarrow> p \<in> vertices (hl_dag st) | None \<Rightarrow> hb_height b = 0"
  shows "\<exists>d. hail_insert E st b = (Ok (), st\<lparr>hl_conflict_map := cmap_insert_block E (hl_conflict_map st) (hb_block b), hl_dag := d\<rparr>) \<and>
    hail_inv (st\<lparr>hl_conflict_map := cmap_insert_block E (hl_conflict_map st) (hb_block b), hl_dag := d\<rparr>) \<and>
    vertices d = insert (hb_vertex E b) (vertices (hl_dag st)) \<and>
    (\<forall>v. parents d v = (if v = hb_vertex E b then case hb_parent b of Some p \<Rightarrow> [p] | None \<Rightarrow> [] else parents (hl_dag st) v))"
proof -
  note i = hail_invD[OF inv]
  let ?vx = "hb_vertex E b" and ?ps = "case hb_parent b of Some p \<Rightarrow> [p] | None \<Rightarrow> []"
  let ?m = "cmap_insert_block E (hl_conflict_map st) (hb_block b)"
  have ps: "set ?ps \<subseteq> vertices (hl_dag st)" "distinct ?ps" using parent by (auto split: option.splits)
  have chit: "hm_get (dag_chits (hl_dag st)) ?vx \<noteq> Some 1" using new i(2) by (auto dest: hm_get_Some_keys)
  obtain d where d: "insert_vx (hl_dag st) ?vx ?ps = (Ok (), d)" "vertices d = insert ?vx (vertices (hl_dag st))"
    "hm_get (dag_chits d) = (hm_get (dag_chits (hl_dag st)))(?vx \<mapsto> 0)"
    "\<And>v. parents d v = (if v = ?vx then ?ps else parents (hl_dag st) v)"
    by (rule insert_vx_spec[OF i(1) new ps chit]) (rule that)
  have wf: "dag_wf d" using dag_wf_insert_vx[OF i(1) new ps chit d(1)] by simp
  have keys: "hm_keys (dag_chits d) = vertices d"
    using d(2,3) i(2) unfolding dom_map_of_conv_image_fst[symmetric] by simp
  have vx: "vx_height ?vx = ab_height (hb_block b)" "vx_block_hash ?vx = alpha_block_hash E (hb_block b)"
    "?vx = \<lparr>vx_height = ab_height (hb_block b), vx_block_hash = alpha_block_hash E (hb_block b)\<rparr>"
    by (simp_all add: hb_vertex_def hb_height_def hb_hash_def)
  have sets: "distinct (bc_conflicts cs) \<and> bc_pref cs \<in> set (bc_conflicts cs) \<and>
      set (bc_conflicts cs) = {bh. \<lparr>vx_height = h, vx_block_hash = bh\<rparr> \<in> vertices d}"
    if g: "hm_get ?m h = Some cs" for h cs
  proof (cases "h = ab_height (hb_block b)")
    case True
    show ?thesis
    proof (cases "hm_get (hl_conflict_map st) h")
      case None
      then have "h \<notin> vx_height ` vertices (hl_dag st)" using i(3) by (simp add: hm_get_None_iff)
      then have "\<lparr>vx_height = h, vx_block_hash = bh\<rparr> \<notin> vertices (hl_dag st)" for bh
        by (metis imageI vertex.select_convs(1))
      then have "{bh. \<lparr>vx_height = h, vx_block_hash = bh\<rparr> \<in> vertices d} = {alpha_block_hash E (hb_block b)}"
        unfolding d(2) vx(3) True by auto
      moreover have "cs = block_conflict_set_new (alpha_block_hash E (hb_block b))"
        using g True None by (simp add: cmap_insert_block_get)
      ultimately show ?thesis by (simp add: block_conflict_set_new_def)
    next
      case (Some cs0)
      have "{bh. \<lparr>vx_height = h, vx_block_hash = bh\<rparr> \<in> vertices d} =
          insert (alpha_block_hash E (hb_block b)) (set (bc_conflicts cs0))"
        unfolding d(2) vx(3) i(6)[OF Some] using True by auto
      moreover have "bc_conflicts cs = hs_insert (alpha_block_hash E (hb_block b)) (bc_conflicts cs0) \<and>
          bc_pref cs \<in> {bc_pref cs0, alpha_block_hash E (hb_block b)}"
        using g True Some by (simp add: cmap_insert_block_get Let_def split: if_splits) auto
      ultimately show ?thesis using i(4,5)[OF Some] by auto
    qed
  next
    case False
    then have c: "hm_get (hl_conflict_map st) h = Some cs" using g by (simp add: cmap_insert_block_get)
    have "{bh. \<lparr>vx_height = h, vx_block_hash = bh\<rparr> \<in> vertices d} =
        {bh. \<lparr>vx_height = h, vx_block_hash = bh\<rparr> \<in> vertices (hl_dag st)}"
      unfolding d(2) vx(3) using False by simp
    then show ?thesis using i(4-6)[OF c] by simp
  qed
  have m: "hm_keys ?m = vx_height ` vertices d"
    unfolding hm_keys_cmap_insert_block i(3) d(2) vx(1)[symmetric] by simp
  let ?st = "st\<lparr>hl_conflict_map := ?m, hl_dag := d\<rparr>"
  have eqs: "hl_dag ?st = d" "hl_conflict_map ?st = ?m" by simp_all
  have "hail_inv ?st"
    unfolding hail_inv_def eqs by (intro conjI allI impI wf keys m) (use sets in blast)+
  moreover have "hail_insert E st b = (Ok (), st\<lparr>hl_conflict_map := ?m, hl_dag := d\<rparr>)"
    using new parent d(1)
    by (cases "hb_parent b") (simp_all add: hail_insert_def Let_def on_hail_dag_def vx(1) hb_height_def)
  ultimately show ?thesis using d(2,4) by (intro exI[of _ d] conjI allI) assumption+
qed

text \<open>A block is admissible when it is in the DAG, or has no parent, or a parent in the DAG.\<close>

definition admissible_block :: "'a alpha_externs_scheme \<Rightarrow> 'db hail \<Rightarrow> hail_block \<Rightarrow> bool" where
  "admissible_block E st b \<longleftrightarrow> hb_vertex E b \<in> vertices (hl_dag st) \<or>
     (case hb_parent b of Some p \<Rightarrow> p \<in> vertices (hl_dag st) | None \<Rightarrow> True)"

lemma hail_insert_keeps:
  assumes inv: "hail_inv st" and b: "admissible_block E st b" and r: "hail_insert E st b = (r, st')"
  shows "hail_inv st' \<and> vertices (hl_dag st) \<subseteq> vertices (hl_dag st') \<and>
    (r = Ok () \<longrightarrow> hb_vertex E b \<in> vertices (hl_dag st')) \<and> hl_known_blocks st' = hl_known_blocks st"
proof -
  consider "hb_vertex E b \<in> vertices (hl_dag st)" | "hb_vertex E b \<notin> vertices (hl_dag st)" "hb_parent b = None" "hb_height b \<noteq> 0"
    | "hb_vertex E b \<notin> vertices (hl_dag st)" "case hb_parent b of Some p \<Rightarrow> p \<in> vertices (hl_dag st) | None \<Rightarrow> hb_height b = 0"
    using b by (fastforce simp: admissible_block_def split: option.splits)
  then show ?thesis
  proof cases
    case 1
    then have "r = Ok ()" "st' = st" using r by (simp_all add: hail_insert_def Let_def)
    with inv 1 show ?thesis by simp
  next
    case 2
    then have "r \<noteq> Ok ()" "st' = st" using r by (auto simp: hail_insert_def Let_def hb_vertex_def)
    with inv show ?thesis by simp
  next
    case 3
    from hail_insert_inv[OF inv 3] obtain d where
      d: "hail_insert E st b = (Ok (), st\<lparr>hl_conflict_map := cmap_insert_block E (hl_conflict_map st) (hb_block b), hl_dag := d\<rparr>)"
      "hail_inv (st\<lparr>hl_conflict_map := cmap_insert_block E (hl_conflict_map st) (hb_block b), hl_dag := d\<rparr>)"
      "vertices d = insert (hb_vertex E b) (vertices (hl_dag st))" by (elim exE conjE) (rule that)
    have st': "st' = st\<lparr>hl_conflict_map := cmap_insert_block E (hl_conflict_map st) (hb_block b), hl_dag := d\<rparr>"
      using r d(1) by simp
    have "vertices (hl_dag st') = insert (hb_vertex E b) (vertices (hl_dag st))" using d(3) unfolding st' by simp
    moreover have "hl_known_blocks st' = hl_known_blocks st" unfolding st' by simp
    ultimately show ?thesis using d(2) unfolding st'[symmetric] by blast
  qed
qed

lemma hail_inv_cong: "hl_dag st' = hl_dag st \<Longrightarrow> hl_conflict_map st' = hl_conflict_map st \<Longrightarrow> hail_inv st' = hail_inv st"
  by (simp add: hail_inv_def)

lemma on_receive_block_keeps:
  assumes "hail_inv st" "admissible_block E st b" "on_receive_block E st b = (r, st')"
  shows "hail_inv st' \<and> vertices (hl_dag st) \<subseteq> vertices (hl_dag st') \<and>
    (r = Ok True \<longrightarrow> hb_vertex E b \<in> vertices (hl_dag st'))"
proof -
  obtain r1 st1 where i: "hail_insert E st b = (r1, st1)" by fastforce
  note k = hail_insert_keeps[OF assms(1,2) i]
  have "hail_inv (st1\<lparr>hl_known_blocks := db\<rparr>)" for db
    using k hail_inv_cong[of "st1\<lparr>hl_known_blocks := db\<rparr>" st1] by simp
  moreover have "(r = Ok True \<and> r1 = Ok () \<and> (\<exists>db. st' = st1\<lparr>hl_known_blocks := db\<rparr>)) \<or> (r \<noteq> Ok True \<and> (st' = st \<or> st' = st1))"
    using assms(3) i by (cases r1) (auto simp: on_receive_block_def split: result.splits bool.splits)
  ultimately show ?thesis using k assms(1) by (elim disjE conjE exE) simp_all
qed

section \<open>Votes\<close>

lemma hail_inv_vote:
  assumes inv: "hail_inv st" and v: "v \<in> vertices (hl_dag st)"
    and u: "cmap_update_conflict_set (hl_conflict_map st) (vx_height v) (vx_block_hash v) d1 d2 = (r, m)"
  shows "hail_inv (st\<lparr>hl_conflict_map := m\<rparr>)"
proof -
  note i = hail_invD[OF inv]
  from i(7)[OF v] obtain cs where cs: "hm_get (hl_conflict_map st) (vx_height v) = Some cs" ..
  let ?cs = "vote_block (vx_block_hash v) d1 d2 cs"
  have m: "m = hm_insert (vx_height v) ?cs (hl_conflict_map st)" using u cs by (simp add: cmap_update_conflict_set_def)
  have hv: "vx_block_hash v \<in> set (bc_conflicts cs)" using i(6)[OF cs] v by (cases v) simp
  have k: "bc_conflicts ?cs = bc_conflicts cs" "bc_pref ?cs \<in> {bc_pref cs, vx_block_hash v}"
    by (auto simp: vote_block_def Let_def)
  have keys: "hm_keys m = vx_height ` vertices (hl_dag st)"
    unfolding m i(3)[symmetric] using hm_get_Some_keys[OF cs] by (simp add: insert_absorb)
  have "distinct (bc_conflicts c) \<and> bc_pref c \<in> set (bc_conflicts c) \<and>
      set (bc_conflicts c) = {bh. \<lparr>vx_height = h, vx_block_hash = bh\<rparr> \<in> vertices (hl_dag st)}"
    if "hm_get m h = Some c" for h c
  proof (cases "h = vx_height v")
    case True
    then have c: "c = ?cs" using that m by simp
    have "bc_pref ?cs \<in> set (bc_conflicts cs)" using k(2) i(5)[OF cs] hv by (elim insertE) simp_all
    then show ?thesis unfolding c k(1) True by (intro conjI i(4)[OF cs] i(6)[OF cs])
  next
    case False
    then have "hm_get (hl_conflict_map st) h = Some c" using that m by simp
    then show ?thesis using i(4-6) by simp
  qed
  moreover have eqs: "hl_dag (st\<lparr>hl_conflict_map := m\<rparr>) = hl_dag st" "hl_conflict_map (st\<lparr>hl_conflict_map := m\<rparr>) = m" by simp_all
  ultimately show ?thesis
    unfolding hail_inv_def eqs by (intro conjI allI impI i(1,2) keys) blast+
qed

lemma hail_update_preferences_keeps:
  assumes "hail_inv st" "set vxs \<subseteq> vertices (hl_dag st)" "hail_update_preferences st vxs = (r, st')"
  shows "hail_inv st' \<and> (\<exists>m. st' = st\<lparr>hl_conflict_map := m\<rparr>)"
  using assms
proof (induction vxs arbitrary: st)
  case Nil
  then show ?case by (auto intro!: exI[of _ "hl_conflict_map st"])
next
  case (Cons v vxs)
  have self: "\<exists>m. st = st\<lparr>hl_conflict_map := m\<rparr>" by (rule exI[of _ "hl_conflict_map st"]) simp
  show ?case
  proof (cases "result_bind (cmap_get_preferred (hl_conflict_map st) (vx_height v)) (\<lambda>p.
             result_bind (map_err HailGraph (conviction (hl_dag st) v)) (\<lambda>d1.
             result_bind (map_err HailGraph (conviction (hl_dag st) \<lparr>vx_height = vx_height v, vx_block_hash = p\<rparr>))
               (\<lambda>d2. Ok (d1, d2))))")
    case (Ok d)
    obtain r1 m where u: "cmap_update_conflict_set (hl_conflict_map st) (vx_height v) (vx_block_hash v) (fst d) (snd d) = (r1, m)"
      by fastforce
    have inv: "hail_inv (st\<lparr>hl_conflict_map := m\<rparr>)" using hail_inv_vote[OF Cons.prems(1) _ u] Cons.prems(2) by simp
    show ?thesis
    proof (cases r1)
      case k: (Ok x)
      then have "hail_update_preferences (st\<lparr>hl_conflict_map := m\<rparr>) vxs = (r, st')"
        using Cons.prems(3) Ok u by (cases d) simp
      from Cons.IH[OF inv _ this] Cons.prems(2) show ?thesis by auto
    qed (use Cons.prems Ok u inv in \<open>cases d, auto\<close>)+
  qed (use Cons.prems(1,3) self in auto)
qed

lemma hail_query_succeeded_keeps:
  assumes inv: "hail_inv st" and b: "hb_vertex E b \<in> vertices (hl_dag st)" and q: "hail_query_succeeded E b st = (r, st')"
  shows "hail_inv st'"
proof -
  let ?vx = "hb_vertex E b"
  note i = hail_invD[OF inv]
  obtain r1 d where c: "set_chit (hl_dag st) ?vx 1 = (r1, d)" by fastforce
  have d: "d = hl_dag st \<or> d = (hl_dag st)\<lparr>dag_chits := hm_insert ?vx 1 (dag_chits (hl_dag st))\<rparr>"
    using c by (auto simp: set_chit_def split: option.splits if_splits)
  let ?st1 = "st\<lparr>hl_dag := d\<rparr>"
  have wf: "dag_wf d" using d i(1) dag_wf_chits[OF i(1), of 1 ?vx] by auto
  have g: "dag_g d = dag_g (hl_dag st)" using d by auto
  have k: "hm_keys (dag_chits d) = vertices d" using d b i(2) by (elim disjE) (simp_all add: insert_absorb)
  have eqs: "hl_dag ?st1 = d" "hl_conflict_map ?st1 = hl_conflict_map st" by simp_all
  have inv1: "hail_inv ?st1" unfolding hail_inv_def eqs g by (intro conjI allI impI wf k[unfolded g] i(3-6)) assumption+
  obtain r2 st2 where u: "hail_update_ancestral_preference ?st1 ?vx = (r2, st2)" by fastforce
  have bv: "?vx \<in> vertices d" using b g by simp
  have "set (dfs d ?vx) \<subseteq> vertices d"
    unfolding dfs_spec(2)[OF wf bv] using ancestors_in_graph[OF wf bv] by blast
  with hail_update_preferences_keeps[OF inv1 _ u[unfolded hail_update_ancestral_preference_def]]
  have inv2: "hail_inv st2" by simp
  have cong: "hail_inv s \<Longrightarrow> hl_dag s' = hl_dag s \<Longrightarrow> hl_conflict_map s' = hl_conflict_map s \<Longrightarrow> hail_inv s'" for s s' :: "'a hail"
    using hail_inv_cong[of s' s] by simp
  have "st' = ?st1 \<or> st' = st2 \<or> (hl_dag st' = hl_dag st2 \<and> hl_conflict_map st' = hl_conflict_map st2)"
    using q c u
    by (cases r1; cases r2)
      (auto simp: hail_query_succeeded_def on_hail_dag_def on_committee_def Let_def st_bind_def next_accepted_vertex_def
        split: prod.splits result.splits option.splits)
  then show ?thesis using inv1 inv2 cong by blast
qed

section \<open>Parents\<close>

lemma candidates_in_eq:
  assumes inv: "hail_inv st"
  shows "set vxs \<subseteq> vertices (hl_dag st) \<Longrightarrow>
    candidates_in st h vxs = Ok (filter (\<lambda>v. strongly_preferred_block st v \<and> vx_height v = h - 1) vxs)"
  by (induction vxs) (simp_all add: hail_is_strongly_preferred_eq[OF inv])

lemma parent_candidates_eq:
  assumes inv: "hail_inv st"
  shows "set ls \<subseteq> vertices (hl_dag st) \<Longrightarrow> \<exists>vxs. parent_candidates st h ls = Ok vxs \<and>
    set vxs = {v \<in> (\<Union>l \<in> set ls. reach (hl_dag st) l). strongly_preferred_block st v \<and> vx_height v = h - 1}"
proof (induction ls)
  case (Cons l ls)
  note wf = hail_invD(1)[OF inv]
  have l: "l \<in> vertices (hl_dag st)" and ls: "set ls \<subseteq> vertices (hl_dag st)" using Cons.prems by auto
  have d: "set (dfs (hl_dag st) l) = reach (hl_dag st) l" using dfs_spec(2)[OF wf l] by (simp add: reach_def)
  then have "set (dfs (hl_dag st) l) \<subseteq> vertices (hl_dag st)" using ancestors_in_graph[OF wf l] unfolding reach_def by blast
  note c = candidates_in_eq[OF inv this, of h]
  from Cons.IH[OF ls] obtain vxs where
    "parent_candidates st h ls = Ok vxs"
    "set vxs = {v \<in> (\<Union>l \<in> set ls. reach (hl_dag st) l). strongly_preferred_block st v \<and> vx_height v = h - 1}" by blast
  with c d show ?case by auto
qed simp

text \<open>At most one block of a height is preferred, so there is at most one candidate for a parent.\<close>

lemma preferred_unique: "prefers_block st v \<Longrightarrow> prefers_block st w \<Longrightarrow> vx_height v = vx_height w \<Longrightarrow> v = w"
  by (cases v; cases w) (auto simp: prefers_block_def)

lemma strongly_preferred_prefers: "strongly_preferred_block st v \<Longrightarrow> prefers_block st v"
  by (simp add: strongly_preferred_block_def)

lemma lowest_vertex_in: "lowest_vertex v vs \<in> set (v # vs)"
proof (induction vs arbitrary: v)
  case (Cons a vs)
  show ?case using Cons[of a] Cons[of v] by auto
qed simp

lemma select_parent_spec:
  assumes inv: "hail_inv st" and ne: "vertices (hl_dag st) \<noteq> {}"
  shows "if \<exists>v \<in> vertices (hl_dag st). strongly_preferred_block st v \<and> vx_height v = h - 1
    then \<exists>v \<in> vertices (hl_dag st). strongly_preferred_block st v \<and> vx_height v = h - 1 \<and> select_parent st h = Ok v
    else select_parent st h = Panic"
proof -
  note wf = hail_invD(1)[OF inv]
  have sub: "set (leaves (hl_dag st)) \<subseteq> vertices (hl_dag st)" using set_leaves[OF wf] by blast
  have all: "(\<Union>l \<in> set (leaves (hl_dag st)). reach (hl_dag st) l) = vertices (hl_dag st)"
  proof
    show "(\<Union>l \<in> set (leaves (hl_dag st)). reach (hl_dag st) l) \<subseteq> vertices (hl_dag st)"
      using sub ancestors_in_graph[OF wf] unfolding reach_def by blast
    show "vertices (hl_dag st) \<subseteq> (\<Union>l \<in> set (leaves (hl_dag st)). reach (hl_dag st) l)"
      using below_some_leaf[OF wf] unfolding reach_def by blast
  qed
  from parent_candidates_eq[OF inv sub, of h] obtain vxs where
    p: "parent_candidates st h (leaves (hl_dag st)) = Ok vxs"
      "set vxs = {v \<in> vertices (hl_dag st). strongly_preferred_block st v \<and> vx_height v = h - 1}"
    unfolding all by blast
  have g: "dag_g (hl_dag st) \<noteq> []" using ne by auto
  show ?thesis
  proof (cases vxs)
    case Nil
    with p have "\<not> (\<exists>v \<in> vertices (hl_dag st). strongly_preferred_block st v \<and> vx_height v = h - 1)" by auto
    with p(1) g Nil show ?thesis by (simp add: select_parent_def)
  next
    case (Cons v vs)
    have "lowest_vertex v vs \<in> set vxs" using lowest_vertex_in[of v vs] Cons by simp
    moreover have "select_parent st h = Ok (lowest_vertex v vs)" using p(1) g Cons by (simp add: select_parent_def)
    ultimately have l: "lowest_vertex v vs \<in> vertices (hl_dag st)" "strongly_preferred_block st (lowest_vertex v vs)"
      "vx_height (lowest_vertex v vs) = h - 1" "select_parent st h = Ok (lowest_vertex v vs)" unfolding p(2) by simp_all
    then have c: "\<exists>v \<in> vertices (hl_dag st). strongly_preferred_block st v \<and> vx_height v = h - 1" by blast
    show ?thesis unfolding if_P[OF c] using l by blast
  qed
qed

section \<open>Runs\<close>

inductive hail_step :: "('db, 'v, 'a) node_externs_scheme \<Rightarrow> 'db hail \<Rightarrow> 'db hail \<Rightarrow> bool"
  for E :: "('db, 'v, 'a) node_externs_scheme" where
  live_committee: "hail_step E st st'"
    if "admissible_block E st (lc_last_accepted_block msg)" and "hail_live_committee E msg st = (Ok (), st')"
| query_block: "hail_step E st st'"
    if "admissible_block E st (qb_block q)" and "handle_query_block E q st = (Ok reply, st', effs)"
| query_complete: "hail_step E st st'"
    if "hb_vertex E b \<in> vertices (hl_dag st)" and "hail_query_complete E b acks st = (Ok (), st', effs)"
| generate: "hail_step E st st'"
    if "generate_block E b st = (Ok reply, st', effs)"
| accepted_cells: "hail_step E st st'"
    if "accepted_cells cells st = (Ok (), st', effs)"

lemma hail_inv_same: "hail_inv st \<Longrightarrow> hl_dag st' = hl_dag st \<Longrightarrow> hl_conflict_map st' = hl_conflict_map st \<Longrightarrow> hail_inv st'"
  using hail_inv_cong[of st' st] by simp

lemma hail_live_committee_keeps:
  assumes inv: "hail_inv st" and b: "admissible_block E st (lc_last_accepted_block msg)"
    and r: "hail_live_committee E msg st = (Ok (), st')"
  shows "hail_inv st'"
proof -
  obtain r1 cm where c: "committee_next E (hl_committee st) (lc_self_staking_capacity msg)
                              (lc_vrf_out msg) (lc_validators msg) = (r1, cm)" by fastforce
  let ?st1 = "st\<lparr>hl_committee := cm, hl_last_accepted_hash := Some (lc_last_accepted_hash msg), hl_height := lc_height msg\<rparr>"
  have inv1: "hail_inv ?st1" by (rule hail_inv_same[OF inv]) simp_all
  have b1: "admissible_block E ?st1 (lc_last_accepted_block msg)" using b by (cases "hb_parent (lc_last_accepted_block msg)") (simp_all add: admissible_block_def)
  obtain r2 st2 where i: "hail_insert E ?st1 (lc_last_accepted_block msg) = (r2, st2)" by fastforce
  have "st' = st2" using r c i by (cases r1) (auto simp: hail_live_committee_def on_committee_def)
  with hail_insert_keeps[OF inv1 b1 i] show ?thesis by simp
qed

lemma hail_query_complete_keeps:
  assumes inv: "hail_inv st" and b: "hb_vertex E b \<in> vertices (hl_dag st)" and q: "hail_query_complete E b acks st = (r, st', effs)"
  shows "hail_inv st'"
proof -
  let ?q = "if f64_ge (sum_outcomes (f64_round E) (block_outcomes (cm_committee (hl_committee st)) acks)) HAIL_ALPHA
     then hail_query_succeeded E b st else (Ok None, st)"
  obtain r1 st1 where q1: "?q = (r1, st1)" by fastforce
  have i1: "hail_inv st1" using q1 inv hail_query_succeeded_keeps[OF inv b] by (auto split: if_splits)
  obtain r2 db where d: "insert_hail_block E (hl_queried_blocks st1) b = (r2, db)" by fastforce
  have "st' = st1 \<or> st' = st1\<lparr>hl_queried_blocks := db\<rparr>"
    using q q1 d by (cases r1; cases r2) (auto simp: hail_query_complete_def Let_def split: option.splits)
  then show ?thesis using i1 hail_inv_same[OF i1, of st'] by (elim disjE) simp_all
qed

lemma generate_block_keeps:
  assumes inv: "hail_inv st" and g: "generate_block E b st = (Ok reply, st', effs)"
  shows "hail_inv st'"
proof -
  obtain p where p: "select_parent st (ab_height b) = Ok p" using g by (auto simp: generate_block_def split: result.splits)
  have "vertices (hl_dag st) \<noteq> {}" using p by (auto simp: select_parent_def)
  from select_parent_spec[OF inv this, of "ab_height b"] p have "p \<in> vertices (hl_dag st)" by (auto split: if_splits)
  then have a: "admissible_block E st (hail_block_new (Some p) b)" by (simp add: admissible_block_def hail_block_new_def)
  obtain r st1 where r: "on_receive_block E st (hail_block_new (Some p) b) = (r, st1)" by fastforce
  have "st' = st1" using g p r by (auto simp: generate_block_def Let_def split: result.splits bool.splits)
  with on_receive_block_keeps[OF inv a r] show ?thesis by simp
qed

lemma handle_query_block_keeps:
  assumes inv: "hail_inv st" and a: "admissible_block E st (qb_block q)" and r: "handle_query_block E q st = (Ok reply, st', effs)"
  shows "hail_inv st'"
proof -
  obtain r1 st1 where r1: "on_receive_block E st (qb_block q) = (r1, st1)" by fastforce
  have "st' = st1" using r r1 by (auto simp: handle_query_block_def Let_def split: result.splits)
  with on_receive_block_keeps[OF inv a r1] show ?thesis by simp
qed

lemma hail_step_inv:
  assumes "hail_step E st st'" "hail_inv st"
  shows "hail_inv st'"
  using assms(1)
proof cases
  case (live_committee msg)
  then show ?thesis by (rule hail_live_committee_keeps[OF assms(2)])
next
  case (query_block q reply effs)
  then show ?thesis by (rule handle_query_block_keeps[OF assms(2)])
next
  case (query_complete b acks effs)
  then show ?thesis by (rule hail_query_complete_keeps[OF assms(2)])
next
  case (generate b reply effs)
  then show ?thesis by (rule generate_block_keeps[OF assms(2)])
next
  case (accepted_cells cells effs)
  then have "hl_dag st' = hl_dag st" "hl_conflict_map st' = hl_conflict_map st"
    by (auto simp: accepted_cells_def split: option.splits if_splits)
  then show ?thesis by (rule hail_inv_same[OF assms(2)])
qed

end
