(* ===== verification/Hail_Theorems.thy ===== *)
theory Hail_Theorems
  imports Hail_Safety
begin

text \<open>
  The properties of the block consensus, and a small run on which they are instantiated: a genesis
  block and two blocks of height one that build on it.
\<close>

section \<open>A run\<close>

definition block_externs :: "(example_db, encoded) node_externs" where
  "block_externs = example_node_externs\<lparr>bincode_alpha_block := \<lambda>b. [ucast (ab_height b), ucast (ab_vrf_out b)]\<rparr>"

definition block_of :: "u64 \<Rightarrow> hash32 \<Rightarrow> alpha_block" where
  "block_of h v = \<lparr>ab_predecessor = None, ab_height = h, ab_vrf_out = v, ab_cells = []\<rparr>"


lemma block_of_hash: "alpha_block_hash block_externs (block_of h v) = 256 * ucast (ucast h :: u8) + ucast (ucast v :: u8)"
  by (simp add: alpha_block_hash_def block_externs_def block_of_def)

definition genesis_hail :: "example_db hail" where
  "genesis_hail = snd (hail_insert block_externs (hail_new block_externs 1) (hail_block_new None (block_of 0 5)))"

definition forked_hail :: "example_db hail" where
  "forked_hail = snd (hail_insert block_externs
     (snd (hail_insert block_externs genesis_hail (hail_block_new (Some \<lparr>vx_height = 0, vx_block_hash = 5\<rparr>) (block_of 1 7))))
     (hail_block_new (Some \<lparr>vx_height = 0, vx_block_hash = 5\<rparr>) (block_of 1 9)))"

lemmas hail_eval = hail_insert_def hail_block_new_def hb_vertex_def hb_height_def hb_hash_def block_of_hash on_hail_dag_def
  insert_vx_def set_chit_def cmap_insert_block_def block_conflict_set_new_def hail_new_def conflict_map_new_def dag_new_def
  Let_def has_vertices_def is_lowest_hash_def lowest_hash_def hs_insert_def

abbreviation vx :: "u64 \<Rightarrow> hash32 \<Rightarrow> vertex" where
  "vx h bh \<equiv> \<lparr>vx_height = h, vx_block_hash = bh\<rparr>"

lemma genesis_hail_eq: "genesis_hail = (hail_new block_externs 1)
    \<lparr>hl_conflict_map := [(0, \<lparr>bc_conflicts = [5], bc_pref = 5, bc_last = 5, bc_cnt = 0\<rparr>)],
     hl_dag := \<lparr>dag_g = [(vx 0 5, [])], dag_inv = [(vx 0 5, [])], dag_chits = [(vx 0 5, 0)]\<rparr>\<rparr>"
  by (simp add: genesis_hail_def hail_eval) (simp add: block_of_def)

lemma forked_hail_eq: "forked_hail = (hail_new block_externs 1)
    \<lparr>hl_conflict_map := [(0, \<lparr>bc_conflicts = [5], bc_pref = 5, bc_last = 5, bc_cnt = 0\<rparr>),
                         (1, \<lparr>bc_conflicts = [263, 265], bc_pref = 263, bc_last = 263, bc_cnt = 0\<rparr>)],
     hl_dag := \<lparr>dag_g = [(vx 0 5, []), (vx 1 263, [vx 0 5]), (vx 1 265, [vx 0 5])],
                dag_inv = [(vx 0 5, [vx 1 263, vx 1 265]), (vx 1 263, []), (vx 1 265, [])],
                dag_chits = [(vx 0 5, 0), (vx 1 263, 0), (vx 1 265, 0)]\<rparr>\<rparr>"
  unfolding forked_hail_def genesis_hail_eq
  by (simp add: hail_eval) (simp add: block_of_def)

lemma genesis_hail_inv: "hail_inv genesis_hail"
  unfolding genesis_hail_def
  by (rule conjunct1[OF hail_insert_keeps[OF hail_new_inv _ prod.collapse[symmetric]]])
    (simp add: admissible_block_def hail_block_new_def)

lemma forked_hail_inv: "hail_inv forked_hail"
proof -
  let ?b = "\<lambda>v. hail_block_new (Some (vx 0 5)) (block_of 1 v)"
  let ?st = "snd (hail_insert block_externs genesis_hail (?b 7))"
  have g: "vx 0 5 \<in> vertices (hl_dag genesis_hail)" by (simp add: genesis_hail_eq)
  then have "admissible_block block_externs genesis_hail (?b 7)" by (simp add: admissible_block_def hail_block_new_def)
  note k = hail_insert_keeps[OF genesis_hail_inv this prod.collapse[symmetric]]
  have "vx 0 5 \<in> vertices (hl_dag ?st)" using k g by blast
  then have "admissible_block block_externs ?st (?b 9)" by (simp add: admissible_block_def hail_block_new_def)
  from hail_insert_keeps[OF conjunct1[OF k] this prod.collapse[symmetric]] show ?thesis unfolding forked_hail_def by blast
qed

section \<open>The invariant along every run\<close>

text \<open>
  The state of the block consensus is sound in every run. From the empty state, whatever sequence
  of committee changes, block queries, completed queries, generated blocks and accepted cells is
  handled, the DAG of blocks is well formed and the conflict set of every height holds exactly the hashes
  of the blocks of the DAG at that height, without repetition, and prefers one of them. The steps
  assume that a received block has no parent or a parent in the DAG, and that the queried block is in the DAG.
\<close>

theorem hail_run_inv:
  assumes "(hail_step E)\<^sup>*\<^sup>* (hail_new E nid) st"
  shows "dag_wf (hl_dag st) \<and>
    hm_keys (hl_conflict_map st) = vx_height ` vertices (hl_dag st) \<and>
    (\<forall>h cs. hm_get (hl_conflict_map st) h = Some cs \<longrightarrow>
       distinct (bc_conflicts cs) \<and> bc_pref cs \<in> set (bc_conflicts cs) \<and>
       set (bc_conflicts cs) = {bh. \<lparr>vx_height = h, vx_block_hash = bh\<rparr> \<in> vertices (hl_dag st)})"
proof -
  have "hail_inv st" using assms
    by (induction rule: rtranclp_induct) (auto intro: hail_new_inv hail_step_inv)
  from hail_invD(1,3)[OF this] hail_invD(4-6)[OF this] show ?thesis by (intro conjI allI impI)
qed

definition queried_hail :: "example_db hail" where
  "queried_hail = fst (snd (handle_query_block block_externs
     \<lparr>qb_id = 2, qb_block = hail_block_new None (block_of 0 5)\<rparr> (hail_new block_externs 1)))"

lemmas query_eval = handle_query_block_def on_receive_block_def is_known_hail_block_def of_sled_def
  hail_is_strongly_preferred_def is_preferred_vertex_def cmap_is_preferred_def bc_is_preferred_def dfs_def dfs_run.simps
  dfs_next.simps insert_hail_block_def

lemma query_step: "hail_step block_externs (hail_new block_externs 1) queried_hail"
  by (rule hail_step.query_block[where q = "\<lparr>qb_id = 2, qb_block = hail_block_new None (block_of 0 5)\<rparr>"
        and reply = "\<lparr>qba_id = 1, qba_block_hash = 5, qba_outcome = True\<rparr>"
        and effs = "[NotifyFreshBlock (hail_block_new None (block_of 0 5))]"])
    (simp add: admissible_block_def hail_block_new_def,
      simp add: queried_hail_def query_eval hail_eval, simp add: query_eval hail_eval block_of_def block_externs_def)

theorem hail_run_inv_witness:
  "hm_keys (hl_conflict_map queried_hail) = vx_height ` vertices (hl_dag queried_hail)"
  using hail_run_inv[OF r_into_rtranclp[where r = "hail_step block_externs", OF query_step]] by blast

section \<open>Votes and parents\<close>



text \<open>
  C16: The parent of a new block is determined. In a sound state with a non-empty DAG, the selection for a
  height returns the only strongly preferred block of the height below; it panics exactly when there is
  none, and on an empty DAG it is the error \<open>EmptyDAG\<close>.
\<close>

theorem select_parent_unique:
  assumes inv: "hail_inv st"
  shows "select_parent st h = Err EmptyDAG \<and> vertices (hl_dag st) = {} \<or>
    select_parent st h = Panic \<and> vertices (hl_dag st) \<noteq> {} \<and>
      {v \<in> vertices (hl_dag st). strongly_preferred_block st v \<and> vx_height v = h - 1} = {} \<or>
    (\<exists>p. select_parent st h = Ok p \<and> {v \<in> vertices (hl_dag st). strongly_preferred_block st v \<and> vx_height v = h - 1} = {p})"
proof (cases "vertices (hl_dag st) = {}")
  case True
  then show ?thesis by (simp add: select_parent_def)
next
  case ne: False
  note sp = select_parent_spec[OF inv ne, of h]
  show ?thesis
  proof (cases "\<exists>v \<in> vertices (hl_dag st). strongly_preferred_block st v \<and> vx_height v = h - 1")
    case True
    from sp[unfolded if_P[OF True]] obtain p where
      p: "p \<in> vertices (hl_dag st)" "strongly_preferred_block st p" "vx_height p = h - 1" "select_parent st h = Ok p" by blast
    have "v = p" if "strongly_preferred_block st v" "vx_height v = h - 1" for v
      using preferred_unique[of st v p] strongly_preferred_prefers that p(2,3) by metis
    with p show ?thesis by blast
  next
    case False
    with sp ne show ?thesis by auto
  qed
qed

theorem select_parent_unique_witness: "select_parent forked_hail 2 = Ok (vx 1 263)"
proof -
  have e: "edge_rel (hl_dag forked_hail) = {(vx 1 263, vx 0 5), (vx 1 265, vx 0 5)}"
    by (auto simp: forked_hail_eq edge_rel_def parents_def split: if_splits)
  have "(vx 1 263, u) \<in> (edge_rel (hl_dag forked_hail))\<^sup>* \<Longrightarrow> u = vx 1 263 \<or> u = vx 0 5" for u
    unfolding e by (induction rule: rtrancl_induct) auto
  then have "strongly_preferred_block forked_hail (vx 1 263)"
    by (fastforce simp: strongly_preferred_block_def prefers_block_def forked_hail_eq)
  moreover have "vx 1 263 \<in> vertices (hl_dag forked_hail)" by (simp add: forked_hail_eq)
  ultimately have "vx 1 263 \<in> {v \<in> vertices (hl_dag forked_hail). strongly_preferred_block forked_hail v \<and> vx_height v = 2 - 1}"
    by simp
  then show ?thesis
    using select_parent_unique[OF forked_hail_inv, of 2] by (metis (no_types, lifting) empty_iff mem_Collect_eq singletonD)
qed

section \<open>Finality\<close>

lemma is_accepted_block_prefers:
  assumes "is_accepted_block st v = Ok True"
  shows "prefers_block st v"
proof -
  obtain cs where "hm_get (hl_conflict_map st) (vx_height v) = Some cs"
    using assms by (auto simp: is_accepted_block_def cmap_is_singleton_def split: option.splits)
  then show ?thesis
    using assms by (auto simp: is_accepted_block_def cmap_is_singleton_def cmap_get_confidence_def prefers_block_def
        HAIL_BETA1_def HAIL_BETA2_def split: if_splits)
qed

text \<open>
  C14: Two blocks of the same height are never accepted at once. Whatever the state, if the parents of
  a block and the block itself have enough confidence, then no other block of that height has.
\<close>

theorem one_accepted_block_per_height:
  assumes "hail_is_accepted st v = Ok True" and "vx_height w = vx_height v" and "w \<noteq> v"
  shows "hail_is_accepted st w \<noteq> Ok True"
proof
  have accepted: "prefers_block st u" if "hail_is_accepted st u = Ok True" for u
    using that is_accepted_block_prefers[of st u]
    by (cases "hm_get (dag_g (hl_dag st)) u"; cases "check_all (is_accepted_block st) (parents (hl_dag st) u)")
      (auto simp: hail_is_accepted_def parents_def split: if_splits)
  assume "hail_is_accepted st w = Ok True"
  from preferred_unique[OF accepted[OF this] accepted[OF assms(1)] assms(2)] assms(3) show False by contradiction
qed

definition decided_hail :: "example_db hail" where
  "decided_hail = forked_hail\<lparr>hl_conflict_map :=
     [(0, \<lparr>bc_conflicts = [5], bc_pref = 5, bc_last = 5, bc_cnt = 11\<rparr>),
      (1, \<lparr>bc_conflicts = [263, 265], bc_pref = 263, bc_last = 263, bc_cnt = 20\<rparr>)]\<rparr>"

theorem one_accepted_block_per_height_witness:
  "hail_is_accepted decided_hail (vx 1 263) = Ok True \<and> hail_is_accepted decided_hail (vx 1 265) \<noteq> Ok True"
proof -
  have "hail_is_accepted decided_hail (vx 1 263) = Ok True"
    by (simp add: decided_hail_def forked_hail_eq hail_is_accepted_def is_accepted_block_def cmap_is_singleton_def
        cmap_get_confidence_def bc_is_singleton_def HAIL_BETA1_def HAIL_BETA2_def)
  with one_accepted_block_per_height[OF this, of "vx 1 265"] show ?thesis by simp
qed

section \<open>Shortcomings\<close>





text \<open>
  A block whose parent is unknown is voted for. The insertion fails, which is not looked at, and the
  vertex has no ancestors in the DAG that could contradict.
\<close>

lemma unknown_parent_is_voted_for:
  assumes E: "storage_ok E" and inv: "hail_inv st"
    and new: "sled_map E (hl_known_blocks st) (bytes_of_hash (hb_hash E (qb_block q))) = None"
      "hb_vertex E (qb_block q) \<notin> vertices (hl_dag st)"
    and p: "hb_parent (qb_block q) = Some p" "p \<notin> vertices (hl_dag st)" "p \<noteq> hb_vertex E (qb_block q)"
  shows "\<exists>st'. handle_query_block E q st =
    (Ok \<lparr>qba_id = hl_node_id st, qba_block_hash = hb_hash E (qb_block q), qba_outcome = True\<rparr>, st', [])"
proof -
  let ?vx = "hb_vertex E (qb_block q)"
  obtain r d where d: "insert_vx (hl_dag st) ?vx [p] = (r, d)" by fastforce
  have r: "r = Err VacantEntry" using insert_vx_result[OF hail_invD(1)[OF inv], of ?vx "[p]"] d p(2,3) by simp
  have "hm_get (dag_inv (hl_dag st)) p = None"
    using p(2) hail_invD(1)[OF inv] dag_wfD(4) hm_get_None_iff[of "dag_inv (hl_dag st)" p] by blast
  then have g: "dag_g d = dag_g (hl_dag st)"
    using d p(3) by (auto simp: insert_vx_def Let_def split: option.splits)
  have k: "is_known_hail_block E (hl_known_blocks st) (hb_hash E (qb_block q)) = Ok False"
    using new(1) by (simp add: is_known_hail_block_def sled_okD(2)[OF E] of_sled_def)
  have "dfs d ?vx = []" using new(2) g by (intro dfs_missing) simp
  with d r k new(2) p(1) show ?thesis
    by (simp add: handle_query_block_def on_receive_block_def hail_insert_def on_hail_dag_def Let_def
        hail_is_strongly_preferred_def hb_vertex_def)
qed

text \<open>
  A long chain stops the node. The DAG of blocks is never pruned; when the votes below an ancestor
  of a block no longer fit a byte, the completed query of that block panics.
\<close>

lemma conviction_overflow_stops:
  assumes inv: "hail_inv st" and v: "v \<in> vertices (hl_dag st)"
    and chits: "256 \<le> (\<Sum>u \<in> {u. (u, v) \<in> (edge_rel (hl_dag st))\<^sup>*}. chit_of (hl_dag st) u)"
    and vxs: "set vxs \<subseteq> vertices (hl_dag st)" "v \<in> set vxs"
  shows "\<exists>r st'. hail_update_preferences st vxs = (r, st') \<and> r \<noteq> Ok ()"
  using assms
proof (induction vxs arbitrary: st)
  case (Cons w vxs)
  show ?case
  proof (cases "w = v")
    case True
    have "conviction (hl_dag st) v = Err ChitOverflow"
      using conviction_spec[OF hail_invD(1)[OF Cons.prems(1)] Cons.prems(2)] Cons.prems(3) by simp
    moreover from hail_invD(7)[OF Cons.prems(1,2)] obtain cs where "hm_get (hl_conflict_map st) (vx_height v) = Some cs" ..
    ultimately show ?thesis using True by (simp add: cmap_get_preferred_def)
  next
    case False
    obtain r st' where r: "hail_update_preferences st (w # vxs) = (r, st')" by fastforce
    have "r \<noteq> Ok ()"
    proof
      assume "r = Ok ()"
      then obtain m d1 d2 where
        m: "cmap_update_conflict_set (hl_conflict_map st) (vx_height w) (vx_block_hash w) d1 d2 = (Ok (), m)"
          "hail_update_preferences (st\<lparr>hl_conflict_map := m\<rparr>) vxs = (r, st')"
        using r by (auto split: result.splits prod.splits)
      have "w \<in> vertices (hl_dag st)" using Cons.prems(4) by simp
      from hail_inv_vote[OF Cons.prems(1) this m(1)] have "hail_inv (st\<lparr>hl_conflict_map := m\<rparr>)" .
      from Cons.IH[OF this] Cons.prems False m(2) \<open>r = Ok ()\<close> show False by auto
    qed
    with r show ?thesis by blast
  qed
qed simp

end
