(* ===== verification/Dependency_Graph.thy ===== *)
theory Dependency_Graph
  imports Cells
begin

text \<open>
  The order in which the cells of a block are applied:
  \<^verbatim>\<open>src/graph/dependency_graph.rs\<close>. A hash map keyed by sets of cell ids compares its keys
  with \<open>cell_ids_eq\<close>; \<open>ids_get\<close> and \<open>ids_insert\<close> are its operations.
\<close>

section \<open>Maps keyed by sets of cell ids\<close>

type_synonym 'v ids_map = "(cell_ids \<times> 'v) list"

fun ids_get :: "'v ids_map \<Rightarrow> cell_ids \<Rightarrow> 'v option" where
  "ids_get [] k = None"
| "ids_get ((k', v) # m) k = (if cell_ids_eq k' k then Some v else ids_get m k)"

text \<open>As in the standard library, an insertion over an equal key keeps the old key.\<close>

fun ids_insert :: "cell_ids \<Rightarrow> 'v \<Rightarrow> 'v ids_map \<Rightarrow> 'v ids_map" where
  "ids_insert k v [] = [(k, v)]"
| "ids_insert k v ((k', v') # m) =
     (if cell_ids_eq k' k then (k', v) # m else (k', v') # ids_insert k v m)"

lemma cell_ids_eq_refl [simp]: "cell_ids_eq k k"
  by (simp add: cell_ids_eq_def)

lemma cell_ids_eq_sym: "cell_ids_eq a b = cell_ids_eq b a"
  by (auto simp: cell_ids_eq_def)

lemma cell_ids_eq_trans: "cell_ids_eq a b \<Longrightarrow> cell_ids_eq b c \<Longrightarrow> cell_ids_eq a c"
  by (simp add: cell_ids_eq_def)

lemma cell_ids_eq_set: "cell_ids_eq a b \<Longrightarrow> set a = set b"
  unfolding cell_ids_eq_def by (metis set_sort)

lemma ids_get_insert:
  "ids_get (ids_insert k v m) k' = (if cell_ids_eq k k' then Some v else ids_get m k')"
proof (induction m)
  case (Cons e m)
  obtain a b where e: "e = (a, b)" by fastforce
  show ?case
  proof (cases "cell_ids_eq a k")
    case True
    then have "cell_ids_eq a k' = cell_ids_eq k k'" by (simp add: cell_ids_eq_def)
    with True e show ?thesis by simp
  next
    case False
    then have "cell_ids_eq k k' \<Longrightarrow> \<not> cell_ids_eq a k'" by (auto simp: cell_ids_eq_def)
    with False e Cons.IH show ?thesis by auto
  qed
qed simp

lemma ids_get_Some: "ids_get m k = Some v \<Longrightarrow> \<exists>k'. (k', v) \<in> set m \<and> cell_ids_eq k' k"
  by (induction m) (auto split: if_splits)

lemma ids_get_None: "ids_get m k = None \<longleftrightarrow> (\<forall>(k', v) \<in> set m. \<not> cell_ids_eq k' k)"
  by (induction m) (auto split: if_splits)

lemma ids_insert_new: "ids_get m k = None \<Longrightarrow> ids_insert k v m = m @ [(k, v)]"
  by (induction m) (auto split: if_splits)

section \<open>The dependency graph\<close>

record dependency_graph =
  dg_dh :: "cell_ids ids_map"
  dg_roots :: "cell_ids list"

definition has_inbound_edges :: "cell_ids ids_map \<Rightarrow> cell_ids \<Rightarrow> bool" where
  "has_inbound_edges dh produced = list_ex (\<lambda>(_, consumed). intersects_with produced consumed) dh"

definition dg_new :: dependency_graph where
  "dg_new = \<lparr>dg_dh = [], dg_roots = []\<rparr>"

definition dg_insert ::
  "'a externs_scheme \<Rightarrow> dependency_graph \<Rightarrow> cell \<Rightarrow> (graph_error, unit) result \<times> dependency_graph" where
  "dg_insert E dg c =
     (let produced = cell_ids_from_outputs E (cell_hash E c) (outputs c);
          consumed = cell_ids_from_inputs E (inputs c) in
      case ids_get (dg_dh dg) produced of
        Some _ \<Rightarrow> (Err DuplicateCell, dg)
      | None \<Rightarrow>
          (let dh = ids_insert produced consumed (dg_dh dg);
               roots = filter (\<lambda>r. \<not> intersects_with consumed r) (dg_roots dg);
               referenced = list_ex (\<lambda>(_, ids). intersects_with produced ids) dh in
           (Ok (), \<lparr>dg_dh = dh, dg_roots = (if referenced then roots else roots @ [produced])\<rparr>)))"

text \<open>
  One turn of the loop of \<^verbatim>\<open>topological\<close>: the edges of the popped root are removed, and
  the producers it depended on become roots once no edge points at them.
\<close>

definition freed_producers :: "cell_ids ids_map \<Rightarrow> cell_ids \<Rightarrow> cell_ids list" where
  "freed_producers graph removed =
     map fst (filter (\<lambda>(producer, _). intersects_with producer removed \<and>
                                      \<not> has_inbound_edges graph producer) graph)"

definition pending_edges :: "cell_ids ids_map \<Rightarrow> nat" where
  "pending_edges graph = length (filter (\<lambda>(_, consumed). consumed \<noteq> []) graph)"

lemma pending_edges_insert:
  "ids_get m k = Some v \<Longrightarrow>
     pending_edges (ids_insert k [] m) + (if v = [] then 0 else 1) = pending_edges m"
  by (induction m) (auto simp: pending_edges_def split: if_splits)

lemma freed_producers_Nil: "freed_producers graph [] = []"
  by (auto simp: freed_producers_def filter_empty_conv)

text \<open>The stack of roots has its top at the end of the list, as a \<^verbatim>\<open>Vec\<close> has.\<close>

function topological_loop ::
  "cell_ids list \<Rightarrow> cell_ids ids_map \<Rightarrow> cell_ids list \<Rightarrow> (graph_error, cell_ids list) result" where
  "topological_loop roots graph res =
     (if roots = [] then Ok res
      else
        (let root = last roots; roots' = butlast roots; res' = root # res in
         case ids_get graph root of
           None \<Rightarrow> Err UndefinedCell
         | Some removed \<Rightarrow>
             (let graph' = ids_insert root [] graph in
              topological_loop (roots' @ freed_producers graph' removed) graph' res')))"
  by pat_completeness auto
termination
proof (relation "measures [\<lambda>(roots, graph, res). pending_edges graph, \<lambda>(roots, graph, res). length roots]",
    goal_cases)
  case (2 roots graph res root roots' res' removed graph')
  then have "pending_edges graph' + (if removed = [] then 0 else 1) = pending_edges graph"
    using pending_edges_insert by blast
  then show ?case using 2 by (auto simp: freed_producers_Nil split: if_splits)
qed simp

declare topological_loop.simps [simp del]

definition topological :: "dependency_graph \<Rightarrow> (graph_error, cell_ids list) result" where
  "topological dg = topological_loop (dg_roots dg) (dg_dh dg) []"

definition topological_cells ::
  "'a externs_scheme \<Rightarrow> dependency_graph \<Rightarrow> cell list \<Rightarrow> (graph_error, cell list) result" where
  "topological_cells E dg cells =
     result_bind (topological dg) (\<lambda>order.
       Ok (concat (map (\<lambda>ids. filter (\<lambda>c.
         cell_ids_eq (cell_ids_from_outputs E (cell_hash E c) (outputs c)) ids) cells) order)))"

text \<open>The loop of \<^verbatim>\<open>State::apply\<close> that builds the graph from the cells of a block.\<close>

fun dg_insert_all ::
  "'a externs_scheme \<Rightarrow> dependency_graph \<Rightarrow> cell list \<Rightarrow> (graph_error, unit) result \<times> dependency_graph" where
  "dg_insert_all E dg [] = (Ok (), dg)"
| "dg_insert_all E dg (c # cs) =
     (case dg_insert E dg c of
        (Ok _, dg') \<Rightarrow> dg_insert_all E dg' cs
      | (r, dg') \<Rightarrow> (r, dg'))"

section \<open>The order is topological\<close>

text \<open>
  The keys of a dependency graph are the output ids of different cells. When they are pairwise
  disjoint and not empty, a map keyed by them behaves like an association list.
\<close>

definition disjoint_keys :: "'v ids_map \<Rightarrow> bool" where
  "disjoint_keys m \<longleftrightarrow> distinct (map fst m) \<and> (\<forall>p \<in> fst ` set m. p \<noteq> []) \<and>
     (\<forall>p \<in> fst ` set m. \<forall>q \<in> fst ` set m. p \<noteq> q \<longrightarrow> set p \<inter> set q = {})"

lemma disjoint_keys_eq:
  assumes "disjoint_keys m" "p \<in> fst ` set m" "q \<in> fst ` set m"
  shows "cell_ids_eq p q \<longleftrightarrow> p = q"
proof
  assume "cell_ids_eq p q"
  then have "set p = set q" by (rule cell_ids_eq_set)
  moreover have "p \<noteq> []" using assms(1,2) by (auto simp: disjoint_keys_def)
  then have "set p \<noteq> {}" by simp
  ultimately show "p = q" using assms unfolding disjoint_keys_def by (metis inf.idem)
qed simp

lemma disjoint_keys_Cons: "disjoint_keys (e # m) \<Longrightarrow> disjoint_keys m"
  by (auto simp: disjoint_keys_def)

lemma ids_get_map_of:
  "disjoint_keys m \<Longrightarrow> p \<in> fst ` set m \<Longrightarrow> ids_get m p = map_of m p"
proof (induction m)
  case (Cons e m)
  obtain a b where e: "e = (a, b)" by fastforce
  have "cell_ids_eq a p \<longleftrightarrow> a = p"
    using disjoint_keys_eq[OF Cons.prems(1), of a p] Cons.prems(2) e by auto
  moreover have "a \<noteq> p \<Longrightarrow> p \<in> fst ` set m" using Cons.prems(2) e by auto
  ultimately show ?case using Cons.IH disjoint_keys_Cons[OF Cons.prems(1)] e by auto
qed simp

lemma ids_insert_update:
  "disjoint_keys m \<Longrightarrow> p \<in> fst ` set m \<Longrightarrow> ids_insert p v m = AList.update p v m"
proof (induction m)
  case (Cons e m)
  obtain a b where e: "e = (a, b)" by fastforce
  have "cell_ids_eq a p \<longleftrightarrow> a = p"
    using disjoint_keys_eq[OF Cons.prems(1), of a p] Cons.prems(2) e by auto
  moreover have "a \<noteq> p \<Longrightarrow> p \<in> fst ` set m" using Cons.prems(2) e by auto
  ultimately show ?case using Cons.IH disjoint_keys_Cons[OF Cons.prems(1)] e by auto
qed simp

lemma disjoint_keys_cong: "map fst m = map fst m' \<Longrightarrow> disjoint_keys m \<Longrightarrow> disjoint_keys m'"
  unfolding disjoint_keys_def by (metis list.set_map)

lemma map_fst_update: "p \<in> fst ` set m \<Longrightarrow> map fst (AList.update p v m) = map fst m"
  by (induction m) auto

text \<open>A vertex depends on another when it consumes one of its ids.\<close>

definition depends :: "cell_ids ids_map \<Rightarrow> (cell_ids \<times> cell_ids) set" where
  "depends dh = {(q, p). p \<in> fst ` set dh \<and> (\<exists>consumed. (q, consumed) \<in> set dh \<and>
                          set consumed \<inter> set p \<noteq> {})}"

definition consumers_later :: "cell_ids ids_map \<Rightarrow> cell_ids list \<Rightarrow> bool" where
  "consumers_later dh order \<longleftrightarrow>
     (\<forall>xs p ys. order = xs @ p # ys \<longrightarrow> (\<forall>q. (q, p) \<in> depends dh \<longrightarrow> q \<in> set ys))"

definition topological_inv :: "cell_ids ids_map \<Rightarrow> cell_ids list \<Rightarrow> cell_ids ids_map \<Rightarrow> cell_ids list \<Rightarrow> bool" where
  "topological_inv dh roots graph res \<longleftrightarrow>
     map fst graph = map fst dh \<and>
     (\<forall>p \<in> fst ` set dh. map_of graph p = (if p \<in> set res then Some [] else map_of dh p)) \<and>
     distinct (res @ roots) \<and>
     set (res @ roots) = {p \<in> fst ` set dh. \<forall>q. (q, p) \<in> depends dh \<longrightarrow> q \<in> set res} \<and>
     consumers_later dh res"

lemma has_inbound_edges_iff:
  "has_inbound_edges dh p \<longleftrightarrow> (\<exists>(q, consumed) \<in> set dh. set p \<inter> set consumed \<noteq> {})"
  by (auto simp: has_inbound_edges_def list_ex_iff)

lemma consumers_later_Cons:
  assumes "consumers_later dh res" "\<And>q. (q, r) \<in> depends dh \<Longrightarrow> q \<in> set res"
  shows "consumers_later dh (r # res)"
  unfolding consumers_later_def
proof (intro allI impI)
  fix xs p ys q assume o: "r # res = xs @ p # ys" and d: "(q, p) \<in> depends dh"
  show "q \<in> set ys"
  proof (cases xs)
    case Nil
    then show ?thesis using o d assms(2) by simp
  next
    case (Cons a xs')
    then have "res = xs' @ p # ys" using o by simp
    then show ?thesis using assms(1) d unfolding consumers_later_def by blast
  qed
qed

lemma freed_producers_spec:
  assumes dk: "disjoint_keys dh" and g: "map fst graph = map fst dh"
    "\<forall>p \<in> fst ` set dh. map_of graph p = (if p \<in> done then Some [] else map_of dh p)"
    and r: "(r, removed) \<in> set dh"
  shows "distinct (freed_producers graph removed)"
    and "set (freed_producers graph removed) =
      {p \<in> fst ` set dh. (r, p) \<in> depends dh \<and> (\<forall>q. (q, p) \<in> depends dh \<longrightarrow> q \<in> done)}"
proof -
  have keys: "fst ` set graph = fst ` set dh" using g(1) by (metis list.set_map)
  have dist: "distinct (map fst graph)" "distinct (map fst dh)"
    using dk g(1) by (auto simp: disjoint_keys_def)
  show "distinct (freed_producers graph removed)"
    using dist(1) by (simp add: freed_producers_def distinct_map_filter)
  have entry: "(q, cq) \<in> set graph \<longleftrightarrow> (\<exists>c. (q, c) \<in> set dh \<and> cq = (if q \<in> done then [] else c))" for q cq
  proof (cases "q \<in> fst ` set dh")
    case True
    have "(q, cq) \<in> set graph \<longleftrightarrow> map_of graph q = Some cq" using dist(1) by simp
    also have "\<dots> \<longleftrightarrow> (if q \<in> done then Some [] else map_of dh q) = Some cq" by (simp only: bspec[OF g(2) True])
    also have "\<dots> \<longleftrightarrow> (\<exists>c. map_of dh q = Some c \<and> cq = (if q \<in> done then [] else c))"
      using hm_keys_get[OF True] by auto
    finally show ?thesis using dist(2) by simp
  next
    case False
    then have "(q, c) \<notin> set dh" "(q, c) \<notin> set graph" for c
      using keys by (metis fst_conv image_eqI)+
    then show ?thesis by simp
  qed
  have inb: "has_inbound_edges graph p \<longleftrightarrow> (\<exists>q. (q, p) \<in> depends dh \<and> q \<notin> done)"
    if "p \<in> fst ` set dh" for p
  proof
    assume "has_inbound_edges graph p"
    then obtain q cq where "(q, cq) \<in> set graph" "set p \<inter> set cq \<noteq> {}"
      unfolding has_inbound_edges_iff by blast
    then show "\<exists>q. (q, p) \<in> depends dh \<and> q \<notin> done"
      using that by (auto simp: entry depends_def split: if_splits)
  next
    assume "\<exists>q. (q, p) \<in> depends dh \<and> q \<notin> done"
    then obtain q c where "(q, c) \<in> set dh" "set c \<inter> set p \<noteq> {}" "q \<notin> done"
      by (auto simp: depends_def)
    then have "(q, c) \<in> set graph" "set p \<inter> set c \<noteq> {}" by (auto simp: entry)
    then show "has_inbound_edges graph p" unfolding has_inbound_edges_iff by blast
  qed
  have dep: "set p \<inter> set removed \<noteq> {} \<longleftrightarrow> (r, p) \<in> depends dh" if "p \<in> fst ` set dh" for p
  proof
    assume "set p \<inter> set removed \<noteq> {}"
    then show "(r, p) \<in> depends dh" using that r by (auto simp: depends_def)
  next
    assume "(r, p) \<in> depends dh"
    then obtain c where "(r, c) \<in> set dh" "set c \<inter> set p \<noteq> {}" by (auto simp: depends_def)
    moreover have "c = removed" using calculation(1) r dist(2) by (metis map_of_is_SomeI option.inject)
    ultimately show "set p \<inter> set removed \<noteq> {}" by blast
  qed
  have "set (freed_producers graph removed) =
      {p \<in> fst ` set graph. set p \<inter> set removed \<noteq> {} \<and> \<not> has_inbound_edges graph p}"
    by (force simp: freed_producers_def)
  also have "\<dots> = {p \<in> fst ` set dh. (r, p) \<in> depends dh \<and> (\<forall>q. (q, p) \<in> depends dh \<longrightarrow> q \<in> done)}"
    unfolding keys using inb dep by blast
  finally show "set (freed_producers graph removed) =
      {p \<in> fst ` set dh. (r, p) \<in> depends dh \<and> (\<forall>q. (q, p) \<in> depends dh \<longrightarrow> q \<in> done)}" .
qed

lemma topological_inv_step:
  assumes dk: "disjoint_keys dh" and inv: "topological_inv dh (R @ [r]) graph res"
  shows "\<exists>removed. ids_get graph r = Some removed \<and>
    topological_inv dh (R @ freed_producers (ids_insert r [] graph) removed)
      (ids_insert r [] graph) (r # res)"
proof -
  have keys: "map fst graph = map fst dh"
    and get: "\<And>p. p \<in> fst ` set dh \<Longrightarrow> map_of graph p = (if p \<in> set res then Some [] else map_of dh p)"
    and dist: "distinct (res @ R @ [r])"
    and ready: "set (res @ R @ [r]) = {p \<in> fst ` set dh. \<forall>q. (q, p) \<in> depends dh \<longrightarrow> q \<in> set res}"
    and later: "consumers_later dh res"
    using inv by (auto simp only: topological_inv_def)
  have r: "r \<in> fst ` set dh" "\<And>q. (q, r) \<in> depends dh \<Longrightarrow> q \<in> set res" and rres: "r \<notin> set res"
    using ready dist by auto
  have keys': "fst ` set graph = fst ` set dh" using keys by (metis list.set_map)
  have dkg: "disjoint_keys graph" using disjoint_keys_cong[OF keys[symmetric] dk] .
  from hm_keys_get[OF r(1)] obtain removed where rem: "map_of dh r = Some removed" ..
  have g: "ids_get graph r = Some removed"
    using ids_get_map_of[OF dkg, of r] keys' r(1) get rres rem by simp
  let ?G = "ids_insert r [] graph"
  have G: "?G = AList.update r [] graph" using ids_insert_update[OF dkg] keys' r(1) by simp
  have kG: "map fst ?G = map fst dh" unfolding G using map_fst_update keys' r(1) keys by metis
  have gG: "\<forall>p \<in> fst ` set dh. map_of ?G p = (if p \<in> set (r # res) then Some [] else map_of dh p)"
    unfolding G using get by simp
  have "(r, removed) \<in> set dh" using rem by (rule map_of_SomeD)
  note freed = freed_producers_spec[OF dk kG, OF gG this]
  have "set (freed_producers ?G removed) \<inter> set (res @ R @ [r]) = {}"
    unfolding freed(2) ready using rres by blast
  then have "distinct ((r # res) @ R @ freed_producers ?G removed)"
    using dist freed(1) by auto
  moreover have "set ((r # res) @ R @ freed_producers ?G removed) =
      {p \<in> fst ` set dh. \<forall>q. (q, p) \<in> depends dh \<longrightarrow> q \<in> set (r # res)}"
  proof -
    have "set ((r # res) @ R @ freed_producers ?G removed) =
        set (res @ R @ [r]) \<union> set (freed_producers ?G removed)" by auto
    also have "\<dots> = {p \<in> fst ` set dh. \<forall>q. (q, p) \<in> depends dh \<longrightarrow> q \<in> set (r # res)}"
      unfolding ready freed(2) by auto
    finally show ?thesis .
  qed
  moreover have "consumers_later dh (r # res)" using later r(2) by (rule consumers_later_Cons)
  ultimately have "topological_inv dh (R @ freed_producers ?G removed) ?G (r # res)"
    using kG gG unfolding topological_inv_def by blast
  with g show ?thesis by blast
qed

lemma topological_loop_total:
  assumes "disjoint_keys dh" "topological_inv dh roots graph res"
  shows "\<exists>order graph'. topological_loop roots graph res = Ok order \<and> topological_inv dh [] graph' order"
  using assms(2)
proof (induction roots graph res rule: topological_loop.induct)
  case (1 roots graph res)
  show ?case
  proof (cases roots rule: rev_cases)
    case Nil
    then show ?thesis using 1(2) by (auto simp: topological_loop.simps)
  next
    case (snoc R r)
    from topological_inv_step[OF assms(1) 1(2)[unfolded snoc]] obtain removed where
      "ids_get graph r = Some removed"
      "topological_inv dh (R @ freed_producers (ids_insert r [] graph) removed)
        (ids_insert r [] graph) (r # res)"
      by (elim exE conjE) (rule that)
    with 1(1)[OF _ refl refl refl _ refl, of removed] snoc show ?thesis
      by (subst topological_loop.simps) (simp add: Let_def)
  qed
qed

lemma topological_inv_complete:
  assumes inv: "topological_inv dh [] graph order" and acyc: "acyclic (depends dh)"
  shows "set order = fst ` set dh"
proof (rule ccontr)
  have out: "set order = {p \<in> fst ` set dh. \<forall>q. (q, p) \<in> depends dh \<longrightarrow> q \<in> set order}"
    using inv by (simp add: topological_inv_def)
  assume "set order \<noteq> fst ` set dh"
  then have ne: "fst ` set dh - set order \<noteq> {}" using out by blast
  have sub: "depends dh \<subseteq> fst ` set dh \<times> fst ` set dh" by (force simp: depends_def)
  then have "finite (depends dh)" by (rule finite_subset) simp
  then have "wf (depends dh)" using acyc by (rule finite_acyclic_wf)
  from wfE_min'[OF this ne] obtain z where z: "z \<in> fst ` set dh - set order"
    "\<And>y. (y, z) \<in> depends dh \<Longrightarrow> y \<notin> fst ` set dh - set order" by blast
  have "\<forall>q. (q, z) \<in> depends dh \<longrightarrow> q \<in> set order" using z(2) sub by blast
  then show False using z(1) out by blast
qed

section \<open>Ordering the cells of a block\<close>

definition dg_wf :: "dependency_graph \<Rightarrow> bool" where
  "dg_wf dg \<longleftrightarrow> disjoint_keys (dg_dh dg) \<and> distinct (dg_roots dg) \<and>
     set (dg_roots dg) = {p \<in> fst ` set (dg_dh dg). \<not> has_inbound_edges (dg_dh dg) p}"

definition produced_ids :: "'a externs_scheme \<Rightarrow> cell \<Rightarrow> cell_ids" where
  "produced_ids E c = cell_ids_from_outputs E (cell_hash E c) (outputs c)"

definition consumed_ids :: "'a externs_scheme \<Rightarrow> cell \<Rightarrow> cell_ids" where
  "consumed_ids E c = cell_ids_from_inputs E (inputs c)"

text \<open>The edges the cells of a block contribute to the dependency graph.\<close>

definition block_edges :: "'a externs_scheme \<Rightarrow> cell list \<Rightarrow> cell_ids ids_map" where
  "block_edges E cs = map (\<lambda>c. (produced_ids E c, consumed_ids E c)) cs"

lemma disjoint_keys_snoc:
  assumes "disjoint_keys m" "p \<noteq> []" "\<forall>q \<in> fst ` set m. set p \<inter> set q = {}"
  shows "disjoint_keys (m @ [(p, v)])" "ids_get m p = None"
proof -
  have new: "p \<notin> fst ` set m" using assms(2,3) by auto
  then show "disjoint_keys (m @ [(p, v)])" using assms by (auto simp: disjoint_keys_def)
  have "\<not> cell_ids_eq q p" if "(q, w) \<in> set m" for q w
  proof
    assume "cell_ids_eq q p"
    then have "set q = set p" by (rule cell_ids_eq_set)
    moreover have "set p \<inter> set q = {}" using assms(3) that by force
    ultimately show False using assms(2) by simp
  qed
  then show "ids_get m p = None" by (auto simp: ids_get_None)
qed

lemma has_inbound_edges_snoc:
  "has_inbound_edges (m @ [(p, consumed)]) q \<longleftrightarrow>
     has_inbound_edges m q \<or> set q \<inter> set consumed \<noteq> {}"
  by (simp add: has_inbound_edges_def)

lemma dg_wf_insert:
  assumes wf: "dg_wf dg" and p: "produced_ids E c \<noteq> []"
    "\<forall>q \<in> fst ` set (dg_dh dg). set (produced_ids E c) \<inter> set q = {}"
  shows "\<exists>dg'. dg_insert E dg c = (Ok (), dg') \<and> dg_wf dg' \<and>
    dg_dh dg' = dg_dh dg @ [(produced_ids E c, consumed_ids E c)]"
proof -
  let ?p = "produced_ids E c" and ?c = "consumed_ids E c"
  let ?dh = "dg_dh dg @ [(?p, ?c)]"
  have dk: "disjoint_keys (dg_dh dg)" and dr: "distinct (dg_roots dg)"
    and sr: "set (dg_roots dg) = {p \<in> fst ` set (dg_dh dg). \<not> has_inbound_edges (dg_dh dg) p}"
    using wf by (auto simp: dg_wf_def)
  note k = disjoint_keys_snoc[OF dk p]
  have new: "?p \<notin> fst ` set (dg_dh dg)" using p by auto
  let ?roots = "filter (\<lambda>r. \<not> intersects_with ?c r) (dg_roots dg)"
  let ?dg = "\<lparr>dg_dh = ?dh, dg_roots = (if has_inbound_edges ?dh ?p then ?roots else ?roots @ [?p])\<rparr>"
  have run: "dg_insert E dg c = (Ok (), ?dg)"
    using k(2) by (simp add: dg_insert_def Let_def ids_insert_new has_inbound_edges_def
        del: intersects_with_iff flip: produced_ids_def consumed_ids_def)
  have "set (dg_roots ?dg) = {q \<in> fst ` set ?dh. \<not> has_inbound_edges ?dh q}"
    using sr by (auto simp: has_inbound_edges_snoc)
  moreover have "distinct (dg_roots ?dg)" using dr sr new by auto
  ultimately have "dg_wf ?dg" using k(1)[of ?c] by (simp add: dg_wf_def)
  with run show ?thesis by auto
qed

definition disjoint_outputs :: "'a externs_scheme \<Rightarrow> cell list \<Rightarrow> bool" where
  "disjoint_outputs E cs \<longleftrightarrow> distinct cs \<and> (\<forall>c \<in> set cs. outputs c \<noteq> []) \<and>
     (\<forall>c \<in> set cs. \<forall>d \<in> set cs. c \<noteq> d \<longrightarrow> set (produced_ids E c) \<inter> set (produced_ids E d) = {})"

lemma produced_ids_empty [simp]: "produced_ids E c = [] \<longleftrightarrow> outputs c = []"
proof -
  have "produced_ids E c = [] \<longleftrightarrow> set (produced_ids E c) = {}" by simp
  also have "\<dots> \<longleftrightarrow> outputs c = []"
    by (auto simp: produced_ids_def set_cell_ids_from_outputs)
  finally show ?thesis .
qed

lemma dg_insert_all_spec:
  assumes "dg_wf dg" "disjoint_outputs E cs"
    and "\<forall>c \<in> set cs. \<forall>q \<in> fst ` set (dg_dh dg). set (produced_ids E c) \<inter> set q = {}"
  shows "\<exists>dg'. dg_insert_all E dg cs = (Ok (), dg') \<and> dg_wf dg' \<and>
    dg_dh dg' = dg_dh dg @ block_edges E cs"
  using assms
proof (induction cs arbitrary: dg)
  case (Cons c cs)
  have "produced_ids E c \<noteq> []" using Cons.prems(2) by (simp add: disjoint_outputs_def)
  with dg_wf_insert[OF Cons.prems(1), of E c] Cons.prems(3) obtain dg1 where d:
    "dg_insert E dg c = (Ok (), dg1)" "dg_wf dg1"
    "dg_dh dg1 = dg_dh dg @ [(produced_ids E c, consumed_ids E c)]"
    by auto
  have "disjoint_outputs E cs" using Cons.prems(2) by (simp add: disjoint_outputs_def)
  moreover have "\<forall>b \<in> set cs. \<forall>q \<in> fst ` set (dg_dh dg1). set (produced_ids E b) \<inter> set q = {}"
    using Cons.prems(2,3) d(3) by (auto simp: disjoint_outputs_def)
  ultimately show ?case using Cons.IH[OF d(2)] d by (auto simp: block_edges_def)
qed (simp add: block_edges_def)

lemma topological_spec:
  assumes wf: "dg_wf dg" and acyc: "acyclic (depends (dg_dh dg))"
  shows "\<exists>order. topological dg = Ok order \<and> distinct order \<and> set order = fst ` set (dg_dh dg) \<and>
    consumers_later (dg_dh dg) order"
proof -
  have dk: "disjoint_keys (dg_dh dg)" using wf by (simp add: dg_wf_def)
  have "p \<in> fst ` set (dg_dh dg) \<Longrightarrow>
      \<not> has_inbound_edges (dg_dh dg) p \<longleftrightarrow> (\<forall>q. (q, p) \<notin> depends (dg_dh dg))" for p
    unfolding has_inbound_edges_iff depends_def by blast
  then have "topological_inv (dg_dh dg) (dg_roots dg) (dg_dh dg) []"
    using wf by (auto simp: topological_inv_def dg_wf_def consumers_later_def)
  from topological_loop_total[OF dk this] obtain order graph' where o:
    "topological dg = Ok order" "topological_inv (dg_dh dg) [] graph' order"
    unfolding topological_def by blast
  moreover have "distinct order" "consumers_later (dg_dh dg) order"
    using o(2) by (auto simp only: topological_inv_def append_Nil2)
  ultimately show ?thesis using topological_inv_complete[OF o(2) acyc] by blast
qed

text \<open>
  \<^verbatim>\<open>topological_cells\<close> looks every set of produced ids up among the cells of the block;
  where the outputs of distinct cells are disjoint it finds exactly one.
\<close>

lemma produced_ids_inj:
  assumes "disjoint_outputs E cs" "c \<in> set cs" "d \<in> set cs" "set (produced_ids E c) = set (produced_ids E d)"
  shows "c = d"
proof (rule ccontr)
  assume "c \<noteq> d"
  then have "set (produced_ids E c) \<inter> set (produced_ids E d) = {}"
    using assms(1,2,3) by (simp add: disjoint_outputs_def)
  then have "set (produced_ids E d) = {}" using assms(4) by simp
  then have "produced_ids E d = []" by simp
  then show False using assms(1,3) by (auto simp: disjoint_outputs_def)
qed

lemma filter_eq_single: "distinct xs \<Longrightarrow> x \<in> set xs \<Longrightarrow> filter (\<lambda>y. y = x) xs = [x]"
  by (induction xs) (auto simp: filter_empty_conv)

lemma lookup_produced:
  assumes d: "disjoint_outputs E cs" and c: "c \<in> set cs"
  shows "filter (\<lambda>b. cell_ids_eq (produced_ids E b) (produced_ids E c)) cs = [c]"
proof -
  have "filter (\<lambda>b. cell_ids_eq (produced_ids E b) (produced_ids E c)) cs = filter (\<lambda>b. b = c) cs"
    using produced_ids_inj[OF d _ c] cell_ids_eq_set by (intro filter_cong) auto
  moreover have "filter (\<lambda>b. b = c) cs = [c]"
    using d c by (intro filter_eq_single) (simp add: disjoint_outputs_def)
  ultimately show ?thesis by simp
qed

lemma lookup_all_produced:
  assumes "disjoint_outputs E cs" "set bs \<subseteq> set cs"
  shows "concat (map (\<lambda>ids. filter (\<lambda>b. cell_ids_eq (produced_ids E b) ids) cs) (map (produced_ids E) bs)) = bs"
  using assms(2) by (induction bs) (simp_all add: lookup_produced[OF assms(1)])

lemma consumers_later_block:
  assumes l: "consumers_later (block_edges E cs) (map (produced_ids E) bs)"
    and d: "distinct (map (produced_ids E) bs)" and bs: "set bs \<subseteq> set cs" and ij: "i < j" "j < length bs"
  shows "set (consumed_ids E (bs ! i)) \<inter> set (produced_ids E (bs ! j)) = {}"
proof (rule ccontr)
  let ?P = "map (produced_ids E) bs"
  assume "set (consumed_ids E (bs ! i)) \<inter> set (produced_ids E (bs ! j)) \<noteq> {}"
  moreover have "bs ! i \<in> set cs" "bs ! j \<in> set cs" using bs ij by auto
  ultimately have dep: "(?P ! i, ?P ! j) \<in> depends (block_edges E cs)"
    using ij by (auto simp: depends_def block_edges_def image_image)
  have "?P = take j ?P @ ?P ! j # drop (Suc j) ?P" using ij by (intro id_take_nth_drop) simp
  then have "?P ! i \<in> set (drop (Suc j) ?P)"
    using l dep unfolding consumers_later_def by blast
  moreover have "?P ! i \<in> set (take j ?P)" using ij by (auto simp: in_set_conv_nth intro: exI[of _ i])
  moreover have "set (take j ?P) \<inter> set (drop (Suc j) ?P) = {}"
    using d by (intro set_take_disj_set_drop_if_distinct) auto
  ultimately show False by blast
qed

lemma topological_cells_spec:
  assumes d: "disjoint_outputs E cs" and acyc: "acyclic (depends (block_edges E cs))"
  shows "\<exists>dg order. dg_insert_all E dg_new cs = (Ok (), dg) \<and> topological_cells E dg cs = Ok order \<and>
    mset order = mset cs \<and>
    (\<forall>j < length order. \<forall>i < j. set (consumed_ids E (order ! i)) \<inter> set (produced_ids E (order ! j)) = {})"
proof -
  have "dg_wf dg_new" by (simp add: dg_wf_def dg_new_def disjoint_keys_def)
  from dg_insert_all_spec[OF this d] obtain dg where dg:
    "dg_insert_all E dg_new cs = (Ok (), dg)" "dg_wf dg" "dg_dh dg = block_edges E cs"
    by (auto simp: dg_new_def)
  from topological_spec[OF dg(2)] acyc dg(3) obtain ids where ids:
    "topological dg = Ok ids" "distinct ids" "set ids = produced_ids E ` set cs"
    "consumers_later (block_edges E cs) ids"
    by (auto simp: block_edges_def image_image)
  then have "ids \<in> map (produced_ids E) ` lists (set cs)" by (auto simp: lists_image[symmetric])
  then obtain bs where bs: "ids = map (produced_ids E) bs" "set bs \<subseteq> set cs" by auto
  have "set cs \<subseteq> set bs"
  proof
    fix c assume c: "c \<in> set cs"
    then obtain b where "b \<in> set bs" "produced_ids E c = produced_ids E b" using ids(3) bs(1) by force
    then show "c \<in> set bs" using produced_ids_inj[OF d c] bs(2) by auto
  qed
  then have "mset bs = mset cs"
    using bs ids(2) d by (simp add: disjoint_outputs_def distinct_map set_eq_iff_mset_eq_distinct[symmetric])
  moreover have "topological_cells E dg cs = Ok bs"
    using lookup_all_produced[OF d bs(2)] ids(1) bs(1)
    by (simp add: topological_cells_def flip: produced_ids_def)
  moreover have "\<forall>j < length bs. \<forall>i < j. set (consumed_ids E (bs ! i)) \<inter> set (produced_ids E (bs ! j)) = {}"
    using consumers_later_block[of E cs bs] ids(2,4) bs by blast
  ultimately show ?thesis using dg(1) by blast
qed

text \<open>
  C32: The dependency graph orders the cells of a block. Where the cells are distinct, each has an
  output, no two share an output id and no cycle of spending runs through them, building the graph
  succeeds and \<^verbatim>\<open>topological_cells\<close> returns every cell of the block exactly once, in an order in
  which no cell consumes an output that a later one produces.
\<close>

theorem topological_cells_order:
  assumes d: "disjoint_outputs E cs" and acyc: "acyclic (depends (block_edges E cs))"
  shows "\<exists>dg order. dg_insert_all E dg_new cs = (Ok (), dg) \<and> topological_cells E dg cs = Ok order \<and>
    mset order = mset cs \<and>
    (\<forall>j < length order. \<forall>i < j. set (consumed_ids E (order ! i)) \<inter> set (produced_ids E (order ! j)) = {})"
  using assms by (rule topological_cells_spec)

lemma example_block_edges:
  "produced_ids example_externs (spend_cell [262] 9) = [2304]"
  "produced_ids example_externs (spend_cell [7] 6) = [1536]"
  "consumed_ids example_externs (spend_cell [262] 9) = [1536]"
  "consumed_ids example_externs (spend_cell [7] 6) = [1792]"
  by (simp_all add: produced_ids_def consumed_ids_def example_inputs hs_insert_def)

theorem topological_cells_order_witness:
  "\<exists>dg order. dg_insert_all example_externs dg_new [spend_cell [262] 9, spend_cell [7] 6] = (Ok (), dg) \<and>
     topological_cells example_externs dg [spend_cell [262] 9, spend_cell [7] 6] = Ok order \<and>
     mset order = {#spend_cell [262] 9, spend_cell [7] 6#}"
proof -
  let ?cs = "[spend_cell [262] 9, spend_cell [7] 6]"
  have o: "outputs (spend_cell hs cap) = [example_output cap 1]" for hs cap
    by (simp add: spend_cell_def cell_new_def)
  have ne: "spend_cell [262] 9 \<noteq> spend_cell [7] 6"
  proof
    assume "spend_cell [262] 9 = spend_cell [7] 6"
    then have "outputs (spend_cell [262] 9) = outputs (spend_cell [7] 6)" by simp
    then show False by (simp add: o example_output_def)
  qed
  then have "disjoint_outputs example_externs ?cs"
    by (auto simp: disjoint_outputs_def example_block_edges o)
  moreover have "depends (block_edges example_externs ?cs) = {([2304], [1536])}"
    by (auto simp: depends_def block_edges_def example_block_edges)
  then have "acyclic (depends (block_edges example_externs ?cs))"
    using acyclic_insert[of "[2304] :: cell_ids" "[1536]" "{}"] by (simp add: acyclic_def)
  ultimately show ?thesis
    using topological_cells_order[of example_externs ?cs] by (elim meta_impE) auto
qed

end
