(* ===== verification/Alpha_State.thy ===== *)
theory Alpha_State
  imports Alpha_Ops Dependency_Graph
begin

text \<open>
  The state of the \<^verbatim>\<open>alpha\<close> chain and the application of a block to it:
  \<^verbatim>\<open>src/alpha/state.rs\<close>. The loop over the cells of the block is \<open>apply_cells\<close>, its body
  \<open>apply_cell\<close>; the inner loops are the definitions before them.
\<close>

section \<open>The state\<close>

record state =
  height :: u64
  total_spending_capacity :: capacity_t
  total_staking_capacity :: capacity_t
  validators :: "(node_id \<times> capacity_t) list"
  live_cells :: "cell ids_map"

definition state_new :: state where
  "state_new = \<lparr>height = 0, total_spending_capacity = 0, total_staking_capacity = 0,
     validators = [], live_cells = []\<rparr>"

text \<open>The outputs of a live cell that a cell consumes, with their ids.\<close>

definition consumed_from_live ::
  "'a externs_scheme \<Rightarrow> cell_ids \<Rightarrow> cell_ids \<times> cell \<Rightarrow> (cell_id \<times> cell_output) list" where
  "consumed_from_live E input_ids entry =
     (let (live_ids, live_cell) = entry in
      if intersects_with input_ids live_ids then
        let intersection = cell_ids_intersect input_ids live_ids in
        filter (\<lambda>(cid, _). cid \<in> set intersection)
          (map (\<lambda>i. (cell_id_from_output E (cell_hash E live_cell) (of_nat i) (outputs live_cell ! i),
                     outputs live_cell ! i)) [0..<length (outputs live_cell)])
      else [])"

definition consumed_outputs ::
  "'a externs_scheme \<Rightarrow> cell_ids \<Rightarrow> cell ids_map \<Rightarrow> (cell_id \<times> cell_output) list" where
  "consumed_outputs E input_ids live = concat (map (consumed_from_live E input_ids) live)"

text \<open>
  The transition check calls \<^verbatim>\<open>verify\<close> once per consumed output, with the arguments collected
  so far.
\<close>

fun verify_consumed :: "cell_output \<Rightarrow> cell_output list \<Rightarrow> cell_output list \<Rightarrow> (alpha_error, unit) result" where
  "verify_consumed out args [] = Ok ()"
| "verify_consumed out args (c # cs) =
     (let args' = (if cell_type out = cell_type c then args @ [c] else args) in
      result_bind (map_err AlphaCell (output_verify out args')) (\<lambda>_. verify_consumed out args' cs))"

fun verify_outputs :: "cell_output list \<Rightarrow> cell_output list \<Rightarrow> (alpha_error, unit) result" where
  "verify_outputs consumed [] = Ok ()"
| "verify_outputs consumed (out # outs) =
     result_bind (verify_consumed out [] consumed) (\<lambda>_. verify_outputs consumed outs)"

fun remove_intersection_from ::
  "cell_ids \<Rightarrow> cell ids_map \<Rightarrow> cell ids_map \<Rightarrow> (alpha_error, cell ids_map) result" where
  "remove_intersection_from ids acc [] = Ok acc"
| "remove_intersection_from ids acc ((live_ids, live_cell) # live) =
     (let new_ids = (if intersects_with ids live_ids
                     then left_difference live_ids (cell_ids_intersect ids live_ids) else live_ids) in
      case ids_get acc new_ids of
        Some _ \<Rightarrow> Err ExistingCellIds
      | None \<Rightarrow> remove_intersection_from ids (ids_insert new_ids live_cell acc) live)"

definition remove_intersection :: "state \<Rightarrow> cell_ids \<Rightarrow> (alpha_error, cell ids_map) result" where
  "remove_intersection st ids = remove_intersection_from ids [] (live_cells st)"

text \<open>What the outputs of a cell add: new validators and the three capacities.\<close>

record output_totals =
  ot_validators :: "(node_id \<times> capacity_t) list"
  ot_coinbase :: capacity_t
  ot_staking :: capacity_t
  ot_produced :: capacity_t

fun apply_outputs ::
  "'a externs_scheme \<Rightarrow> u64 \<Rightarrow> output_totals \<Rightarrow> cell_output list \<Rightarrow> (alpha_error, output_totals) result" where
  "apply_outputs E h t [] = Ok t"
| "apply_outputs E h t (out # outs) =
     (case cell_type out of
        Coinbase \<Rightarrow>
          if h = 0 then apply_outputs E h (t\<lparr>ot_coinbase := ot_coinbase t + capacity out\<rparr>) outs
          else Err InvalidCoinbase
      | Stake \<Rightarrow>
          (case unbincode_stake_state E (data out) of
             Inl e \<Rightarrow> Err (AlphaBincode e)
           | Inr nid \<Rightarrow> apply_outputs E h
               (t\<lparr>ot_validators := ot_validators t @ [(nid, capacity out)],
                  ot_staking := ot_staking t + capacity out\<rparr>) outs)
      | Transfer \<Rightarrow> apply_outputs E h (t\<lparr>ot_produced := ot_produced t + capacity out\<rparr>) outs)"

text \<open>
  One cell. The map that \<^verbatim>\<open>remove_intersection\<close> returns is dropped, as the code drops it: only
  its error matters.
\<close>

definition apply_cell :: "'a externs_scheme \<Rightarrow> state \<Rightarrow> cell \<Rightarrow> (alpha_error, state) result" where
  "apply_cell E st c =
     (let input_ids = cell_ids_from_inputs E (inputs c);
          consumed = consumed_outputs E input_ids (live_cells st);
          consumed_ids = hs_extend [] (map fst consumed);
          consumed_capacity = outputs_sum (map snd consumed) in
      if \<not> cell_ids_eq consumed_ids input_ids then Err UndefinedCellIds
      else result_bind (verify_outputs (map snd consumed) (outputs c)) (\<lambda>_.
        result_bind (remove_intersection st consumed_ids) (\<lambda>_.
        result_bind (apply_outputs E (height st)
            \<lparr>ot_validators = validators st, ot_coinbase = 0, ot_staking = 0, ot_produced = 0\<rparr> (outputs c)) (\<lambda>t.
          let produced_ids = cell_ids_from_outputs E (cell_hash E c) (outputs c) in
          if ids_get (live_cells st) produced_ids \<noteq> None then Err ExistingCellIds
          else
            let st' = st\<lparr>validators := ot_validators t,
                         live_cells := ids_insert produced_ids c (live_cells st)\<rparr> in
            if consumed_capacity \<ge> ot_produced t + ot_staking t \<and> consumed_capacity > 0 \<and> ot_coinbase t = 0
            then Ok (st'\<lparr>total_spending_capacity :=
                           total_spending_capacity st - consumed_capacity + ot_produced t,
                         total_staking_capacity := total_staking_capacity st + ot_staking t\<rparr>)
            else if height st = 0 \<and> ot_coinbase t > 0 \<and> ot_produced t = 0 \<and> ot_staking t = 0
            then Ok (st'\<lparr>total_spending_capacity := total_spending_capacity st + ot_coinbase t\<rparr>)
            else Err ExceedsCapacity))))"

fun apply_cells :: "'a externs_scheme \<Rightarrow> state \<Rightarrow> cell list \<Rightarrow> (alpha_error, state) result" where
  "apply_cells E st [] = Ok st"
| "apply_cells E st (c # cs) = result_bind (apply_cell E st c) (\<lambda>st'. apply_cells E st' cs)"

definition state_apply :: "'a externs_scheme \<Rightarrow> state \<Rightarrow> alpha_block \<Rightarrow> (alpha_error, state) result" where
  "state_apply E st block =
     (case dg_insert_all E dg_new (ab_cells block) of
        (Ok _, dg) \<Rightarrow> result_bind (map_err AlphaGraph (topological_cells E dg (ab_cells block)))
                        (apply_cells E st)
      | (Err e, _) \<Rightarrow> Err (AlphaGraph e)
      | (Panic, _) \<Rightarrow> Panic)"

text \<open>\<^verbatim>\<open>Alpha::get_validator_set\<close>: the validators with a positive stake.\<close>

definition get_validator_set :: "state \<Rightarrow> node_id hashset" where
  "get_validator_set st = hs_extend [] (map fst (filter (\<lambda>(_, cap). cap > 0) (validators st)))"

section \<open>What one cell changes\<close>

text \<open>The validators that the outputs of a cell name, and the sums of its outputs by type.\<close>

definition stakes_of :: "'a externs_scheme \<Rightarrow> cell_output list \<Rightarrow> (node_id \<times> capacity_t) list" where
  "stakes_of E outs = map (\<lambda>out. (projr (unbincode_stake_state E (data out)), capacity out))
                          (filter (\<lambda>out. cell_type out = Stake) outs)"

definition typed_sum :: "cell_type \<Rightarrow> cell_output list \<Rightarrow> capacity_t" where
  "typed_sum ct outs = sum_list (map capacity (filter (\<lambda>out. cell_type out = ct) outs))"

lemma typed_sum_simps [simp]:
  "typed_sum ct [] = 0"
  "typed_sum ct (out # outs) = (if cell_type out = ct then capacity out else 0) + typed_sum ct outs"
  by (simp_all add: typed_sum_def)

lemma apply_outputs_Ok:
  assumes "apply_outputs E h t outs = Ok t'"
  shows "ot_validators t' = ot_validators t @ stakes_of E outs"
    "ot_coinbase t' = ot_coinbase t + typed_sum Coinbase outs"
    "ot_staking t' = ot_staking t + typed_sum Stake outs"
    "ot_produced t' = ot_produced t + typed_sum Transfer outs"
    "h = 0 \<or> (\<forall>out \<in> set outs. cell_type out \<noteq> Coinbase)"
  using assms
  by (induction outs arbitrary: t)
     (auto simp: stakes_of_def add.assoc split: cell_type.splits if_splits sum.splits)

text \<open>The effect of a cell that is applied.\<close>

definition consumed_capacity_of :: "'a externs_scheme \<Rightarrow> state \<Rightarrow> cell \<Rightarrow> capacity_t" where
  "consumed_capacity_of E st c =
     outputs_sum (map snd (consumed_outputs E (consumed_ids E c) (live_cells st)))"

definition accounted :: "'a externs_scheme \<Rightarrow> state \<Rightarrow> cell \<Rightarrow> state \<Rightarrow> bool" where
  "accounted E st c st' \<longleftrightarrow>
     (let consumed = consumed_capacity_of E st c; produced = typed_sum Transfer (outputs c);
          staked = typed_sum Stake (outputs c); minted = typed_sum Coinbase (outputs c) in
      consumed \<ge> produced + staked \<and> consumed > 0 \<and> minted = 0 \<and>
      total_spending_capacity st' = total_spending_capacity st - consumed + produced \<and>
      total_staking_capacity st' = total_staking_capacity st + staked
    \<or> height st = 0 \<and> minted > 0 \<and> produced = 0 \<and> staked = 0 \<and>
      total_spending_capacity st' = total_spending_capacity st + minted \<and>
      total_staking_capacity st' = total_staking_capacity st)"

lemma apply_cell_Ok:
  assumes "apply_cell E st c = Ok st'"
  shows "height st' = height st"
    "live_cells st' = live_cells st @ [(produced_ids E c, c)]"
    "validators st' = validators st @ stakes_of E (outputs c)"
    "height st = 0 \<or> \<not> has_coinbase_output c"
    "set (consumed_ids E c) \<subseteq> fst ` set (consumed_outputs E (consumed_ids E c) (live_cells st))"
    "accounted E st c st'"
proof -
  note d = assms[unfolded apply_cell_def Let_def, folded consumed_ids_def produced_ids_def]
  from d obtain t where t: "apply_outputs E (height st)
      \<lparr>ot_validators = validators st, ot_coinbase = 0, ot_staking = 0, ot_produced = 0\<rparr> (outputs c) = Ok t"
    and eq: "cell_ids_eq (hs_extend [] (map fst (consumed_outputs E (consumed_ids E c) (live_cells st))))
               (consumed_ids E c)"
    and new: "ids_get (live_cells st) (produced_ids E c) = None"
    by (auto simp: result_simps split: if_splits)
  note o = apply_outputs_Ok[OF t, simplified]
  note ins = ids_insert_new[OF new]
  show "height st' = height st"
    using d t eq new by (auto simp: result_simps split: if_splits)
  show "live_cells st' = live_cells st @ [(produced_ids E c, c)]"
    using d t eq new by (auto simp: result_simps ins split: if_splits)
  show "validators st' = validators st @ stakes_of E (outputs c)"
    using d t eq new o(1) by (auto simp: result_simps split: if_splits)
  show "height st = 0 \<or> \<not> has_coinbase_output c"
    using o(5) by (auto simp: has_coinbase_output_def list_ex_iff)
  show "set (consumed_ids E c) \<subseteq> fst ` set (consumed_outputs E (consumed_ids E c) (live_cells st))"
    using cell_ids_eq_set[OF eq] by simp
  show "accounted E st c st'"
    using d t eq new o(2,3,4)
    by (auto simp: result_simps accounted_def Let_def consumed_capacity_of_def split: if_splits)
qed

lemma apply_cells_Ok:
  assumes "apply_cells E st cs = Ok st'"
  shows "height st' = height st \<and>
    live_cells st' = live_cells st @ map (\<lambda>c. (produced_ids E c, c)) cs \<and>
    validators st' = validators st @ concat (map (\<lambda>c. stakes_of E (outputs c)) cs) \<and>
    (height st = 0 \<or> (\<forall>c \<in> set cs. \<not> has_coinbase_output c))"
  using assms
proof (induction cs arbitrary: st)
  case (Cons c cs)
  then obtain st1 where s: "apply_cell E st c = Ok st1" "apply_cells E st1 cs = Ok st'"
    by (auto simp: result_simps)
  show ?case using Cons.IH[OF s(2)] apply_cell_Ok(1-4)[OF s(1)] by auto
qed simp

lemma state_apply_Ok:
  assumes "state_apply E st b = Ok st'"
  obtains dg order where "dg_insert_all E dg_new (ab_cells b) = (Ok (), dg)"
    "topological_cells E dg (ab_cells b) = Ok order" "apply_cells E st order = Ok st'"
proof -
  obtain r dg where r: "dg_insert_all E dg_new (ab_cells b) = (r, dg)" by fastforce
  with assms have "r = Ok ()" by (cases r) (auto simp: state_apply_def)
  moreover obtain order where "topological_cells E dg (ab_cells b) = Ok order" "apply_cells E st order = Ok st'"
    using assms r \<open>r = Ok ()\<close> by (cases "topological_cells E dg (ab_cells b)") (auto simp: state_apply_def)
  ultimately show thesis using r that by blast
qed

section \<open>Properties\<close>

lemma supply_after_spend:
  fixes spending staking consumed produced staked :: u64
  assumes "produced + staked \<le> consumed" "unat produced + unat staked < 2 ^ 64"
    and "consumed \<le> spending" "unat spending + unat staking < 2 ^ 64"
  shows "unat (spending - consumed + produced) + unat (staking + staked) +
           (unat consumed - (unat produced + unat staked)) = unat spending + unat staking"
proof -
  have p: "unat produced + unat staked \<le> unat consumed"
    using assms(1,2) by (simp add: word_le_nat_alt unat_add_no_overflow)
  have c: "unat consumed \<le> unat spending" using assms(3) by (simp add: word_le_nat_alt)
  have s: "unat (spending - consumed) = unat spending - unat consumed"
    using assms(3) by (rule unat_sub)
  have a: "unat (spending - consumed + produced) = unat spending - unat consumed + unat produced"
    using unat_add_no_overflow[of "spending - consumed" produced] s p c assms(4) by simp
  have b: "unat (staking + staked) = unat staking + unat staked"
    using unat_add_no_overflow[of staking staked] p c assms(4) by simp
  show ?thesis using a b p c by simp
qed

text \<open>
  C33: Applying a block whose cells have disjoint outputs and no cyclic spending. If it succeeds, its
  cells were applied in some order that is a permutation of the block in which no cell consumes
  an output of a later one; every cell is added to the live cells under the ids of its outputs and
  none is ever removed; the validators grow by the stake outputs in that order; the height does not
  change; and unless the height is zero no cell of the block has a coinbase output.
\<close>

theorem state_apply_effect:
  assumes "disjoint_outputs E (ab_cells b)" and "acyclic (depends (block_edges E (ab_cells b)))"
    and "state_apply E st b = Ok st'"
  shows "\<exists>order. mset order = mset (ab_cells b) \<and>
    (\<forall>j < length order. \<forall>i < j. set (consumed_ids E (order ! i)) \<inter> set (produced_ids E (order ! j)) = {}) \<and>
    live_cells st' = live_cells st @ map (\<lambda>c. (produced_ids E c, c)) order \<and>
    validators st' = validators st @ concat (map (\<lambda>c. stakes_of E (outputs c)) order) \<and>
    height st' = height st \<and>
    (height st = 0 \<or> (\<forall>c \<in> set (ab_cells b). \<not> has_coinbase_output c))"
proof -
  obtain dg order where o: "dg_insert_all E dg_new (ab_cells b) = (Ok (), dg)"
    "topological_cells E dg (ab_cells b) = Ok order" "apply_cells E st order = Ok st'"
    using assms(3) by (rule state_apply_Ok)
  from topological_cells_spec[OF assms(1,2)] o(1,2) have m: "mset order = mset (ab_cells b)"
    and l: "\<forall>j < length order. \<forall>i < j. set (consumed_ids E (order ! i)) \<inter> set (produced_ids E (order ! j)) = {}"
    by auto
  have "set order = set (ab_cells b)" using m by (rule mset_eq_setD)
  then show ?thesis using m l apply_cells_Ok[OF o(3)] by (intro exI[of _ order]) auto
qed

definition example_state :: state where
  "example_state = \<lparr>height = 1, total_spending_capacity = 7, total_staking_capacity = 0,
     validators = [], live_cells = [([1792], spend_cell [] 7)]\<rparr>"

definition example_block :: "cell list \<Rightarrow> alpha_block" where
  "example_block cs = \<lparr>ab_predecessor = None, ab_height = 1, ab_vrf_out = 0, ab_cells = cs\<rparr>"

lemmas example_apply = state_apply_def apply_cell_def example_state_def example_block_def
  consumed_outputs_def consumed_from_live_def example_inputs example_cell_id topological_cells_def topological_def
  dg_insert_def dg_new_def has_inbound_edges_def freed_producers_def Let_def hs_insert_def cell_ids_eq_def
  remove_intersection_def outputs_sum_def output_verify_def cell_ids_intersect_def left_difference_def
  cell_ids_from_outputs_def topological_loop.simps

lemma spend_cell_outputs [simp]: "outputs (spend_cell hs cap) = [example_output cap 1]"
  by (simp add: spend_cell_def cell_new_def)

lemma example_apply_once:
  "state_apply example_externs example_state (example_block [spend_cell [7] 3]) = Ok
     \<lparr>height = 1, total_spending_capacity = 3, total_staking_capacity = 0, validators = [],
      live_cells = [([1792], spend_cell [] 7), ([768], spend_cell [7] 3)]\<rparr>"
  by (simp add: example_apply)

lemma example_block_wf:
  "disjoint_outputs example_externs [spend_cell [7] 3]"
  "depends (block_edges example_externs [spend_cell [7] 3]) = {}"
  by (simp_all add: disjoint_outputs_def depends_def block_edges_def produced_ids_def consumed_ids_def
      example_inputs hs_insert_def cell_ids_from_outputs_def example_cell_id)

theorem state_apply_effect_witness:
  "\<exists>st'. state_apply example_externs example_state (example_block [spend_cell [7] 3]) = Ok st' \<and>
     length (live_cells st') = 2 \<and> height st' = 1"
proof -
  obtain st' where st': "state_apply example_externs example_state (example_block [spend_cell [7] 3]) = Ok st'"
    using example_apply_once by simp
  have d: "disjoint_outputs example_externs (ab_cells (example_block [spend_cell [7] 3]))"
    "acyclic (depends (block_edges example_externs (ab_cells (example_block [spend_cell [7] 3]))))"
    using example_block_wf by (simp_all add: example_block_def acyclic_def)
  from state_apply_effect[OF d st'] obtain order where
    "mset order = mset (ab_cells (example_block [spend_cell [7] 3]))" "height st' = height example_state"
    "live_cells st' = live_cells example_state @ map (\<lambda>c. (produced_ids example_externs c, c)) order"
    by (elim exE conjE) (rule that)
  moreover from this(1) have "length order = 1"
    using mset_eq_length[of order "[spend_cell [7] 3]"] by (simp add: example_block_def)
  ultimately show ?thesis using st' by (simp add: example_state_def)
qed

text \<open>
  Applying one cell conserves capacity. Where the sums of its outputs do not overflow and it
  consumes no more than the recorded spending capacity, a cell without minted capacity that is
  applied consumes only outputs of live cells, and the spending and staking capacity
  together fall by exactly the amount by which the outputs it consumes exceed those it produces.
\<close>

theorem apply_cell_conserves:
  assumes "apply_cell E st c = Ok st'" and "typed_sum Coinbase (outputs c) = 0"
    and "unat (typed_sum Transfer (outputs c)) + unat (typed_sum Stake (outputs c)) < 2 ^ 64"
    and "consumed_capacity_of E st c \<le> total_spending_capacity st"
    and "unat (total_spending_capacity st) + unat (total_staking_capacity st) < 2 ^ 64"
  shows "set (consumed_ids E c) \<subseteq> fst ` set (consumed_outputs E (consumed_ids E c) (live_cells st)) \<and>
    unat (typed_sum Transfer (outputs c)) + unat (typed_sum Stake (outputs c)) \<le> unat (consumed_capacity_of E st c) \<and>
    unat (total_spending_capacity st') + unat (total_staking_capacity st') +
      (unat (consumed_capacity_of E st c) -
         (unat (typed_sum Transfer (outputs c)) + unat (typed_sum Stake (outputs c)))) =
    unat (total_spending_capacity st) + unat (total_staking_capacity st)"
proof -
  have acc: "typed_sum Transfer (outputs c) + typed_sum Stake (outputs c) \<le> consumed_capacity_of E st c"
    "total_spending_capacity st' = total_spending_capacity st - consumed_capacity_of E st c + typed_sum Transfer (outputs c)"
    "total_staking_capacity st' = total_staking_capacity st + typed_sum Stake (outputs c)"
    using apply_cell_Ok(6)[OF assms(1)] assms(2) by (auto simp: accounted_def Let_def)
  have "unat (typed_sum Transfer (outputs c)) + unat (typed_sum Stake (outputs c)) \<le> unat (consumed_capacity_of E st c)"
    using acc(1) assms(3) by (simp add: word_le_nat_alt unat_add_no_overflow)
  then show ?thesis
    using apply_cell_Ok(5)[OF assms(1)] supply_after_spend[OF acc(1) assms(3,4,5)] acc(2,3) by simp
qed

lemma example_apply_cell:
  "apply_cell example_externs example_state (spend_cell [7] 3) = Ok
     \<lparr>height = 1, total_spending_capacity = 3, total_staking_capacity = 0, validators = [],
      live_cells = [([1792], spend_cell [] 7), ([768], spend_cell [7] 3)]\<rparr>"
  "consumed_capacity_of example_externs example_state (spend_cell [7] 3) = 7"
  by (simp_all add: example_apply consumed_capacity_of_def consumed_ids_def)

theorem apply_cell_conserves_witness:
  "\<exists>st'. apply_cell example_externs example_state (spend_cell [7] 3) = Ok st' \<and>
     unat (total_spending_capacity st') + unat (total_staking_capacity st') + 4 = 7"
proof -
  have "total_spending_capacity example_state = 7" "total_staking_capacity example_state = 0"
    by (simp_all add: example_state_def)
  then show ?thesis
    using apply_cell_conserves[OF example_apply_cell(1)] by (simp add: example_apply_cell)
qed


end
