(* ===== verification/Sampling.thy ===== *)
theory Sampling
  imports Errors
begin

text \<open>
  The loop \<^verbatim>\<open>Reservoir::sample\<close> (\<^verbatim>\<open>ice/reservoir.rs\<close>) and \<^verbatim>\<open>SampleableMap::sample\<close>
  (\<^verbatim>\<open>view/sampleable_map.rs\<close>) share: pop entries off a queue until enough are taken, and refill
  the queue with a shuffle of the current entries whenever it is empty. The shuffles of the crate
  \<^verbatim>\<open>rand\<close> are the parameter \<open>rng\<close>; the argument \<open>n\<close> counts them, since each differs.
  A loop that never ends is \<open>None\<close>.
\<close>

partial_function (option) draw ::
  "(nat \<Rightarrow> 'a list \<Rightarrow> 'a list) \<Rightarrow> 'a list \<Rightarrow> nat \<Rightarrow> nat \<Rightarrow> 'a list \<Rightarrow> 'a list \<Rightarrow> ('a list \<times> 'a list) option" where
  "draw rng entries n k queue acc =
     (if k = 0 then Some (acc, queue)
      else if queue = [] then
        (if entries = [] then Some (acc, queue) else draw rng entries (Suc n) k (rng n entries) acc)
      else draw rng entries n (k - 1) (butlast queue) (acc @ [last queue]))"

declare draw.simps [code]

definition shuffles :: "(nat \<Rightarrow> 'a list \<Rightarrow> 'a list) \<Rightarrow> bool" where
  "shuffles rng \<longleftrightarrow> (\<forall>n xs. mset (rng n xs) = mset xs)"

lemma shufflesD:
  assumes "shuffles rng"
  shows "set (rng n xs) = set xs" "rng n xs = [] \<longleftrightarrow> xs = []" "length (rng n xs) = length xs"
    and "distinct (rng n xs) = distinct xs"
  using assms unfolding shuffles_def
  by (metis set_mset_mset, metis mset_zero_iff, metis size_mset, metis mset_eq_imp_distinct_iff)

text \<open>
  With real shuffles the loop ends. It takes as many entries as asked for unless there are none left,
  all of them from the queue or the current entries, and what it leaves in the queue comes from there too.
\<close>

lemma draw_total:
  assumes rng: "shuffles rng"
  shows "\<exists>s q. draw rng entries n k queue acc = Some (acc @ s, q) \<and>
    length s = (if entries = [] then min k (length queue) else k) \<and>
    set s \<subseteq> set queue \<union> set entries \<and> set q \<subseteq> set queue \<union> set entries"
proof (induction k arbitrary: n queue acc)
  case 0
  show ?case by (subst draw.simps) simp
next
  case (Suc k)
  have pop: "\<exists>s q. draw rng entries n (Suc k) queue acc = Some (acc @ s, q) \<and>
      length s = (if entries = [] then min (Suc k) (length queue) else Suc k) \<and>
      set s \<subseteq> set queue \<union> set entries \<and> set q \<subseteq> set queue \<union> set entries" if ne: "queue \<noteq> []" for n :: nat and queue acc :: "'a list"
  proof -
    from Suc.IH[of n "butlast queue" "acc @ [last queue]"] obtain s q where
      r: "draw rng entries n k (butlast queue) (acc @ [last queue]) = Some ((acc @ [last queue]) @ s, q)"
        "length s = (if entries = [] then min k (length (butlast queue)) else k)"
        "set s \<subseteq> set (butlast queue) \<union> set entries" "set q \<subseteq> set (butlast queue) \<union> set entries" by blast
    have "draw rng entries n (Suc k) queue acc = Some (acc @ (last queue # s), q)"
      using ne r(1) by (subst draw.simps) simp
    moreover have "set (butlast queue) \<subseteq> set queue" "last queue \<in> set queue"
      using ne by (auto dest: in_set_butlastD)
    moreover have "length queue = Suc (length (butlast queue))" using ne by simp
    ultimately show ?thesis using r(2-4) by (intro exI[of _ "last queue # s"] exI[of _ q]) auto
  qed
  show ?case
  proof (cases "queue = []")
    case True
    show ?thesis
    proof (cases "entries = []")
      case True
      with \<open>queue = []\<close> show ?thesis by (subst draw.simps) simp
    next
      case False
      then have "rng n entries \<noteq> []" using shufflesD(2)[OF rng] by blast
      from pop[where n = "Suc n" and acc = acc, OF this] obtain s q where
        "draw rng entries (Suc n) (Suc k) (rng n entries) acc = Some (acc @ s, q)"
        "length s = Suc k" "set s \<subseteq> set entries" "set q \<subseteq> set entries"
        using False shufflesD(1)[OF rng] by auto
      moreover have "draw rng entries n (Suc k) queue acc = draw rng entries (Suc n) (Suc k) (rng n entries) acc"
        using True False by (subst draw.simps) simp
      ultimately show ?thesis using False by auto
    qed
  qed (rule pop)
qed

text \<open>While the queue lasts nothing is shuffled: the entries come off its end.\<close>

lemma draw_from_queue:
  "k \<le> length queue \<Longrightarrow>
   draw rng entries n k queue acc = Some (acc @ take k (rev queue), take (length queue - k) queue)"
proof (induction k arbitrary: queue acc)
  case 0
  show ?case by (subst draw.simps) simp
next
  case (Suc k)
  then have ne: "queue \<noteq> []" by auto
  then have q: "queue = butlast queue @ [last queue]" by simp
  from Suc.prems ne have "draw rng entries n (Suc k) queue acc =
      Some ((acc @ [last queue]) @ take k (rev (butlast queue)),
            take (length (butlast queue) - k) (butlast queue))"
    by (subst draw.simps) (simp add: Suc.IH)
  moreover have "take (Suc k) (rev queue) = last queue # take k (rev (butlast queue))"
    by (subst (1) q) (simp del: append_butlast_last_id)
  moreover have "take (length (butlast queue) - k) (butlast queue) = take (length queue - Suc k) queue"
    using Suc.prems by (subst (3) q) simp
  ultimately show ?case by simp
qed

end
