(* ===== verification/Reservoir.thy ===== *)
theory Reservoir
  imports Messages Sampling
begin

text \<open>
  Peer liveness by quorums: \<^verbatim>\<open>src/ice/constants.rs\<close>, \<^verbatim>\<open>quorum.rs\<close> and
  \<^verbatim>\<open>reservoir.rs\<close>. For every peer the reservoir has a choice, \<open>Live\<close> or \<open>Faulty\<close>, with the
  number of times in a row a quorum confirmed it, and the votes of the quorum being collected.
\<close>

section \<open>Quorums\<close>

definition PING_MAX_SIZE :: nat where "PING_MAX_SIZE = 11"

definition ICE_ALPHA :: rat where "ICE_ALPHA = 1 / 2"

definition ICE_K :: nat where "ICE_K = 2"

definition ICE_BETA1 :: nat where "ICE_BETA1 = 3"

type_synonym quorum = "(node_id, choice) hashmap"

definition quorum_new :: quorum where "quorum_new = []"

definition quorum_len :: "quorum \<Rightarrow> nat" where "quorum_len q = length q"

definition quorum_contains :: "quorum \<Rightarrow> node_id \<Rightarrow> bool" where "quorum_contains q i = hm_contains q i"

definition quorum_insert :: "quorum \<Rightarrow> node_id \<Rightarrow> choice \<Rightarrow> quorum" where
  "quorum_insert q observer c = hm_insert observer c q"

definition quorum_threshold :: nat where
  "quorum_threshold = nat \<lceil>of_nat ICE_K * ICE_ALPHA\<rceil>"

definition quorum_decide :: "quorum \<Rightarrow> choice option" where
  "quorum_decide q =
     (let n_live = length (filter (\<lambda>(_, c). c = Live) q);
          n_faulty = length (filter (\<lambda>(_, c). c = Faulty) q) in
      if n_live > quorum_threshold then Some Live
      else if n_faulty > quorum_threshold then Some Faulty
      else None)"

section \<open>The reservoir\<close>

type_synonym decision = "socket_addr \<times> choice \<times> nat"

record reservoir =
  rs_quorums :: "(node_id, quorum) hashmap"
  rs_decisions :: "(node_id, decision) hashmap"
  rs_random_queue :: "(node_id \<times> decision) list"
  rs_nbootstrapped :: nat

definition reservoir_new :: reservoir where
  "reservoir_new = \<lparr>rs_quorums = [], rs_decisions = [], rs_random_queue = [], rs_nbootstrapped = 0\<rparr>"

definition reservoir_len :: "reservoir \<Rightarrow> nat" where
  "reservoir_len r = length (rs_decisions r)"

definition get_decision :: "reservoir \<Rightarrow> node_id \<Rightarrow> decision option" where
  "get_decision r i = hm_get (rs_decisions r) i"

definition get_decisions :: "reservoir \<Rightarrow> (node_id \<times> socket_addr \<times> choice \<times> nat) list" where
  "get_decisions r = map (\<lambda>(i, ip, c, v). (i, ip, c, v)) (rs_decisions r)"

definition get_endpoint_having_strong_choice :: "reservoir \<Rightarrow> node_id \<Rightarrow> choice \<Rightarrow> socket_addr option" where
  "get_endpoint_having_strong_choice r i ch =
     (case hm_get (rs_decisions r) i of
        Some (ip, c, v) \<Rightarrow> if c = ch \<and> v \<ge> ICE_BETA1 then Some ip else None
      | None \<Rightarrow> None)"

definition get_live_endpoint :: "reservoir \<Rightarrow> node_id \<Rightarrow> socket_addr option" where
  "get_live_endpoint r i = get_endpoint_having_strong_choice r i Live"

definition get_live_peers :: "reservoir \<Rightarrow> peer list" where
  "get_live_peers r =
     map (\<lambda>(i, ip, _). (i, ip)) (filter (\<lambda>(i, ip, c, v). c = Live \<and> v \<ge> ICE_BETA1) (rs_decisions r))"

definition reservoir_insert :: "reservoir \<Rightarrow> node_id \<Rightarrow> socket_addr \<Rightarrow> choice \<Rightarrow> nat \<Rightarrow> reservoir" where
  "reservoir_insert r i ip c v = r\<lparr>rs_decisions := hm_insert i (ip, c, v) (rs_decisions r)\<rparr>"

definition reservoir_insert_new :: "reservoir \<Rightarrow> node_id \<Rightarrow> socket_addr \<Rightarrow> choice \<Rightarrow> nat \<Rightarrow> reservoir" where
  "reservoir_insert_new r i ip c v =
     (case hm_get (rs_decisions r) i of
        None \<Rightarrow> r\<lparr>rs_decisions := hm_insert i (ip, c, v) (rs_decisions r)\<rparr>
      | Some _ \<Rightarrow> r)"

definition set_choice :: "reservoir \<Rightarrow> node_id \<Rightarrow> choice \<Rightarrow> reservoir" where
  "set_choice r i new_choice =
     (case hm_get (rs_decisions r) i of
        Some (ip, _, _) \<Rightarrow> r\<lparr>rs_decisions := hm_insert i (ip, new_choice, 0) (rs_decisions r)\<rparr>
      | None \<Rightarrow> r)"

definition update_choice :: "reservoir \<Rightarrow> node_id \<Rightarrow> choice \<Rightarrow> bool \<times> reservoir" where
  "update_choice r i new_choice =
     (rs_nbootstrapped r \<ge> ICE_K,
      case hm_get (rs_decisions r) i of
        Some (ip, c, v) \<Rightarrow>
          if c \<noteq> new_choice then r\<lparr>rs_decisions := hm_insert i (ip, new_choice, 0) (rs_decisions r)\<rparr> else r
      | None \<Rightarrow> r)"

section \<open>Sampling\<close>

text \<open>The entries a shuffle puts into the queue: those whose choice is not confirmed yet.\<close>

definition undecided :: "reservoir \<Rightarrow> (node_id \<times> decision) list" where
  "undecided r = filter (\<lambda>(i, ip, c, v). \<not> v \<ge> ICE_BETA1) (rs_decisions r)"

definition permute ::
  "((node_id \<times> decision) list \<Rightarrow> (node_id \<times> decision) list) \<Rightarrow> reservoir \<Rightarrow> bool \<times> reservoir" where
  "permute shuffle r =
     (if length (undecided r) > 0 then (True, r\<lparr>rs_random_queue := shuffle (undecided r)\<rparr>) else (False, r))"

definition reservoir_sample ::
  "(nat \<Rightarrow> (node_id \<times> decision) list \<Rightarrow> (node_id \<times> decision) list) \<Rightarrow> reservoir
   \<Rightarrow> ((node_id, decision) hashmap \<times> reservoir) option" where
  "reservoir_sample rng r =
     (if length (rs_decisions r) > 0 then
        map_option (\<lambda>(s, q). (foldl (\<lambda>m (i, e). hm_insert i e m) [] s, r\<lparr>rs_random_queue := q\<rparr>))
          (draw rng (undecided r) 0 ICE_K (rs_random_queue r) [])
      else Some ([], r))"

section \<open>Votes\<close>

definition reset_faulty_decision :: "reservoir \<Rightarrow> node_id \<Rightarrow> reservoir" where
  "reset_faulty_decision r i =
     (case hm_get (rs_decisions r) i of
        Some (ip, Faulty, v) \<Rightarrow> r\<lparr>rs_decisions := hm_insert i (ip, Live, 0) (rs_decisions r)\<rparr>
      | _ \<Rightarrow> r)"

definition reset_conviction :: "reservoir \<Rightarrow> node_id \<Rightarrow> reservoir" where
  "reset_conviction r i =
     (case hm_get (rs_decisions r) i of
        Some (ip, c, v) \<Rightarrow> r\<lparr>rs_decisions := hm_insert i (ip, c, 0) (rs_decisions r)\<rparr>
      | None \<Rightarrow> r)"

definition process_quorum :: "reservoir \<Rightarrow> node_id \<Rightarrow> node_id \<Rightarrow> choice \<Rightarrow> quorum \<times> reservoir" where
  "process_quorum r responder i c =
     (case hm_get (rs_quorums r) i of
        Some q \<Rightarrow>
          if quorum_contains q responder then (q, r)
          else (let q' = quorum_insert q responder c in
                (q', r\<lparr>rs_quorums := hm_insert i q' (rs_quorums r)\<rparr>))
      | None \<Rightarrow>
          (let q' = quorum_insert quorum_new responder c in
           (q', r\<lparr>rs_quorums := hm_insert i q' (rs_quorums r)\<rparr>)))"

definition process_decision :: "reservoir \<Rightarrow> node_id \<Rightarrow> quorum \<Rightarrow> bool \<times> reservoir" where
  "process_decision r i q =
     (case quorum_decide q of
        Some d \<Rightarrow>
          (let r1 =
             (case hm_get (rs_decisions r) i of
                Some (ip, d0, c) \<Rightarrow>
                  if d \<noteq> d0 then r\<lparr>rs_decisions := hm_insert i (ip, d, 0) (rs_decisions r)\<rparr>
                  else
                    (let r' = r\<lparr>rs_decisions := hm_insert i (ip, d0, c + 1) (rs_decisions r)\<rparr> in
                     if rs_nbootstrapped r' > 0 \<and> d0 = Faulty \<and> c + 1 \<ge> ICE_BETA1
                     then r'\<lparr>rs_nbootstrapped := rs_nbootstrapped r' - 1\<rparr>
                     else if d0 = Live \<and> c + 1 \<ge> ICE_BETA1
                     then r'\<lparr>rs_nbootstrapped := rs_nbootstrapped r' + 1\<rparr>
                     else r')
              | None \<Rightarrow> r);
               r2 = r1\<lparr>rs_quorums := hm_remove i (rs_quorums r1)\<rparr> in
           (rs_nbootstrapped r2 \<ge> ICE_K, r2))
      | None \<Rightarrow> (False, reset_conviction (r\<lparr>rs_quorums := hm_remove i (rs_quorums r)\<rparr>) i))"

definition process_outcome :: "reservoir \<Rightarrow> node_id \<Rightarrow> outcome \<Rightarrow> bool \<times> reservoir" where
  "process_outcome r responder out =
     (case process_quorum r responder (o_peer_id out) (o_choice out) of
        (q, r1) \<Rightarrow>
          if quorum_len q \<ge> ICE_K then
            (case process_decision r1 (o_peer_id out) q of
               (b, r2) \<Rightarrow>
                 if b then (get_endpoint_having_strong_choice r2 (o_peer_id out) (o_choice out) \<noteq> None, r2)
                 else (False, r2))
          else (False, r1))"

fun process_outcomes :: "reservoir \<Rightarrow> node_id \<Rightarrow> outcome list \<Rightarrow> bool \<Rightarrow> bool \<times> reservoir" where
  "process_outcomes r responder [] changed = (changed, r)"
| "process_outcomes r responder (out # outs) changed =
     (case process_outcome r responder out of (b, r1) \<Rightarrow> process_outcomes r1 responder outs (changed \<or> b))"

definition reservoir_fill :: "reservoir \<Rightarrow> node_id \<Rightarrow> outcome list \<Rightarrow> (bool \<times> bool) \<times> reservoir" where
  "reservoir_fill r responder outs =
     (case process_outcomes (reset_faulty_decision r responder) responder outs False of
        (changed, r1) \<Rightarrow> ((rs_nbootstrapped r1 \<ge> ICE_K, changed), r1))"

end
