(* ===== verification/View.thy ===== *)
theory View
  imports Messages Sampling
begin

text \<open>
  The peers a node knows: \<^verbatim>\<open>src/view/sampleable_map.rs\<close> and \<^verbatim>\<open>src/view/view.rs\<close>.
\<close>

section \<open>Sampleable maps\<close>

record ('k, 'v) sampleable_map =
  sm_map :: "('k, 'v) hashmap"
  sm_queue :: "('k \<times> 'v) list"

definition sampleable_map_new :: "('k, 'v) sampleable_map" where
  "sampleable_map_new = \<lparr>sm_map = [], sm_queue = []\<rparr>"

definition next_queue :: "('k, 'v) sampleable_map \<Rightarrow> ('k \<times> 'v) list" where
  "next_queue m = map (\<lambda>(k, v). (k, v)) (sm_map m)"

definition sm_sample ::
  "(nat \<Rightarrow> ('k \<times> 'v) list \<Rightarrow> ('k \<times> 'v) list) \<Rightarrow> nat \<Rightarrow> ('k, 'v) sampleable_map
   \<Rightarrow> (('k \<times> 'v) list \<times> ('k, 'v) sampleable_map) option" where
  "sm_sample rng k m =
     map_option (\<lambda>(s, q). (s, m\<lparr>sm_queue := q\<rparr>)) (draw rng (next_queue m) 0 k (sm_queue m) [])"

section \<open>The view\<close>

definition PEER_LIST_MAX :: nat where "PEER_LIST_MAX = 3"

definition BOOTSTRAP_QUORUM :: nat where "BOOTSTRAP_QUORUM = 2"

record view =
  vw_ip :: socket_addr
  vw_node_id :: node_id
  vw_peers :: "(node_id, socket_addr) sampleable_map"
  vw_peer_list :: "peer hashset"

definition view_new :: "socket_addr \<Rightarrow> node_id \<Rightarrow> view" where
  "view_new ip i = \<lparr>vw_ip = ip, vw_node_id = i, vw_peers = sampleable_map_new, vw_peer_list = []\<rparr>"

definition view_insert :: "view \<Rightarrow> node_id \<Rightarrow> socket_addr \<Rightarrow> view" where
  "view_insert v i ip =
     v\<lparr>vw_peers := (vw_peers v)\<lparr>sm_map := hm_insert i ip (sm_map (vw_peers v))\<rparr>\<rparr>"

definition remember_peer :: "view \<Rightarrow> peer \<Rightarrow> view" where
  "remember_peer v p =
     (if length (vw_peer_list v) < PEER_LIST_MAX \<and> p \<notin> set (vw_peer_list v)
      then v\<lparr>vw_peer_list := hs_insert p (vw_peer_list v)\<rparr> else v)"

fun view_init :: "peer list \<Rightarrow> view \<Rightarrow> view" where
  "view_init [] v = v"
| "view_init ((i, ip) # ps) v = view_init ps (remember_peer (view_insert v i ip) (i, ip))"

definition insert_update :: "view \<Rightarrow> node_id \<Rightarrow> socket_addr \<Rightarrow> bool \<times> view" where
  "insert_update v i ip =
     (if i = vw_node_id v then (False, v)
      else
        (let v1 = view_insert v i ip in
         case hm_get (sm_map (vw_peers v)) i of
           Some _ \<Rightarrow> (False, v1)
         | None \<Rightarrow> (True, remember_peer v1 (i, ip))))"

definition sample_k ::
  "(nat \<Rightarrow> peer list \<Rightarrow> peer list) \<Rightarrow> nat \<Rightarrow> view \<Rightarrow> (peer list \<times> view) option" where
  "sample_k rng k v =
     (if length (sm_map (vw_peers v)) \<ge> k
      then map_option (\<lambda>(s, m). (s, v\<lparr>vw_peers := m\<rparr>)) (sm_sample rng k (vw_peers v))
      else Some ([], v))"

section \<open>Handlers\<close>

definition handle_version :: "peer \<Rightarrow> view \<Rightarrow> version_ack \<times> view" where
  "handle_version p v =
     (let v1 = snd (insert_update v (fst p) (snd p)) in
      (\<lparr>va_id = vw_node_id v1, va_ip = vw_ip v1, va_peer_list = vw_peer_list v1\<rparr>, v1))"

definition get_peers :: "view \<Rightarrow> peer list" where
  "get_peers v = map (\<lambda>(i, ip). (i, ip)) (sm_map (vw_peers v))"

definition view_bootstrap :: "view \<Rightarrow> client_request" where
  "view_bootstrap v =
     Fanout (filter (\<lambda>(i, ip). ip \<noteq> vw_ip v) (sm_map (vw_peers v))) (ReqVersion (vw_node_id v, vw_ip v))"

definition view_bootstrap_response :: "client_response option \<Rightarrow> (crate_error, response list) result" where
  "view_bootstrap_response res =
     (case res of
        Some (FanoutResponse responses) \<Rightarrow> Ok responses
      | Some _ \<Rightarrow> Err InvalidResponse
      | None \<Rightarrow> Err ErrActix)"

fun update_all :: "peer list \<Rightarrow> peer list \<Rightarrow> view \<Rightarrow> peer list \<times> view" where
  "update_all [] updates v = (updates, v)"
| "update_all ((i, ip) # ps) updates v =
     (case insert_update v i ip of
        (b, v1) \<Rightarrow> update_all ps (if b then updates @ [(i, ip)] else updates) v1)"

fun update_from_responses :: "response list \<Rightarrow> peer list \<Rightarrow> view \<Rightarrow> peer list \<times> view" where
  "update_from_responses [] updates v = (updates, v)"
| "update_from_responses (r # rs) updates v =
     (case r of
        RespVersionAck a \<Rightarrow>
          (case update_all ((va_id a, va_ip a) # va_peer_list a) updates v of
             (updates', v1) \<Rightarrow> update_from_responses rs updates' v1)
      | _ \<Rightarrow> update_from_responses rs updates v)"

definition update_peers :: "response list \<Rightarrow> view \<Rightarrow> (peer list \<times> bool) \<times> view" where
  "update_peers responses v =
     (case update_from_responses responses [] v of
        (updates, v1) \<Rightarrow> ((updates, length responses \<ge> BOOTSTRAP_QUORUM), v1))"

end
