(* ===== verification/Ice.thy ===== *)
theory Ice
  imports Reservoir Dissemination View
begin

text \<open>
  The liveness protocol: the actor and the protocol rounds of \<^verbatim>\<open>src/ice/ice.rs\<close>. A round pings
  the peers sampled from the view; what the peers answer is a parameter of the round.
\<close>

section \<open>State\<close>

record ice =
  ic_id :: node_id
  ic_ip :: socket_addr
  ic_reservoir :: reservoir
  ic_bootstrapped :: bool

definition ice_new :: "node_id \<Rightarrow> socket_addr \<Rightarrow> reservoir \<Rightarrow> ice" where
  "ice_new i ip r = \<lparr>ic_id = i, ic_ip = ip, ic_reservoir = r, ic_bootstrapped = False\<rparr>"

section \<open>Being pinged\<close>

definition process_query :: "reservoir \<Rightarrow> node_id \<Rightarrow> query \<Rightarrow> outcome \<times> reservoir" where
  "process_query r self_id q =
     (if q_peer_id q = self_id then (outcome_new (q_peer_id q) Live, r)
      else
        (case get_decision r (q_peer_id q) of
           Some (_, c, _) \<Rightarrow> (outcome_new (q_peer_id q) c, r)
         | None \<Rightarrow>
             (case q_choice q of
                Live \<Rightarrow> (outcome_new (q_peer_id q) (q_choice q), set_choice r (q_peer_id q) Live)
              | Faulty \<Rightarrow> (outcome_new (q_peer_id q) (q_choice q), set_choice r (q_peer_id q) Faulty))))"

fun process_queries :: "reservoir \<Rightarrow> node_id \<Rightarrow> query list \<Rightarrow> outcome list \<times> reservoir" where
  "process_queries r self_id [] = ([], r)"
| "process_queries r self_id (q # qs) =
     (case process_query r self_id q of
        (out, r1) \<Rightarrow> (case process_queries r1 self_id qs of (outs, r2) \<Rightarrow> (out # outs, r2)))"

definition handle_ping :: "ping \<Rightarrow> ice \<Rightarrow> ack \<times> ice" where
  "handle_ping p st =
     (case process_queries (ic_reservoir st) (ic_id st) (ping_queries p) of
        (outs, r) \<Rightarrow> (\<lparr>ack_id = ic_id st, ack_outcomes = outs\<rparr>, st\<lparr>ic_reservoir := r\<rparr>))"

section \<open>Pinging\<close>

fun insert_live :: "peer list \<Rightarrow> reservoir \<Rightarrow> reservoir" where
  "insert_live [] r = r"
| "insert_live ((i, ip) # ps) r = insert_live ps (reservoir_insert r i ip Live 0)"

definition ice_bootstrap :: "peer list \<Rightarrow> ice \<Rightarrow> bool \<times> ice" where
  "ice_bootstrap peers st = (True, st\<lparr>ic_reservoir := insert_live peers (ic_reservoir st)\<rparr>)"

definition sample_queries ::
  "(nat \<Rightarrow> (node_id \<times> decision) list \<Rightarrow> (node_id \<times> decision) list) \<Rightarrow> peer \<Rightarrow> ice
   \<Rightarrow> (query list \<times> ice) option" where
  "sample_queries rng p st =
     (let r = reservoir_insert_new (ic_reservoir st) (fst p) (snd p) Live 0 in
      if reservoir_len r > 0 then
        map_option (\<lambda>(s, r').
            (map (\<lambda>(i, ip, c, _). \<lparr>q_peer_id = i, q_peer_ip = ip, q_choice = c\<rparr>) s,
             st\<lparr>ic_reservoir := r'\<rparr>))
          (reservoir_sample rng r)
      else Some ([], st\<lparr>ic_reservoir := r\<rparr>))"

record switch =
  flipped :: bool
  switch_bootstrapped :: bool

definition ping_success :: "ack \<Rightarrow> ice \<Rightarrow> switch \<times> ice" where
  "ping_success a st =
     (case reservoir_fill (ic_reservoir st) (ack_id a) (ack_outcomes a) of
        ((is_bootstrapped, flip), r) \<Rightarrow>
          (let st1 = st\<lparr>ic_reservoir := r\<rparr> in
           if is_bootstrapped then
             (if ic_bootstrapped st1 then (\<lparr>flipped = flip, switch_bootstrapped = True\<rparr>, st1)
              else (\<lparr>flipped = True, switch_bootstrapped = True\<rparr>, st1\<lparr>ic_bootstrapped := True\<rparr>))
           else if \<not> ic_bootstrapped st1 then (\<lparr>flipped = False, switch_bootstrapped = False\<rparr>, st1)
           else (\<lparr>flipped = True, switch_bootstrapped = False\<rparr>, st1\<lparr>ic_bootstrapped := False\<rparr>)))"

definition ping_failure :: "node_id \<Rightarrow> ice \<Rightarrow> bool \<times> ice" where
  "ping_failure i st =
     (case update_choice (ic_reservoir st) i Faulty of
        (b, r) \<Rightarrow> (\<not> b \<and> ic_bootstrapped st, st\<lparr>ic_reservoir := r\<rparr>))"

definition ice_get_live_peers :: "ice \<Rightarrow> peer list" where
  "ice_get_live_peers st = get_live_peers (ic_reservoir st)"

section \<open>The committee\<close>

record ice_committee =
  icm_self_staking_capacity :: u64
  icm_sleet_validators :: "(node_id, socket_addr \<times> weight) hashmap"
  icm_hail_validators :: "(node_id, socket_addr \<times> u64) hashmap"

text \<open>The first loop: the stake of this node, the total stake and the live validators.\<close>

fun live_stake ::
  "ice \<Rightarrow> (node_id \<times> u64) list \<Rightarrow> u64 option \<Rightarrow> u64 \<Rightarrow> (node_id, socket_addr \<times> u64) hashmap
   \<Rightarrow> u64 option \<times> u64 \<times> (node_id, socket_addr \<times> u64) hashmap" where
  "live_stake st [] self_cap total_cap vs = (self_cap, total_cap, vs)"
| "live_stake st ((i, amount) # rest) self_cap total_cap vs =
     (if i = ic_id st then live_stake st rest (Some amount) (total_cap + amount) vs
      else (case get_live_endpoint (ic_reservoir st) i of
              Some ip \<Rightarrow> live_stake st rest self_cap (total_cap + amount) (hm_insert i (ip, amount) vs)
            | None \<Rightarrow> live_stake st rest self_cap total_cap vs))"

fun live_weights ::
  "(rat \<Rightarrow> rat) \<Rightarrow> ice \<Rightarrow> u64 \<Rightarrow> (node_id \<times> u64) list \<Rightarrow> (node_id, socket_addr \<times> weight) hashmap
   \<Rightarrow> (node_id, socket_addr \<times> weight) hashmap" where
  "live_weights rnd st total_cap [] ws = ws"
| "live_weights rnd st total_cap ((i, amount) # rest) ws =
     (if i = ic_id st then live_weights rnd st total_cap rest ws
      else (case get_live_endpoint (ic_reservoir st) i of
              Some ip \<Rightarrow> live_weights rnd st total_cap rest (hm_insert i (ip, percent_of rnd amount total_cap) ws)
            | None \<Rightarrow> live_weights rnd st total_cap rest ws))"

definition ice_live_committee ::
  "('db, 'v, 'a) node_externs_scheme \<Rightarrow> (node_id \<times> u64) list \<Rightarrow> ice \<Rightarrow> (crate_error, ice_committee) result" where
  "ice_live_committee E validators st =
     (case live_stake st validators None 0 [] of
        (self_cap, total_cap, hail_validators) \<Rightarrow>
          (let sleet_validators = live_weights (f64_round E) st total_cap validators [] in
           case self_cap of
             Some c \<Rightarrow> Ok \<lparr>icm_self_staking_capacity = c, icm_sleet_validators = sleet_validators,
                          icm_hail_validators = hail_validators\<rparr>
           | None \<Rightarrow> Panic))"

section \<open>Status\<close>

definition reservoir_size :: "ice \<Rightarrow> nat" where
  "reservoir_size st = reservoir_len (ic_reservoir st)"

definition ice_status :: "ice \<Rightarrow> bool \<times> (node_id \<times> socket_addr \<times> choice) list" where
  "ice_status st =
     (ic_bootstrapped st, map (\<lambda>(i, ip, c, _). (i, ip, c)) (get_decisions (ic_reservoir st)))"

section \<open>Rounds\<close>

definition do_ping :: "node_id \<Rightarrow> peer \<Rightarrow> query list \<Rightarrow> gossip list \<Rightarrow> client_request" where
  "do_ping self_id p queries rumours =
     Oneshot (fst p) (snd p) (ReqPing \<lparr>ping_id = self_id, ping_queries = queries, ping_rumours = rumours\<rparr>)"

definition do_ping_response :: "client_response option \<Rightarrow> (crate_error, ack) result" where
  "do_ping_response res =
     (case res of
        Some (OneshotResponse (Some (RespAck a))) \<Rightarrow> Ok a
      | Some (OneshotResponse (Some _)) \<Rightarrow> Err Byzantine
      | Some (OneshotResponse None) \<Rightarrow> Err Crash
      | Some (FanoutResponse _) \<Rightarrow> Err InvalidResponse
      | None \<Rightarrow> Err ErrActix)"

text \<open>What the rounds tell the alpha chain.\<close>

datatype network_event = LiveNetwork node_id "peer list" | FaultyNetwork

definition send_ping_success :: "node_id \<Rightarrow> ack \<Rightarrow> ice \<Rightarrow> network_event list \<times> ice" where
  "send_ping_success self_id a st =
     (case ping_success a st of
        (sw, st1) \<Rightarrow>
          (if flipped sw then
             (if \<not> switch_bootstrapped sw then [FaultyNetwork]
              else [LiveNetwork self_id (ice_get_live_peers st1)])
           else [], st1))"

definition send_ping_failure :: "node_id \<Rightarrow> ice \<Rightarrow> network_event list \<times> ice" where
  "send_ping_failure i st =
     (case ping_failure i st of (b, st1) \<Rightarrow> (if b then [FaultyNetwork] else [], st1))"

definition ping_size :: "nat \<Rightarrow> nat" where
  "ping_size network_size = min network_size PING_MAX_SIZE"

text \<open>
  One peer of a round: \<open>answer\<close> is what the client gets for the ping, and \<open>rng\<close> has the shuffles.
\<close>

definition run_peer ::
  "node_id \<Rightarrow> (nat \<Rightarrow> (node_id \<times> decision) list \<Rightarrow> (node_id \<times> decision) list)
   \<Rightarrow> (client_request \<Rightarrow> client_response option) \<Rightarrow> gossip list \<Rightarrow> peer \<Rightarrow> ice \<Rightarrow> (network_event list \<times> ice) option" where
  "run_peer self_id rng answer rumours p st =
     map_option (\<lambda>(queries, st1).
         case do_ping_response (answer (do_ping self_id p queries rumours)) of
           Ok a \<Rightarrow> send_ping_success self_id a st1
         | _ \<Rightarrow> send_ping_failure (fst p) st1)
       (sample_queries rng p st)"

fun run_peers ::
  "node_id \<Rightarrow> (nat \<Rightarrow> (node_id \<times> decision) list \<Rightarrow> (node_id \<times> decision) list)
   \<Rightarrow> (client_request \<Rightarrow> client_response option) \<Rightarrow> (peer \<Rightarrow> gossip list) \<Rightarrow> peer list \<Rightarrow> network_event list \<Rightarrow> ice
   \<Rightarrow> (network_event list \<times> ice) option" where
  "run_peers self_id rng answer rumours [] evs st = Some (evs, st)"
| "run_peers self_id rng answer rumours (p # ps) evs st =
     (case run_peer self_id rng answer (rumours p) p st of
        None \<Rightarrow> None
      | Some (evs', st1) \<Rightarrow> run_peers self_id rng answer rumours ps (evs @ evs') st1)"

text \<open>One iteration of the loop of \<^verbatim>\<open>run\<close>: sample the view and ping the sampled peers in turn.\<close>

definition run_round ::
  "(nat \<Rightarrow> peer list \<Rightarrow> peer list) \<Rightarrow> (nat \<Rightarrow> (node_id \<times> decision) list \<Rightarrow> (node_id \<times> decision) list)
   \<Rightarrow> (client_request \<Rightarrow> client_response option) \<Rightarrow> (peer \<Rightarrow> gossip list) \<Rightarrow> node_id \<Rightarrow> ice \<Rightarrow> view
   \<Rightarrow> (network_event list \<times> ice \<times> view) option" where
  "run_round view_rng rng answer rumours self_id st v =
     (case sample_k view_rng (ping_size (reservoir_size st)) v of
        None \<Rightarrow> None
      | Some (peers, v1) \<Rightarrow>
          map_option (\<lambda>(evs, st1). (evs, st1, v1)) (run_peers self_id rng answer rumours peers [] st))"

text \<open>
  One iteration of \<^verbatim>\<open>bootstrap\<close> of \<^verbatim>\<open>view.rs\<close> with the answer of the client. The flag says
  that the loop ends; an error of the client is a panic.
\<close>

definition bootstrap_step ::
  "client_response option \<Rightarrow> view \<Rightarrow> ice \<Rightarrow> (crate_error, bool) result \<times> view \<times> ice" where
  "bootstrap_step res v st =
     (case view_bootstrap_response res of
        Ok responses \<Rightarrow>
          if length responses > 0 then
            (case update_peers responses v of
               ((_, bootstrapped), v1) \<Rightarrow>
                 if bootstrapped then
                   (case ice_bootstrap (get_peers v1) st of (b, st1) \<Rightarrow> (Ok b, v1, st1))
                 else (Ok False, v1, st))
          else (Ok False, v, st)
      | _ \<Rightarrow> (Panic, v, st))"

end
