(* ===== verification/Alpha.thy ===== *)
theory Alpha
  imports Alpha_State Ice Sleet Hail
begin

text \<open>
  The actor of the primary chain: \<^verbatim>\<open>src/alpha/alpha.rs\<close> and \<^verbatim>\<open>alpha/status_handler.rs\<close>.
  It applies the genesis block, asks the live peers for their last accepted block, and when enough of
  them agree it hands the validator set to the other components: \<^verbatim>\<open>ice\<close> turns it into
  committees for \<^verbatim>\<open>sleet\<close> and \<^verbatim>\<open>hail\<close>.
\<close>

section \<open>Start\<close>

record 'db alpha =
  al_node_id :: node_id
  al_tree :: 'db
  al_has_router :: bool
  al_state :: state

definition alpha_create :: "node_id \<Rightarrow> 'db \<Rightarrow> 'db alpha" where
  "alpha_create i tree = \<lparr>al_node_id = i, al_tree = tree, al_has_router = False, al_state = state_new\<rparr>"

definition alpha_get_validator_set :: "'db alpha \<Rightarrow> node_id hashset" where
  "alpha_get_validator_set al = get_validator_set (al_state al)"

definition apply_genesis ::
  "('db, 'v, 'a) storage_externs_scheme \<Rightarrow> alpha_block \<Rightarrow> 'db alpha \<Rightarrow> (alpha_error, unit) result \<times> 'db alpha" where
  "apply_genesis E genesis al =
     (case state_apply E (al_state al) genesis of
        Ok s \<Rightarrow> (Ok (), al\<lparr>al_state := s\<rparr>)
      | _ \<Rightarrow> (Panic, al))"

definition alpha_started ::
  "('db, 'v, 'a) storage_externs_scheme \<Rightarrow> 'db alpha \<Rightarrow> (alpha_error, unit) result \<times> 'db alpha" where
  "alpha_started E al =
     (if \<not> exists_genesis E (al_tree al) then
        (case build_genesis E of
           Ok genesis \<Rightarrow>
             (case accept_genesis E (al_tree al) genesis of
                (Ok _, tree) \<Rightarrow> apply_genesis E genesis (al\<lparr>al_tree := tree\<rparr>)
              | (_, tree) \<Rightarrow> (Panic, al\<lparr>al_tree := tree\<rparr>))
         | _ \<Rightarrow> (Panic, al))
      else
        (case get_genesis E (al_tree al) of
           Ok (_, genesis) \<Rightarrow> apply_genesis E genesis al
         | _ \<Rightarrow> (Panic, al)))"

text \<open>The new router is sent the validator set.\<close>

definition init_router :: "'db alpha \<Rightarrow> node_id hashset \<times> 'db alpha" where
  "init_router al = (alpha_get_validator_set al, al\<lparr>al_has_router := True\<rparr>)"

section \<open>The last accepted block\<close>

record receive_last_accepted_msg =
  rla_last_block_hash :: block_hash
  rla_last_block :: alpha_block
  rla_last_vrf_output :: vrf_output
  rla_last_accepted :: block_hash

definition handle_live_network :: "peer list \<Rightarrow> peer list" where
  "handle_live_network live_peers = map (\<lambda>(i, ip). (i, ip)) live_peers"

definition query_last_accepted ::
  "('db, 'v, 'a) storage_externs_scheme \<Rightarrow> peer list \<Rightarrow> 'db alpha
   \<Rightarrow> (alpha_error, alpha_block \<times> client_request) result" where
  "query_last_accepted E peers al =
     result_bind (unwrap_result (get_last_accepted E (al_tree al))) (\<lambda>(_, last_block).
       Ok (last_block, Fanout peers ReqGetLastAccepted))"

fun last_accepted_hashes :: "response list \<Rightarrow> block_hash list" where
  "last_accepted_hashes [] = []"
| "last_accepted_hashes (r # rs) =
     (case r of RespLastAccepted h \<Rightarrow> h # last_accepted_hashes rs | _ \<Rightarrow> last_accepted_hashes rs)"

text \<open>The loop that counts the hashes. It keeps the counts, the hashes already applied and the notifications.\<close>

fun count_last_accepted ::
  "alpha_block \<Rightarrow> block_hash list \<Rightarrow> (block_hash, nat) hashmap \<Rightarrow> block_hash hashset
   \<Rightarrow> receive_last_accepted_msg list" where
  "count_last_accepted last_block [] occurrences applied = []"
| "count_last_accepted last_block (h # hs) occurrences applied =
     (case hm_get occurrences h of
        Some n \<Rightarrow>
          if h \<notin> set applied then
            (let occurrences' = hm_insert h (n + 1) occurrences in
             if n + 1 \<ge> quorum_threshold then
               \<lparr>rla_last_block_hash = h, rla_last_block = last_block,
                rla_last_vrf_output = ab_vrf_out last_block, rla_last_accepted = h\<rparr>
               # count_last_accepted last_block hs occurrences' (hs_insert h applied)
             else count_last_accepted last_block hs occurrences' applied)
          else count_last_accepted last_block hs occurrences applied
      | None \<Rightarrow> count_last_accepted last_block hs (hm_insert h 0 occurrences) applied)"

definition query_last_accepted_response ::
  "alpha_block \<Rightarrow> client_response option \<Rightarrow> receive_last_accepted_msg list" where
  "query_last_accepted_response last_block res =
     (case res of
        Some (FanoutResponse responses) \<Rightarrow>
          count_last_accepted last_block (last_accepted_hashes responses) [] []
      | _ \<Rightarrow> [])"

section \<open>Handing over the committee\<close>

definition live_cells_map :: "'a externs_scheme \<Rightarrow> state \<Rightarrow> (cell_hash_t, cell) hashmap" where
  "live_cells_map E s = foldl (\<lambda>m (_, c). hm_insert (cell_hash E c) c m) [] (live_cells s)"

definition hail_committee_msg ::
  "receive_last_accepted_msg \<Rightarrow> 'db alpha \<Rightarrow> ice_committee \<Rightarrow> live_committee_msg" where
  "hail_committee_msg msg al cm =
     \<lparr>lc_last_accepted_hash = rla_last_accepted msg,
      lc_last_accepted_block = hail_block_new None (rla_last_block msg),
      lc_height = height (al_state al), lc_self_id = al_node_id al,
      lc_self_staking_capacity = icm_self_staking_capacity cm,
      lc_total_staking_capacity = total_staking_capacity (al_state al),
      lc_validators = icm_hail_validators cm, lc_vrf_out = rla_last_vrf_output msg\<rparr>"

text \<open>
  \<^verbatim>\<open>ReceiveLastAccepted\<close> sends, in this order, the validator set to the router, the validators to
  \<^verbatim>\<open>ice\<close>, and the committees it answers to \<^verbatim>\<open>sleet\<close> and \<^verbatim>\<open>hail\<close>. The result has the
  set for the router and the new states; the other components do not handle anything in between.
\<close>

definition receive_last_accepted ::
  "('db, 'v, 'a) node_externs_scheme \<Rightarrow> receive_last_accepted_msg \<Rightarrow> 'db alpha \<Rightarrow> ice \<Rightarrow> 'db sleet \<Rightarrow> 'db hail
   \<Rightarrow> (alpha_error, node_id hashset option) result \<times> 'db sleet \<times> 'db hail" where
  "receive_last_accepted E msg al st_ice st_sleet st_hail =
     (let vs = alpha_get_validator_set al in
      if rla_last_block_hash msg = rla_last_accepted msg then
        (case ice_live_committee E (validators (al_state al)) st_ice of
           Ok cm \<Rightarrow>
             (case sleet_live_committee E (icm_sleet_validators cm) (live_cells_map E (al_state al)) st_sleet of
                (Ok _, st_sleet', _) \<Rightarrow>
                  (case hail_live_committee E (hail_committee_msg msg al cm) st_hail of
                     (Ok _, st_hail') \<Rightarrow>
                       (Ok (if al_has_router al then Some vs else None), st_sleet', st_hail')
                   | (_, st_hail') \<Rightarrow> (Panic, st_sleet', st_hail'))
              | (_, st_sleet', _) \<Rightarrow> (Panic, st_sleet', st_hail))
         | _ \<Rightarrow> (Panic, st_sleet, st_hail))
      else (Ok None, st_sleet, st_hail))"

section \<open>Queries\<close>

definition get_last_accepted_handler ::
  "('db, 'v, 'a) storage_externs_scheme \<Rightarrow> 'db alpha \<Rightarrow> (alpha_error, block_hash) result" where
  "get_last_accepted_handler E al = unwrap_result (get_last_accepted_hash E (al_tree al))"

definition get_node_status :: "'db alpha \<Rightarrow> ice \<Rightarrow> 'db sleet \<Rightarrow> node_status" where
  "get_node_status al st_ice st_sleet =
     \<lparr>ns_bootstrapped = fst (ice_status st_ice), ns_height = height (al_state al),
      ns_peers = snd (ice_status st_ice), ns_validators = snd (sleet_status st_sleet)\<rparr>"

end
