(* ===== verification/Router.thy ===== *)
theory Router
  imports Alpha
begin

text \<open>
  A whole node from outside: requests come in through the router (\<^verbatim>\<open>src/server/router.rs\<close>), which
  passes each to one component, and requests go out through the client (\<^verbatim>\<open>src/client.rs\<close>).
  Connections are input and output: \<open>connect\<close> is the parameter that opens one.
\<close>

section \<open>The client\<close>

record connection =
  cn_is_tls :: bool
  cn_get_id :: "crate_error + node_id"
  cn_exchange :: "request \<Rightarrow> (crate_error, response option) result"

definition oneshot ::
  "(socket_addr \<Rightarrow> (crate_error, connection) result) \<Rightarrow> node_id \<Rightarrow> socket_addr \<Rightarrow> request
   \<Rightarrow> (crate_error, response option) result" where
  "oneshot connect i ip req =
     result_bind (connect ip) (\<lambda>c.
       if cn_is_tls c then
         (case cn_get_id c of
            Inl _ \<Rightarrow> Err UnexpectedPeerConnected
          | Inr i' \<Rightarrow> if i \<noteq> i' then Err UnexpectedPeerConnected else cn_exchange c req)
       else cn_exchange c req)"

definition err_to_none :: "(crate_error, 'a option) result \<Rightarrow> (crate_error, 'a option) result" where
  "err_to_none x = (case x of Ok r \<Rightarrow> Ok r | Err _ \<Rightarrow> Ok None | Panic \<Rightarrow> Panic)"

text \<open>A task that panics is an error of joining it, and its answer is left out.\<close>

fun fanout ::
  "(socket_addr \<Rightarrow> (crate_error, connection) result) \<Rightarrow> peer list \<Rightarrow> request \<Rightarrow> response list" where
  "fanout connect [] req = []"
| "fanout connect ((i, ip) # ps) req =
     (case err_to_none (oneshot connect i ip req) of
        Ok (Some r) \<Rightarrow> r # fanout connect ps req
      | _ \<Rightarrow> fanout connect ps req)"

definition handle_client_request ::
  "(socket_addr \<Rightarrow> (crate_error, connection) result) \<Rightarrow> client_request \<Rightarrow> (crate_error, client_response) result" where
  "handle_client_request connect msg =
     (case msg of
        Oneshot i ip req \<Rightarrow>
          result_bind (err_to_none (oneshot connect i ip req)) (\<lambda>r. Ok (OneshotResponse r))
      | Fanout peers req \<Rightarrow> Ok (FanoutResponse (fanout connect peers req)))"

section \<open>The router\<close>

record 'db node =
  nd_view :: view
  nd_ice :: ice
  nd_alpha :: "'db alpha"
  nd_sleet :: "'db sleet"
  nd_hail :: "'db hail"
  nd_validators :: "node_id hashset"

definition set_validators :: "node_id hashset \<Rightarrow> 'db node \<Rightarrow> 'db node" where
  "set_validators vs nd = nd\<lparr>nd_validators := vs\<rparr>"

text \<open>The answer comes at once, or when the query of a transaction is resolved.\<close>

datatype routed = Respond response | RespondLater node_id tx_hash_t nat

type_synonym 'db route_out =
  "(crate_error, routed) result \<times> 'db node \<times> sleet_effect list \<times> hail_effect list"

definition answer :: "(crate_error, response) result \<Rightarrow> 'db node \<Rightarrow> 'db route_out" where
  "answer r nd = (result_bind r (\<lambda>x. Ok (Respond x)), nd, [], [])"

definition from_sleet :: "('db, 'a) sleet_out \<Rightarrow> ('a \<Rightarrow> routed) \<Rightarrow> 'db node \<Rightarrow> 'db route_out" where
  "from_sleet p f nd = (case p of
     (r, st, effs) \<Rightarrow> (result_bind (unwrap_result r) (\<lambda>a. Ok (f a)), nd\<lparr>nd_sleet := st\<rparr>, effs, []))"

definition refused :: "node_id \<Rightarrow> bool \<Rightarrow> 'db node \<Rightarrow> bool" where
  "refused peer_id check_peer nd = (check_peer \<and> peer_id \<notin> set (nd_validators nd))"

definition route_query_tx ::
  "('db, 'v, 'a) node_externs_scheme \<Rightarrow> nat \<Rightarrow> query_tx \<Rightarrow> 'db node \<Rightarrow> 'db route_out" where
  "route_query_tx E chan q nd =
     from_sleet (handle_query_tx E chan q (nd_sleet nd))
       (\<lambda>r. case r of ReplyNow a \<Rightarrow> Respond (RespQueryTxAck a) | ReplyLater i h c \<Rightarrow> RespondLater i h c) nd"

definition route_query_block ::
  "('db, 'v, 'a) node_externs_scheme \<Rightarrow> query_block \<Rightarrow> 'db node \<Rightarrow> 'db route_out" where
  "route_query_block E q nd =
     (case handle_query_block E q (nd_hail nd) of
        (r, st, effs) \<Rightarrow>
          (result_bind (unwrap_result r) (\<lambda>a. Ok (Respond (RespQueryBlockAck a))), nd\<lparr>nd_hail := st\<rparr>, [], effs))"

definition route_request ::
  "('db, 'v, 'a) node_externs_scheme \<Rightarrow> nat \<Rightarrow> node_id \<Rightarrow> bool \<Rightarrow> request \<Rightarrow> 'db node \<Rightarrow> 'db route_out option" where
  "route_request E chan peer_id check_peer req nd =
     (case req of
        ReqVersion p \<Rightarrow>
          (case handle_version p (nd_view nd) of
             (a, v) \<Rightarrow> Some (answer (Ok (RespVersionAck a)) (nd\<lparr>nd_view := v\<rparr>)))
      | ReqPing p \<Rightarrow>
          (case handle_ping p (nd_ice nd) of
             (a, st) \<Rightarrow> Some (answer (Ok (RespAck a)) (nd\<lparr>nd_ice := st\<rparr>)))
      | ReqGetLastAccepted \<Rightarrow>
          Some (answer (result_bind (unwrap_result (get_last_accepted_handler E (nd_alpha nd)))
                          (\<lambda>h. Ok (RespLastAccepted h))) nd)
      | ReqGetCellHashes \<Rightarrow> Some (answer (Ok (RespCellHashes (get_cell_hashes (nd_sleet nd)))) nd)
      | ReqGetCell h \<Rightarrow> Some (answer (Ok (RespCellAck (get_cell h (nd_sleet nd)))) nd)
      | ReqGetAcceptedCellHashes \<Rightarrow>
          Some (answer (Ok (RespAcceptedCellHashes (get_accepted_cell_hashes (nd_sleet nd)))) nd)
      | ReqGetAcceptedCell h \<Rightarrow>
          Some (answer (Ok (RespAcceptedCellAck (get_accepted_cell E h (nd_sleet nd)))) nd)
      | ReqGenerateTx c \<Rightarrow>
          Some (from_sleet (generate_tx E c (nd_sleet nd)) (\<lambda>h. Respond (RespGenerateTxAck h)) nd)
      | ReqQueryTx q \<Rightarrow>
          if refused peer_id check_peer nd then Some (answer (Ok RespRequestRefused) nd)
          else Some (route_query_tx E chan q nd)
      | ReqGetTxAncestors h \<Rightarrow>
          if refused peer_id check_peer nd then Some (answer (Ok RespRequestRefused) nd)
          else map_option (\<lambda>r. answer (result_bind (unwrap_result r) (\<lambda>ts. Ok (RespTxAncestors ts))) nd)
                 (get_tx_ancestors E h (nd_sleet nd))
      | ReqGetAcceptedFrontier \<Rightarrow>
          Some (answer (Ok (RespAcceptedFrontier (get_accepted_frontier (nd_sleet nd)))) nd)
      | ReqFetchTx h \<Rightarrow> Some (answer (Ok (RespFetchedTx (fetch_tx E h (nd_sleet nd)))) nd)
      | ReqGetLiveFrontier \<Rightarrow> Some (answer (Ok (RespLiveFrontier (get_live_frontier (nd_sleet nd)))) nd)
      | ReqGetBlock h \<Rightarrow> Some (answer (Ok (RespBlockAck (get_block h (nd_hail nd)))) nd)
      | ReqGetBlockByHeight h \<Rightarrow> Some (answer (Ok (RespBlockAck (get_block_by_height h (nd_hail nd)))) nd)
      | ReqQueryBlock q \<Rightarrow>
          if refused peer_id check_peer nd then Some (answer (Ok RespRequestRefused) nd)
          else Some (route_query_block E q nd)
      | ReqGetNodeStatus \<Rightarrow>
          Some (answer (Ok (RespNodeStatus (get_node_status (nd_alpha nd) (nd_ice nd) (nd_sleet nd)))) nd)
      | ReqGetAncestors \<Rightarrow> Some (answer (Ok RespUnknown) nd))"

end
