(* ===== verification/Transport.thy ===== *)
theory Transport
  imports Messages
begin

text \<open>
  Connections between nodes: \<^verbatim>\<open>src/tls/\<close> and \<^verbatim>\<open>src/channel/asymmetric.rs\<close>. Sockets,
  TLS sessions, certificates, files and the framing of messages are code of other crates and of the
  operating system: they are the fields of \<open>transport_externs\<close>; what the sources rely on are the hypotheses
  \<open>tls_ok\<close> and \<open>certs_ok\<close> of the theorems on nodes. The pass-through of reads and writes to the socket is not modelled.
\<close>

section \<open>The configuration of TLS\<close>

datatype client_cert_verifier = ZfxClientCertVerifier

definition verify_client_cert :: "client_cert_verifier \<Rightarrow> bytes \<Rightarrow> bytes list \<Rightarrow> (string, unit) result" where
  "verify_client_cert v end_entity intermediates = Ok ()"

definition client_auth_root_subjects :: "client_cert_verifier \<Rightarrow> bytes list option" where
  "client_auth_root_subjects v = Some []"

definition offer_client_auth :: "client_cert_verifier \<Rightarrow> bool" where
  "offer_client_auth v = True"

definition client_auth_mandatory :: "client_cert_verifier \<Rightarrow> bool option" where
  "client_auth_mandatory v = Some True"

datatype server_cert_verifier = ZfxServerCertVerifier

definition verify_server_cert :: "server_cert_verifier \<Rightarrow> bytes \<Rightarrow> bytes list \<Rightarrow> (string, unit) result" where
  "verify_server_cert v end_entity intermediates = Ok ()"

record client_config =
  cc_roots :: "bytes list"
  cc_certs :: "bytes list"
  cc_key :: bytes
  cc_verifier :: server_cert_verifier

record server_config =
  sc_certs :: "bytes list"
  sc_key :: bytes
  sc_verifier :: client_cert_verifier

section \<open>Other crates\<close>

type_synonym path = string

record ('tcp, 'tls, 'fs) transport_externs =
  id_hash :: "bytes \<Rightarrow> hash32"
  fmt_addr :: "socket_addr \<Rightarrow> bytes"
  tcp_connect :: "socket_addr \<Rightarrow> string + 'tcp"
  tcp_local_addr :: "'tcp \<Rightarrow> string + socket_addr"
  tcp_peer_addr :: "'tcp \<Rightarrow> string + socket_addr"
  single_cert_ok :: "bytes list \<Rightarrow> bytes \<Rightarrow> bool"
  tls_connect :: "client_config \<Rightarrow> 'tcp \<Rightarrow> string + 'tls"
  tls_accept :: "server_config \<Rightarrow> 'tcp \<Rightarrow> string + 'tls"
  tls_tcp :: "'tls \<Rightarrow> 'tcp"
  tls_peer_certificates :: "'tls \<Rightarrow> bytes list option"
  fs_exists :: "'fs \<Rightarrow> path \<Rightarrow> bool"
  fs_read :: "'fs \<Rightarrow> path \<Rightarrow> string + bytes"
  fs_write :: "'fs \<Rightarrow> path \<Rightarrow> bytes \<Rightarrow> (string + unit) \<times> 'fs"
  fs_parent :: "path \<Rightarrow> path option"
  fs_create_dir_all :: "'fs \<Rightarrow> path \<Rightarrow> (string + unit) \<times> 'fs"
  pem_parse :: "bytes \<Rightarrow> string + bytes"
  pem_encode :: "string \<Rightarrow> bytes \<Rightarrow> bytes"
  x509_from_der :: "bytes \<Rightarrow> string + unit"
  rcgen_key_pair :: "string + bytes"
  rcgen_certificate :: "string list \<Rightarrow> bytes \<Rightarrow> string + (bytes \<times> bytes)"

definition client_tls_config ::
  "('tcp, 'tls, 'fs, 'a) transport_externs_scheme \<Rightarrow> bytes \<Rightarrow> bytes \<Rightarrow> (string, client_config) result" where
  "client_tls_config T raw_certificate raw_private_key =
     (if single_cert_ok T [raw_certificate] raw_private_key then
        Ok \<lparr>cc_roots = [], cc_certs = [raw_certificate], cc_key = raw_private_key, cc_verifier = ZfxServerCertVerifier\<rparr>
      else Panic)"

definition server_tls_config ::
  "('tcp, 'tls, 'fs, 'a) transport_externs_scheme \<Rightarrow> bytes \<Rightarrow> bytes \<Rightarrow> (string, server_config) result" where
  "server_tls_config T raw_certificate raw_private_key =
     (if single_cert_ok T [raw_certificate] raw_private_key then
        Ok \<lparr>sc_certs = [raw_certificate], sc_key = raw_private_key, sc_verifier = ZfxClientCertVerifier\<rparr>
      else Panic)"

section \<open>Connections\<close>

datatype ('tcp, 'tls) connection_stream = Tcp 'tcp | TlsServer 'tls | TlsClient 'tls

definition local_addr ::
  "('tcp, 'tls, 'fs, 'a) transport_externs_scheme \<Rightarrow> ('tcp, 'tls) connection_stream \<Rightarrow> string + socket_addr" where
  "local_addr T s =
     (case s of
        Tcp c \<Rightarrow> tcp_local_addr T c
      | TlsServer c \<Rightarrow> tcp_local_addr T (tls_tcp T c)
      | TlsClient c \<Rightarrow> tcp_local_addr T (tls_tcp T c))"

definition peer_addr ::
  "('tcp, 'tls, 'fs, 'a) transport_externs_scheme \<Rightarrow> ('tcp, 'tls) connection_stream \<Rightarrow> string + socket_addr" where
  "peer_addr T s =
     (case s of
        Tcp c \<Rightarrow> tcp_peer_addr T c
      | TlsServer c \<Rightarrow> tcp_peer_addr T (tls_tcp T c)
      | TlsClient c \<Rightarrow> tcp_peer_addr T (tls_tcp T c))"

definition stream_is_tls :: "('tcp, 'tls) connection_stream \<Rightarrow> bool" where
  "stream_is_tls s = (case s of Tcp _ \<Rightarrow> False | TlsServer _ \<Rightarrow> True | TlsClient _ \<Rightarrow> True)"

definition no_certificate :: string where
  "no_certificate = ''no certificates present in TLS state''"

definition id_from_first_cert ::
  "('tcp, 'tls, 'fs, 'a) transport_externs_scheme \<Rightarrow> bytes list option \<Rightarrow> string + node_id" where
  "id_from_first_cert T certs =
     (case certs of
        Some cs \<Rightarrow> (case cs of [] \<Rightarrow> Inl no_certificate | c # _ \<Rightarrow> Inr (id_new (id_hash T) c))
      | None \<Rightarrow> Inl no_certificate)"

definition id_from_server_connection ::
  "('tcp, 'tls, 'fs, 'a) transport_externs_scheme \<Rightarrow> 'tls \<Rightarrow> string + node_id" where
  "id_from_server_connection T c = id_from_first_cert T (tls_peer_certificates T c)"

definition id_from_client_connection ::
  "('tcp, 'tls, 'fs, 'a) transport_externs_scheme \<Rightarrow> 'tls \<Rightarrow> string + node_id" where
  "id_from_client_connection T c = id_from_first_cert T (tls_peer_certificates T c)"

definition stream_get_id ::
  "('tcp, 'tls, 'fs, 'a) transport_externs_scheme \<Rightarrow> ('tcp, 'tls) connection_stream \<Rightarrow> string + node_id" where
  "stream_get_id T s =
     (case s of
        Tcp c \<Rightarrow> (case tcp_peer_addr T c of
                   Inl e \<Rightarrow> Inl e | Inr ip \<Rightarrow> Inr (id_from_ip (id_hash T) (fmt_addr T) ip))
      | TlsServer c \<Rightarrow> id_from_server_connection T c
      | TlsClient c \<Rightarrow> id_from_client_connection T c)"

section \<open>Upgraders\<close>

datatype upgrader = TcpUpgrader | TlsClientUpgrader client_config | TlsServerUpgrader server_config

definition tcp_upgrade :: "'tcp \<Rightarrow> string + ('tcp, 'tls) connection_stream" where
  "tcp_upgrade conn = Inr (Tcp conn)"

definition tls_client_upgrade ::
  "('tcp, 'tls, 'fs, 'a) transport_externs_scheme \<Rightarrow> client_config \<Rightarrow> 'tcp \<Rightarrow> string + ('tcp, 'tls) connection_stream" where
  "tls_client_upgrade T cfg conn =
     (case tls_connect T cfg conn of Inr s \<Rightarrow> Inr (TlsClient s) | Inl e \<Rightarrow> Inl e)"

definition tls_server_upgrade ::
  "('tcp, 'tls, 'fs, 'a) transport_externs_scheme \<Rightarrow> server_config \<Rightarrow> 'tcp \<Rightarrow> string + ('tcp, 'tls) connection_stream" where
  "tls_server_upgrade T cfg conn =
     (case tls_accept T cfg conn of Inr s \<Rightarrow> Inr (TlsServer s) | Inl e \<Rightarrow> Inl e)"

definition upgrade ::
  "('tcp, 'tls, 'fs, 'a) transport_externs_scheme \<Rightarrow> upgrader \<Rightarrow> 'tcp \<Rightarrow> string + ('tcp, 'tls) connection_stream" where
  "upgrade T u conn =
     (case u of
        TcpUpgrader \<Rightarrow> tcp_upgrade conn
      | TlsClientUpgrader cfg \<Rightarrow> tls_client_upgrade T cfg conn
      | TlsServerUpgrader cfg \<Rightarrow> tls_server_upgrade T cfg conn)"

definition upgrader_is_tls :: "upgrader \<Rightarrow> bool" where
  "upgrader_is_tls u =
     (case u of TcpUpgrader \<Rightarrow> False | TlsClientUpgrader _ \<Rightarrow> True | TlsServerUpgrader _ \<Rightarrow> True)"

definition tls_client_upgrader_new ::
  "('tcp, 'tls, 'fs, 'a) transport_externs_scheme \<Rightarrow> bytes \<Rightarrow> bytes \<Rightarrow> (string, upgrader) result" where
  "tls_client_upgrader_new T cert key =
     result_bind (client_tls_config T cert key) (\<lambda>cfg. Ok (TlsClientUpgrader cfg))"

definition tls_server_upgrader_new ::
  "('tcp, 'tls, 'fs, 'a) transport_externs_scheme \<Rightarrow> bytes \<Rightarrow> bytes \<Rightarrow> (string, upgrader) result" where
  "tls_server_upgrader_new T cert key =
     result_bind (server_tls_config T cert key) (\<lambda>cfg. Ok (TlsServerUpgrader cfg))"

record upgraders =
  up_client :: upgrader
  up_server :: upgrader

definition tls_upgraders ::
  "('tcp, 'tls, 'fs, 'a) transport_externs_scheme \<Rightarrow> bytes \<Rightarrow> bytes \<Rightarrow> (string, upgraders) result" where
  "tls_upgraders T certificate private_key =
     result_bind (tls_client_upgrader_new T certificate private_key) (\<lambda>c.
     result_bind (tls_server_upgrader_new T certificate private_key) (\<lambda>s. Ok \<lparr>up_client = c, up_server = s\<rparr>))"

definition tcp_upgraders :: upgraders where
  "tcp_upgraders = \<lparr>up_client = TcpUpgrader, up_server = TcpUpgrader\<rparr>"

section \<open>Certificates\<close>

datatype cert_error =
    CertIo string
  | CertTryFromString
  | CertificateGen string
  | CertificateRead string
  | CertificateParse string

definition of_sum :: "(string \<Rightarrow> 'e) \<Rightarrow> string + 'a \<Rightarrow> ('e, 'a) result" where
  "of_sum f x = (case x of Inl e \<Rightarrow> Err (f e) | Inr a \<Rightarrow> Ok a)"

definition der_to_pem :: "('tcp, 'tls, 'fs, 'a) transport_externs_scheme \<Rightarrow> bytes \<Rightarrow> string \<Rightarrow> bytes" where
  "der_to_pem T contents tag = pem_encode T tag contents"

definition generate_node_cert ::
  "('tcp, 'tls, 'fs, 'a) transport_externs_scheme \<Rightarrow> (cert_error, bytes \<times> bytes) result" where
  "generate_node_cert T =
     result_bind (of_sum CertificateGen (rcgen_key_pair T)) (\<lambda>key_pair.
       of_sum CertificateGen (rcgen_certificate T [''zfx-node''] key_pair))"

definition load_node_cert ::
  "('tcp, 'tls, 'fs, 'a) transport_externs_scheme \<Rightarrow> path \<Rightarrow> path \<Rightarrow> 'fs \<Rightarrow> (cert_error, bytes \<times> bytes) result" where
  "load_node_cert T cert_file priv_key_file fs =
     result_bind (of_sum CertIo (fs_read T fs cert_file)) (\<lambda>pem_cert.
     result_bind (of_sum CertificateRead (pem_parse T pem_cert)) (\<lambda>cert.
     result_bind (of_sum CertIo (fs_read T fs priv_key_file)) (\<lambda>pem_key.
     result_bind (of_sum CertificateRead (pem_parse T pem_key)) (\<lambda>key.
     result_bind (of_sum CertificateParse (x509_from_der T cert)) (\<lambda>_. Ok (cert, key))))))"

definition create_parent ::
  "('tcp, 'tls, 'fs, 'a) transport_externs_scheme \<Rightarrow> path \<Rightarrow> 'fs \<Rightarrow> (cert_error, unit) result \<times> 'fs" where
  "create_parent T p fs =
     (case fs_parent T p of
        Some d \<Rightarrow> (case fs_create_dir_all T fs d of (Inr _, fs') \<Rightarrow> (Ok (), fs') | (Inl _, fs') \<Rightarrow> (Panic, fs'))
      | None \<Rightarrow> (Ok (), fs))"

definition write_file ::
  "('tcp, 'tls, 'fs, 'a) transport_externs_scheme \<Rightarrow> path \<Rightarrow> bytes \<Rightarrow> 'fs \<Rightarrow> (cert_error, unit) result \<times> 'fs" where
  "write_file T p bs fs = (case fs_write T fs p bs of (r, fs') \<Rightarrow> (of_sum CertIo r, fs'))"

definition get_node_cert ::
  "('tcp, 'tls, 'fs, 'a) transport_externs_scheme \<Rightarrow> path \<Rightarrow> path \<Rightarrow> 'fs
   \<Rightarrow> (cert_error, bytes \<times> bytes) result \<times> 'fs" where
  "get_node_cert T cert_file priv_key_file fs =
     (if fs_exists T fs cert_file \<and> fs_exists T fs priv_key_file
      then (load_node_cert T cert_file priv_key_file fs, fs)
      else
        (case generate_node_cert T of
           Ok (cert, priv_key) \<Rightarrow>
             st_bind (create_parent T cert_file fs) (\<lambda>_ fs1.
             st_bind (create_parent T priv_key_file fs1) (\<lambda>_ fs2.
             st_bind (write_file T cert_file (der_to_pem T cert ''CERTIFICATE'') fs2) (\<lambda>_ fs3.
             st_bind (write_file T priv_key_file (der_to_pem T priv_key ''PRIVATE KEY'') fs3) (\<lambda>_ fs4.
               (Ok (cert, priv_key), fs4)))))
         | Err e \<Rightarrow> (Err e, fs)
         | Panic \<Rightarrow> (Panic, fs)))"

section \<open>Channels\<close>

text \<open>
  A channel owns its socket until it is split. Frames are read and written by the codec crates, as the
  functions \<open>read_frame\<close> and \<open>write_frame\<close>.
\<close>

datatype channel_error = ChannelIO string | ReadError string | WriteError string

record 's channel = ch_socket :: "'s option"

definition channel_wrap :: "'s \<Rightarrow> (channel_error, 's channel) result" where
  "channel_wrap socket = Ok \<lparr>ch_socket = Some socket\<rparr>"

definition channel_split :: "'s channel \<Rightarrow> (channel_error, 's \<times> 's) result \<times> 's channel" where
  "channel_split ch =
     (case ch_socket ch of Some s \<Rightarrow> (Ok (s, s), ch\<lparr>ch_socket := None\<rparr>) | None \<Rightarrow> (Panic, ch))"

definition channel_recv :: "('s \<Rightarrow> string + 'o option) \<Rightarrow> 's \<Rightarrow> (channel_error, 'o option) result" where
  "channel_recv read_frame reader = of_sum ReadError (read_frame reader)"

definition channel_send :: "('s \<Rightarrow> 'i \<Rightarrow> string + unit) \<Rightarrow> 's \<Rightarrow> 'i \<Rightarrow> (channel_error, unit) result" where
  "channel_send write_frame writer item = of_sum WriteError (write_frame writer item)"

definition of_channel_error :: "channel_error \<Rightarrow> crate_error" where
  "of_channel_error e = (case e of ChannelIO s \<Rightarrow> ErrIO s | ReadError s \<Rightarrow> ChannelError s | WriteError s \<Rightarrow> ChannelError s)"

end
