(* ===== verification/Node.thy ===== *)
theory Node
  imports Router Transport
begin

text \<open>
  A node as a process: the client end of a connection (\<^verbatim>\<open>src/client.rs\<close>), the server end
  (\<^verbatim>\<open>src/server/server.rs\<close>) and the start of all components (\<^verbatim>\<open>src/server/node.rs\<close>). Frames of
  requests and responses are read and written by the codec crates, and the resolver and the database are
  opened by the operating system and the crate \<^verbatim>\<open>sled\<close>: fields of \<open>node_transport\<close>.
\<close>

record ('tcp, 'tls, 'fs, 'db) node_transport = "('tcp, 'tls, 'fs) transport_externs" +
  read_request :: "('tcp, 'tls) connection_stream \<Rightarrow> string + request option"
  write_response :: "('tcp, 'tls) connection_stream \<Rightarrow> response \<Rightarrow> string + unit"
  write_request :: "('tcp, 'tls) connection_stream \<Rightarrow> request \<Rightarrow> string + unit"
  read_response :: "('tcp, 'tls) connection_stream \<Rightarrow> request \<Rightarrow> string + response option"
  resolve_addr :: "string \<Rightarrow> socket_addr list option"
  sled_open :: "'fs \<Rightarrow> path \<Rightarrow> (string + 'db) \<times> 'fs"
  file_create_write :: "'fs \<Rightarrow> path \<Rightarrow> string \<Rightarrow> (string + unit) \<times> 'fs"

section \<open>The client end\<close>

text \<open>
  What the client does with an open connection: \<open>cn_exchange\<close> wraps it in a channel, sends the request and
  waits for the answer to it.
\<close>

definition client_exchange ::
  "('tcp, 'tls, 'fs, 'db, 'a) node_transport_scheme \<Rightarrow> ('tcp, 'tls) connection_stream \<Rightarrow> request
   \<Rightarrow> (crate_error, response option) result" where
  "client_exchange T conn req =
     map_err of_channel_error
       (result_bind (channel_wrap conn) (\<lambda>ch.
        result_bind (fst (channel_split ch)) (\<lambda>(sender, receiver).
        result_bind (channel_send (write_request T) sender req) (\<lambda>_.
          channel_recv (\<lambda>s. read_response T s req) receiver))))"

definition client_connect ::
  "('tcp, 'tls, 'fs, 'db, 'a) node_transport_scheme \<Rightarrow> upgrader \<Rightarrow> socket_addr \<Rightarrow> (crate_error, connection) result" where
  "client_connect T u ip =
     result_bind (of_sum ErrIO (tcp_connect T ip)) (\<lambda>socket.
     result_bind (of_sum ErrIO (upgrade T u socket)) (\<lambda>conn.
       Ok \<lparr>cn_is_tls = stream_is_tls conn,
           cn_get_id = (case stream_get_id T conn of Inl e \<Rightarrow> Inl (ErrIO e) | Inr i \<Rightarrow> Inr i),
           cn_exchange = client_exchange T conn\<rparr>))"

section \<open>The server end\<close>

text \<open>A connection is answered, has nothing to answer, or waits for the resolution of a query.\<close>

datatype served = Answered response | Ignored | Waiting node_id tx_hash_t nat

type_synonym 'db served_out = "(crate_error, served) result \<times> 'db node \<times> sleet_effect list \<times> hail_effect list"

definition send_response ::
  "('tcp, 'tls, 'fs, 'db, 'a) node_transport_scheme \<Rightarrow> ('tcp, 'tls) connection_stream \<Rightarrow> response \<Rightarrow> (crate_error, served) result" where
  "send_response T sender r =
     result_bind (unwrap_result (channel_send (write_response T) sender r)) (\<lambda>_. Ok (Answered r))"

definition serve_request ::
  "('tcp, 'tls, 'fs, 'db, 'a) node_transport_scheme \<Rightarrow> ('db, 'v, 'b) node_externs_scheme \<Rightarrow> nat
   \<Rightarrow> node_id \<Rightarrow> bool \<Rightarrow> ('tcp, 'tls) connection_stream \<Rightarrow> request \<Rightarrow> 'db node \<Rightarrow> 'db served_out option" where
  "serve_request T E chan peer_id check_peer sender req nd =
     map_option (\<lambda>(r, nd', e1, e2).
         (case r of
            Ok (Respond resp) \<Rightarrow> send_response T sender resp
          | Ok (RespondLater i h c) \<Rightarrow> Ok (Waiting i h c)
          | _ \<Rightarrow> Panic, nd', e1, e2))
       (route_request E chan peer_id check_peer req nd)"

definition process_stream ::
  "('tcp, 'tls, 'fs, 'db, 'a) node_transport_scheme \<Rightarrow> ('db, 'v, 'b) node_externs_scheme \<Rightarrow> nat
   \<Rightarrow> upgrader \<Rightarrow> 'tcp \<Rightarrow> 'db node \<Rightarrow> 'db served_out option" where
  "process_stream T E chan u stream nd =
     (case upgrade T u stream of
        Inl e \<Rightarrow> Some (Err (ErrIO e), nd, [], [])
      | Inr conn \<Rightarrow>
          (let check_peer = upgrader_is_tls u in
           case stream_get_id T conn of
             Inl _ \<Rightarrow> Some (Panic, nd, [], [])
           | Inr peer_id \<Rightarrow>
               (case result_bind (unwrap_result (channel_wrap conn)) (\<lambda>ch. fst (channel_split ch)) of
                  Ok (sender, receiver) \<Rightarrow>
                    (case channel_recv (read_request T) receiver of
                       Ok (Some req) \<Rightarrow> serve_request T E chan peer_id check_peer sender req nd
                     | Ok None \<Rightarrow> Some (Ok Ignored, nd, [], [])
                     | _ \<Rightarrow> Some (Panic, nd, [], []))
                | _ \<Rightarrow> Some (Panic, nd, [], []))))"

text \<open>The answer to a query that waited.\<close>

definition finish_waiting ::
  "('tcp, 'tls, 'fs, 'db, 'a) node_transport_scheme \<Rightarrow> ('tcp, 'tls) connection_stream \<Rightarrow> node_id \<Rightarrow> tx_hash_t
   \<Rightarrow> channel_event \<Rightarrow> (crate_error, served) result" where
  "finish_waiting T sender i h ev = send_response T sender (RespQueryTxAck (pending_reply i h ev))"

section \<open>Starting a node\<close>

definition parse_peers ::
  "('tcp, 'tls, 'fs, 'db, 'a) node_transport_scheme \<Rightarrow> 'b alpha_externs_scheme \<Rightarrow> string list \<Rightarrow> (crate_error, peer list) result" where
  "parse_peers T E ss =
     foldr (\<lambda>s r. result_bind (unwrap_result (parse_id_and_ip E (id_hash T) (fmt_addr T) (resolve_addr T) s))
                    (\<lambda>p. result_bind r (\<lambda>ps. Ok (p # ps)))) ss (Ok [])"

definition tls_identity ::
  "('tcp, 'tls, 'fs, 'db, 'a) node_transport_scheme \<Rightarrow> path option \<Rightarrow> path option \<Rightarrow> 'fs
   \<Rightarrow> (crate_error, node_id \<times> upgraders) result \<times> 'fs" where
  "tls_identity T cert_path pk_path fs =
     (case (cert_path, pk_path) of
        (Some cp, Some kp) \<Rightarrow>
          (case get_node_cert T cp kp fs of
             (Ok (cert, key), fs1) \<Rightarrow>
               (result_bind (unwrap_result (tls_upgraders T cert key)) (\<lambda>ups. Ok (id_new (id_hash T) cert, ups)), fs1)
           | (_, fs1) \<Rightarrow> (Panic, fs1))
      | _ \<Rightarrow> (Panic, fs))"

definition node_identity ::
  "('tcp, 'tls, 'fs, 'db, 'a) node_transport_scheme \<Rightarrow> bool \<Rightarrow> path option \<Rightarrow> path option \<Rightarrow> node_id option
   \<Rightarrow> socket_addr \<Rightarrow> 'fs \<Rightarrow> (crate_error, node_id \<times> upgraders) result \<times> 'fs" where
  "node_identity T use_tls cert_path pk_path node_id listener_ip fs =
     (if use_tls then tls_identity T cert_path pk_path fs
      else
        (case node_id of
           None \<Rightarrow> (Ok (id_from_ip (id_hash T) (fmt_addr T) listener_ip, tcp_upgraders), fs)
         | Some i \<Rightarrow> (Ok (i, tcp_upgraders), fs)))"

definition hex_digits :: "node_id \<Rightarrow> string" where
  "hex_digits i =
     concat (map (\<lambda>b. [''0123456789abcdef'' ! (unat b div 16), ''0123456789abcdef'' ! (unat b mod 16)]) (id_bytes i))"

definition store_keypair ::
  "('tcp, 'tls, 'fs, 'db, 'a) node_transport_scheme \<Rightarrow> 'b alpha_externs_scheme \<Rightarrow> string option \<Rightarrow> node_id \<Rightarrow> 'fs
   \<Rightarrow> (crate_error, unit) result \<times> 'fs" where
  "store_keypair T E keypair_arg i fs =
     (case keypair_arg of
        None \<Rightarrow> (Panic, fs)
      | Some keypair_hex \<Rightarrow>
          (case fs_create_dir_all T fs (''/tmp/'' @ hex_digits i) of
             (Inl _, fs1) \<Rightarrow> (Panic, fs1)
           | (Inr _, fs1) \<Rightarrow>
               (case file_create_write T fs1 (''/tmp/'' @ hex_digits i @ ''/'' @ hex_digits i @ ''.keypair'') keypair_hex of
                  (Inl _, fs2) \<Rightarrow> (Panic, fs2)
                | (Inr _, fs2) \<Rightarrow>
                    (case hex_decode E keypair_hex of
                       Inl _ \<Rightarrow> (Panic, fs2)
                     | Inr bs \<Rightarrow> (case keypair_from_bytes E bs of Inl _ \<Rightarrow> (Panic, fs2) | Inr _ \<Rightarrow> (Ok (), fs2))))))"

text \<open>The components as \<^verbatim>\<open>run\<close> creates them, before their actors handle a message.\<close>

definition create_components ::
  "('db, 'v, 'b) node_externs_scheme \<Rightarrow> node_id \<Rightarrow> socket_addr \<Rightarrow> peer list \<Rightarrow> 'db \<Rightarrow> 'db node" where
  "create_components E i listener_ip peers tree =
     \<lparr>nd_view = view_init peers (view_new listener_ip i),
      nd_ice = ice_new i listener_ip reservoir_new,
      nd_alpha = alpha_create i tree,
      nd_sleet = sleet_new E i listener_ip peers,
      nd_hail = hail_new E i,
      nd_validators = []\<rparr>"

record node_config =
  nc_ip :: string
  nc_bootstrap_peers :: "string list"
  nc_keypair :: "string option"
  nc_use_tls :: bool
  nc_cert_path :: "path option"
  nc_pk_path :: "path option"
  nc_node_id :: "node_id option"

definition run_node ::
  "('tcp, 'tls, 'fs, 'db, 'a) node_transport_scheme \<Rightarrow> ('db, 'v, 'b) node_externs_scheme \<Rightarrow> node_config \<Rightarrow> 'fs
   \<Rightarrow> (crate_error, upgraders \<times> 'db node) result \<times> 'fs" where
  "run_node T E cfg fs =
     st_bind (map_err (\<lambda>_. ErrPeerParse) (first_address (resolve_addr T) (nc_ip cfg)), fs) (\<lambda>listener_ip fs0.
     st_bind (parse_peers T E (nc_bootstrap_peers cfg), fs0) (\<lambda>peers fs1.
     st_bind (node_identity T (nc_use_tls cfg) (nc_cert_path cfg) (nc_pk_path cfg) (nc_node_id cfg) listener_ip fs1) (\<lambda>(i, ups) fs2.
     st_bind (store_keypair T E (nc_keypair cfg) i fs2) (\<lambda>_ fs3.
       case sled_open T fs3 (''/tmp/'' @ hex_digits i @ ''/alpha.sled'') of
         (Inl _, fs4) \<Rightarrow> (Panic, fs4)
       | (Inr tree, fs4) \<Rightarrow> (Ok (ups, create_components E i listener_ip peers tree), fs4)))))"

text \<open>
  The actors start: the chain applies the genesis block, and the router asks it for the validators.
\<close>

definition start_actors ::
  "('db, 'v, 'b) node_externs_scheme \<Rightarrow> 'db node \<Rightarrow> (crate_error, unit) result \<times> 'db node" where
  "start_actors E nd =
     (case alpha_started E (nd_alpha nd) of
        (Ok _, al) \<Rightarrow>
          (case init_router al of (vs, al') \<Rightarrow> (Ok (), set_validators vs (nd\<lparr>nd_alpha := al'\<rparr>)))
      | (_, al) \<Rightarrow> (Panic, nd\<lparr>nd_alpha := al\<rparr>))"

end
