(* ===== verification/Ice_Theorems.thy ===== *)
theory Ice_Theorems
  imports Ice
begin

text \<open>
  What the liveness protocol guarantees. Every quorum being collected has one vote, so a decision about
  a peer takes the same answer from two different responders; the bootstrapped flag of the actor follows
  the count of the reservoir; and a round of pings ends whatever the peers answer.
\<close>

section \<open>The reservoir\<close>

definition reservoir_ok :: "reservoir \<Rightarrow> bool" where
  "reservoir_ok r \<longleftrightarrow> hm_wf (rs_decisions r) \<and> hm_wf (rs_quorums r) \<and>
     (\<forall>i q. hm_get (rs_quorums r) i = Some q \<longrightarrow> length q = 1)"

lemma reservoir_okI:
  assumes "hm_wf (rs_decisions r)" "hm_wf (rs_quorums r)"
    and "\<And>i q. hm_get (rs_quorums r) i = Some q \<Longrightarrow> length q = 1"
  shows "reservoir_ok r"
  using assms unfolding reservoir_ok_def by blast

lemma reservoir_okD:
  assumes "reservoir_ok r"
  shows "hm_wf (rs_decisions r)" "hm_wf (rs_quorums r)"
    and "hm_get (rs_quorums r) i = Some q \<Longrightarrow> length q = 1"
  using assms unfolding reservoir_ok_def by blast+

lemma reservoir_new_ok: "reservoir_ok reservoir_new"
  by (simp add: reservoir_ok_def reservoir_new_def)

text \<open>Operations that only write decisions or the queue of samples.\<close>

definition same_votes :: "reservoir \<Rightarrow> reservoir \<Rightarrow> bool" where
  "same_votes r r' \<longleftrightarrow> rs_quorums r' = rs_quorums r \<and> rs_nbootstrapped r' = rs_nbootstrapped r \<and>
     (hm_wf (rs_decisions r) \<longrightarrow> hm_wf (rs_decisions r'))"

lemma same_votes_ok: "same_votes r r' \<Longrightarrow> reservoir_ok r \<Longrightarrow> reservoir_ok r'"
  unfolding same_votes_def reservoir_ok_def by simp

lemma same_votes_trans: "same_votes r r1 \<Longrightarrow> same_votes r1 r2 \<Longrightarrow> same_votes r r2"
  unfolding same_votes_def by simp

lemma same_votes_refl [simp]: "same_votes r r"
  unfolding same_votes_def by simp

lemma decision_writes [simp]:
  shows "same_votes r (reservoir_insert r i ip c v)"
    and "same_votes r (reservoir_insert_new r i ip c v)"
    and "same_votes r (set_choice r i c)"
    and "same_votes r (snd (update_choice r i c))"
    and "same_votes r (reset_faulty_decision r i)"
    and "same_votes r (reset_conviction r i)"
    and "same_votes r (r\<lparr>rs_random_queue := q\<rparr>)"
  by (simp_all add: same_votes_def reservoir_insert_def reservoir_insert_new_def set_choice_def
      update_choice_def reset_faulty_decision_def reset_conviction_def split: option.splits choice.splits)

lemma process_queries_votes: "same_votes r (snd (process_queries r self_id qs))"
proof (induction r self_id qs rule: process_queries.induct)
  case (1 r self_id)
  then show ?case by simp
next
  case (2 r self_id q qs)
  obtain out r1 where q: "process_query r self_id q = (out, r1)" by fastforce
  then have "same_votes r r1"
    by (auto simp: process_query_def split: if_splits option.splits choice.splits prod.splits)
  with 2[OF q[symmetric]] q show ?case by (auto split: prod.splits intro: same_votes_trans)
qed

lemma insert_live_votes: "same_votes r (insert_live ps r)"
  by (induction ps r rule: insert_live.induct) (auto intro: same_votes_trans[OF decision_writes(1)])

text \<open>The decision about a peer after two responders voted on it.\<close>

fun voted :: "choice \<Rightarrow> choice \<Rightarrow> decision \<Rightarrow> decision" where
  "voted c0 c (ip, d, n) = (if c0 \<noteq> c then (ip, d, 0) else if d = c then (ip, d, n + 1) else (ip, c, 0))"

lemma quorum_decide_two:
  "a \<noteq> b \<Longrightarrow> quorum_decide (quorum_insert [(a, c0)] b c) = (if c0 = c then Some c else None)"
  by (cases c0; cases c) (auto simp: quorum_decide_def quorum_insert_def quorum_threshold_def ICE_K_def ICE_ALPHA_def)

lemma quorum_thresholds [simp]: "quorum_threshold = 1"
  by (simp add: quorum_threshold_def ICE_K_def ICE_ALPHA_def)

lemma hm_remove_insert: "hm_remove k (hm_insert k v m) = hm_remove k m"
  by (induction m) auto

text \<open>The three cases of an outcome: the first vote, a repeated vote, and the vote that completes a quorum.\<close>

lemma process_outcome_first:
  assumes "hm_get (rs_quorums r) (o_peer_id out) = None"
  shows "process_outcome r responder out =
    (False, r\<lparr>rs_quorums := hm_insert (o_peer_id out) [(responder, o_choice out)] (rs_quorums r)\<rparr>)"
  using assms by (simp add: process_outcome_def process_quorum_def quorum_insert_def quorum_new_def
      quorum_len_def ICE_K_def Let_def)

lemma process_outcome_repeated:
  assumes "hm_get (rs_quorums r) (o_peer_id out) = Some [(responder, c0)]"
  shows "process_outcome r responder out = (False, r)"
  using assms by (simp add: process_outcome_def process_quorum_def quorum_contains_def quorum_len_def ICE_K_def)

lemma process_outcome_second:
  assumes "hm_get (rs_quorums r) (o_peer_id out) = Some [(w, c0)]" "w \<noteq> responder"
    and r': "process_outcome r responder out = (b, r')"
  shows "rs_quorums r' = hm_remove (o_peer_id out) (rs_quorums r)"
    and "hm_get (rs_decisions r') j =
      (if j = o_peer_id out then map_option (voted c0 (o_choice out)) (hm_get (rs_decisions r) j)
       else hm_get (rs_decisions r) j)"
    and "hm_wf (rs_decisions r) \<Longrightarrow> hm_wf (rs_decisions r')"
proof -
  let ?i = "o_peer_id out" and ?c = "o_choice out"
  let ?q = "quorum_insert [(w, c0)] responder ?c"
  let ?r1 = "r\<lparr>rs_quorums := hm_insert ?i ?q (rs_quorums r)\<rparr>"
  have "process_quorum r responder ?i ?c = (?q, ?r1)"
    using assms(1,2) by (simp add: process_quorum_def quorum_contains_def Let_def)
  moreover have "quorum_len ?q \<ge> ICE_K" using assms(2) by (simp add: quorum_len_def quorum_insert_def ICE_K_def)
  ultimately have r'_eq: "r' = snd (process_decision ?r1 ?i ?q)"
    using r' by (auto simp: process_outcome_def split: prod.splits if_splits)
  note defs = process_decision_def quorum_decide_two[OF assms(2)] reset_conviction_def Let_def
  show "rs_quorums r' = hm_remove ?i (rs_quorums r)"
    unfolding r'_eq defs by (auto simp: hm_remove_insert split: option.splits)
  show "hm_get (rs_decisions r') j = (if j = ?i then map_option (voted c0 ?c) (hm_get (rs_decisions r) j)
      else hm_get (rs_decisions r) j)"
    unfolding r'_eq defs by (auto split: option.splits)
  show "hm_wf (rs_decisions r')" if "hm_wf (rs_decisions r)"
    unfolding r'_eq defs using that by (auto split: option.splits)
qed

text \<open>A peer's decision changes only when a second responder completes the quorum on it.\<close>

lemma process_outcome_spec:
  assumes ok: "reservoir_ok r" and r': "process_outcome r responder out = (b, r')"
  shows "reservoir_ok r'"
    and "hm_get (rs_decisions r') j = hm_get (rs_decisions r) j \<or>
      (\<exists>w c0. j = o_peer_id out \<and> hm_get (rs_quorums r) j = Some [(w, c0)] \<and> w \<noteq> responder \<and>
         hm_get (rs_decisions r') j = map_option (voted c0 (o_choice out)) (hm_get (rs_decisions r) j))"
proof -
  let ?i = "o_peer_id out"
  note wf = reservoir_okD(1,2)[OF ok] and one = reservoir_okD(3)[OF ok]
  consider "hm_get (rs_quorums r) ?i = None"
    | w c0 where "hm_get (rs_quorums r) ?i = Some [(w, c0)]"
    using one[of ?i] by (cases "hm_get (rs_quorums r) ?i") (auto simp: length_Suc_conv)
  then have "reservoir_ok r' \<and> (hm_get (rs_decisions r') j = hm_get (rs_decisions r) j \<or>
      (\<exists>w c0. j = ?i \<and> hm_get (rs_quorums r) j = Some [(w, c0)] \<and> w \<noteq> responder \<and>
         hm_get (rs_decisions r') j = map_option (voted c0 (o_choice out)) (hm_get (rs_decisions r) j)))"
  proof cases
    case 1
    then have "r' = r\<lparr>rs_quorums := hm_insert ?i [(responder, o_choice out)] (rs_quorums r)\<rparr>"
      using r' process_outcome_first by simp
    then show ?thesis using wf one by (auto intro!: reservoir_okI split: if_splits)
  next
    case (2 w c0)
    show ?thesis
    proof (cases "w = responder")
      case True
      then have "r' = r" using 2 r' process_outcome_repeated by simp
      with ok show ?thesis by simp
    next
      case False
      note second = process_outcome_second[OF 2 False r']
      have "reservoir_ok r'" using wf one second(1,3) by (auto intro!: reservoir_okI split: if_splits)
      with 2 False second(2)[of j] show ?thesis by auto
    qed
  qed
  then show "reservoir_ok r'"
    and "hm_get (rs_decisions r') j = hm_get (rs_decisions r) j \<or>
      (\<exists>w c0. j = o_peer_id out \<and> hm_get (rs_quorums r) j = Some [(w, c0)] \<and> w \<noteq> responder \<and>
         hm_get (rs_decisions r') j = map_option (voted c0 (o_choice out)) (hm_get (rs_decisions r) j))"
    by blast+
qed

lemma process_outcomes_ok:
  "reservoir_ok r \<Longrightarrow> reservoir_ok (snd (process_outcomes r responder outs ch))"
proof (induction r responder outs ch rule: process_outcomes.induct)
  case (2 r responder out outs ch)
  obtain b r1 where o: "process_outcome r responder out = (b, r1)" by fastforce
  show ?case using 2(1)[OF o[symmetric] process_outcome_spec(1)[OF 2(2) o]] o by simp
qed simp

lemma reservoir_fill_ok:
  assumes "reservoir_ok r" "reservoir_fill r responder outs = ((b, f), r')"
  shows "reservoir_ok r'" "b \<longleftrightarrow> ICE_K \<le> rs_nbootstrapped r'"
proof -
  have "reservoir_ok (reset_faulty_decision r responder)"
    by (rule same_votes_ok[OF decision_writes(5) assms(1)])
  from process_outcomes_ok[OF this, of responder outs False] assms(2)
  show "reservoir_ok r'" "b \<longleftrightarrow> ICE_K \<le> rs_nbootstrapped r'"
    by (auto simp: reservoir_fill_def split: prod.splits)
qed

section \<open>The actor\<close>

definition ice_ok :: "ice \<Rightarrow> bool" where
  "ice_ok st \<longleftrightarrow> reservoir_ok (ic_reservoir st) \<and>
     (ic_bootstrapped st \<longleftrightarrow> ICE_K \<le> rs_nbootstrapped (ic_reservoir st))"

lemma ice_ok_votes:
  "ice_ok st \<Longrightarrow> same_votes (ic_reservoir st) r \<Longrightarrow> ice_ok (st\<lparr>ic_reservoir := r\<rparr>)"
  using same_votes_ok unfolding ice_ok_def by (auto simp: same_votes_def)

lemma handle_ping_ok: "ice_ok st \<Longrightarrow> ice_ok (snd (handle_ping p st))"
  using process_queries_votes[of "ic_reservoir st" "ic_id st" "ping_queries p"]
  by (auto simp: handle_ping_def ice_ok_votes split: prod.splits)

lemma ice_bootstrap_ok: "ice_ok st \<Longrightarrow> ice_ok (snd (ice_bootstrap ps st))"
  by (simp add: ice_bootstrap_def ice_ok_votes insert_live_votes)

lemma reservoir_sample_votes:
  "reservoir_sample rng r = Some (s, r') \<Longrightarrow> same_votes r r'"
  by (auto simp: reservoir_sample_def split: if_splits)

lemma sample_queries_ok:
  assumes "ice_ok st" "sample_queries rng p st = Some (qs, st')"
  shows "ice_ok st'"
proof -
  let ?r = "reservoir_insert_new (ic_reservoir st) (fst p) (snd p) Live 0"
  have "\<exists>r'. st' = st\<lparr>ic_reservoir := r'\<rparr> \<and> same_votes ?r r'"
    using assms(2) by (auto simp: sample_queries_def Let_def split: if_splits dest: reservoir_sample_votes)
  then show ?thesis using assms(1) ice_ok_votes same_votes_trans[OF decision_writes(2)] by blast
qed

lemma ping_success_ok:
  assumes "ice_ok st"
  shows "ice_ok (snd (ping_success a st))"
proof -
  obtain b f r where f: "reservoir_fill (ic_reservoir st) (ack_id a) (ack_outcomes a) = ((b, f), r)"
    by (metis prod.exhaust)
  from reservoir_fill_ok[OF _ f] assms show ?thesis by (auto simp: ping_success_def f Let_def ice_ok_def)
qed

lemma ping_failure_ok: "ice_ok st \<Longrightarrow> ice_ok (snd (ping_failure i st))"
  using ice_ok_votes[OF _ decision_writes(4)[of "ic_reservoir st" i Faulty]]
  by (simp add: ping_failure_def split_def)

text \<open>What can happen to the actor: it is pinged, bootstrapped, or takes part in a round of its own.\<close>

inductive ice_step :: "ice \<Rightarrow> ice \<Rightarrow> bool" where
  step_ping: "ice_step st (snd (handle_ping p st))"
| step_bootstrap: "ice_step st (snd (ice_bootstrap ps st))"
| step_sample: "sample_queries rng p st = Some (qs, st') \<Longrightarrow> ice_step st st'"
| step_success: "ice_step st (snd (ping_success a st))"
| step_failure: "ice_step st (snd (ping_failure i st))"

lemma ice_step_ok: "ice_step st st' \<Longrightarrow> ice_ok st \<Longrightarrow> ice_ok st'"
  by (induction rule: ice_step.induct)
     (simp_all add: handle_ping_ok ice_bootstrap_ok sample_queries_ok ping_success_ok ping_failure_ok)

lemma ice_new_ok: "ice_ok (ice_new i ip reservoir_new)"
  by (simp add: ice_ok_def ice_new_def reservoir_new_ok) (simp add: reservoir_new_def ICE_K_def)

lemma ice_steps_ok: "ice_step\<^sup>*\<^sup>* st st' \<Longrightarrow> ice_ok st \<Longrightarrow> ice_ok st'"
  by (induction rule: rtranclp_induct) (auto intro: ice_step_ok)


section \<open>Rounds\<close>

lemma foldl_insert_length: "length (foldl (\<lambda>m (i, e). hm_insert i e m) m s) \<le> length m + length s"
proof (induction s arbitrary: m)
  case (Cons x s)
  from Cons.IH[of "hm_insert (fst x) (snd x) m"] show ?case
    by (simp add: split_def hm_insert_length split: if_splits)
qed simp

lemma reservoir_sample_total:
  assumes "shuffles rng"
  shows "\<exists>s r'. reservoir_sample rng r = Some (s, r') \<and> length s \<le> ICE_K"
proof (cases "rs_decisions r = []")
  case False
  obtain s q where d: "draw rng (undecided r) 0 ICE_K (rs_random_queue r) [] = Some (s, q)"
    and len: "length s \<le> ICE_K"
    using draw_total[OF assms, of "undecided r" 0 ICE_K "rs_random_queue r" "[]"] by (auto split: if_splits)
  from foldl_insert_length[of "[]" s] len have "length (foldl (\<lambda>m (i, e). hm_insert i e m) [] s) \<le> ICE_K" by simp
  with d False show ?thesis by (simp add: reservoir_sample_def)
qed (simp add: reservoir_sample_def)

lemma sample_queries_total:
  assumes "shuffles rng"
  shows "\<exists>qs st'. sample_queries rng p st = Some (qs, st') \<and> length qs \<le> ICE_K"
proof -
  let ?r = "reservoir_insert_new (ic_reservoir st) (fst p) (snd p) Live 0"
  obtain s r' where "reservoir_sample rng ?r = Some (s, r')" "length s \<le> ICE_K"
    using reservoir_sample_total[OF assms] by blast
  then show ?thesis by (auto simp: sample_queries_def Let_def)
qed

lemma run_peer_total:
  assumes "shuffles rng"
  shows "\<exists>evs st'. run_peer self_id rng ans rumours p st = Some (evs, st') \<and> ice_step\<^sup>*\<^sup>* st st' \<and> length evs \<le> 1"
proof -
  obtain qs st1 where q: "sample_queries rng p st = Some (qs, st1)"
    using sample_queries_total[OF assms] by blast
  have one: "ice_step st st1" by (rule step_sample[OF q])
  let ?out = "case do_ping_response (ans (do_ping self_id p qs rumours)) of
      Ok a \<Rightarrow> send_ping_success self_id a st1 | _ \<Rightarrow> send_ping_failure (fst p) st1"
  have "\<exists>evs st'. ?out = (evs, st') \<and> ice_step st1 st' \<and> length evs \<le> 1"
    using step_success[of st1] step_failure[of st1]
    by (auto simp: send_ping_success_def send_ping_failure_def split_def split: result.splits)
  with one show ?thesis unfolding run_peer_def q by (auto intro: converse_rtranclp_into_rtranclp)
qed

lemma run_peers_total:
  assumes "shuffles rng"
  shows "\<exists>evs' st'. run_peers self_id rng ans rumours ps evs st = Some (evs @ evs', st') \<and>
    ice_step\<^sup>*\<^sup>* st st' \<and> length evs' \<le> length ps"
proof (induction ps arbitrary: evs st)
  case Nil
  show ?case by simp
next
  case (Cons p ps)
  obtain e st1 where p: "run_peer self_id rng ans (rumours p) p st = Some (e, st1)" "ice_step\<^sup>*\<^sup>* st st1" "length e \<le> 1"
    using run_peer_total[OF assms] by blast
  obtain e' st' where "run_peers self_id rng ans rumours ps (evs @ e) st1 = Some ((evs @ e) @ e', st')"
    "ice_step\<^sup>*\<^sup>* st1 st'" "length e' \<le> length ps" using Cons.IH by blast
  with p show ?case by (auto intro!: exI[of _ "e @ e'"] intro: rtranclp_trans)
qed

lemma sample_k_total:
  assumes "shuffles rng"
  shows "\<exists>s m. sample_k rng k v = Some (s, v\<lparr>vw_peers := (vw_peers v)\<lparr>sm_queue := m\<rparr>\<rparr>) \<and>
    length s = (if length (sm_map (vw_peers v)) \<ge> k then k else 0) \<and>
    set s \<subseteq> set (sm_map (vw_peers v)) \<union> set (sm_queue (vw_peers v)) \<and>
    set m \<subseteq> set (sm_map (vw_peers v)) \<union> set (sm_queue (vw_peers v))"
proof (cases "length (sm_map (vw_peers v)) \<ge> k")
  case True
  obtain s q where d: "draw rng (next_queue (vw_peers v)) 0 k (sm_queue (vw_peers v)) [] = Some (s, q)"
    "length s = (if next_queue (vw_peers v) = [] then min k (length (sm_queue (vw_peers v))) else k)"
    "set s \<subseteq> set (sm_queue (vw_peers v)) \<union> set (next_queue (vw_peers v))"
    "set q \<subseteq> set (sm_queue (vw_peers v)) \<union> set (next_queue (vw_peers v))"
    using draw_total[OF assms, of "next_queue (vw_peers v)" 0 k "sm_queue (vw_peers v)" "[]"] by auto
  have nq: "next_queue (vw_peers v) = sm_map (vw_peers v)" by (simp add: next_queue_def)
  have "length s = k" using d(2) True unfolding nq by auto
  with d True show ?thesis unfolding nq by (auto simp: sample_k_def sm_sample_def nq intro!: exI[of _ q])
next
  case False
  then show ?thesis by (intro exI[of _ "[]"] exI[of _ "sm_queue (vw_peers v)"]) (simp add: sample_k_def)
qed

section \<open>The view\<close>

definition view_ok :: "view \<Rightarrow> bool" where
  "view_ok v \<longleftrightarrow> hm_wf (sm_map (vw_peers v)) \<and> vw_node_id v \<notin> hm_keys (sm_map (vw_peers v)) \<and>
     distinct (vw_peer_list v) \<and> length (vw_peer_list v) \<le> PEER_LIST_MAX \<and>
     fst ` set (vw_peer_list v) \<subseteq> hm_keys (sm_map (vw_peers v))"

lemma view_insert_ok:
  "view_ok v \<Longrightarrow> i \<noteq> vw_node_id v \<Longrightarrow> view_ok (view_insert v i ip)"
  by (auto simp: view_ok_def view_insert_def)

lemma remember_peer_ok:
  "view_ok v \<Longrightarrow> fst p \<in> hm_keys (sm_map (vw_peers v)) \<Longrightarrow> view_ok (remember_peer v p)"
  by (auto simp: view_ok_def remember_peer_def hs_insert_def)

lemma view_insert_fields [simp]:
  "vw_node_id (view_insert v i ip) = vw_node_id v" "vw_ip (view_insert v i ip) = vw_ip v"
  "sm_map (vw_peers (view_insert v i ip)) = hm_insert i ip (sm_map (vw_peers v))"
  by (simp_all add: view_insert_def)

lemma remember_peer_fields [simp]:
  "vw_node_id (remember_peer v p) = vw_node_id v" "vw_ip (remember_peer v p) = vw_ip v"
  "vw_peers (remember_peer v p) = vw_peers v"
  by (simp_all add: remember_peer_def)

lemma view_init_ok:
  "view_ok v \<Longrightarrow> vw_node_id v \<notin> fst ` set ps \<Longrightarrow>
   view_ok (view_init ps v) \<and> vw_node_id (view_init ps v) = vw_node_id v"
  by (induction ps v rule: view_init.induct) (auto simp: remember_peer_ok view_insert_ok)

lemma insert_update_ok:
  assumes "view_ok v" "insert_update v i ip = (b, v')"
  shows "view_ok v' \<and> vw_node_id v' = vw_node_id v \<and>
    (b \<longleftrightarrow> i \<noteq> vw_node_id v \<and> i \<notin> hm_keys (sm_map (vw_peers v))) \<and>
    hm_get (sm_map (vw_peers v')) = (if i = vw_node_id v then hm_get (sm_map (vw_peers v))
      else (hm_get (sm_map (vw_peers v)))(i \<mapsto> ip))"
  using assms view_insert_ok[OF assms(1), of i ip]
  by (auto simp: insert_update_def Let_def remember_peer_ok hm_get_None_iff dest: hm_get_Some_keys
      split: if_splits option.splits)

lemma update_all_ok:
  "view_ok v \<Longrightarrow> view_ok (snd (update_all ps us v)) \<and> vw_node_id (snd (update_all ps us v)) = vw_node_id v"
proof (induction ps us v rule: update_all.induct)
  case (2 i ip ps us v)
  obtain b v1 where u: "insert_update v i ip = (b, v1)" by fastforce
  from insert_update_ok[OF 2(2) u] 2(1)[OF u[symmetric]] show ?case by (simp add: u)
qed simp

lemma update_from_responses_ok:
  "view_ok v \<Longrightarrow> view_ok (snd (update_from_responses rs us v)) \<and>
   vw_node_id (snd (update_from_responses rs us v)) = vw_node_id v"
proof (induction rs arbitrary: us v)
  case (Cons r rs)
  show ?case
  proof (cases r)
    case (RespVersionAck a)
    obtain us1 v1 where u: "update_all ((va_id a, va_ip a) # va_peer_list a) us v = (us1, v1)" by fastforce
    have "view_ok v1 \<and> vw_node_id v1 = vw_node_id v"
      using update_all_ok[OF Cons.prems, of "(va_id a, va_ip a) # va_peer_list a" us] unfolding u by simp
    with Cons.IH[of v1 us1] show ?thesis unfolding RespVersionAck update_from_responses.simps response.case u by simp
  qed (use Cons in simp_all)
qed simp

inductive view_step :: "view \<Rightarrow> view \<Rightarrow> bool" where
  step_version: "view_step v (snd (handle_version p v))"
| step_update: "view_step v (snd (update_peers responses v))"
| step_sample_k: "shuffles rng \<Longrightarrow> sample_k rng k v = Some (s, v') \<Longrightarrow> view_step v v'"

lemma view_step_ok: "view_step v v' \<Longrightarrow> view_ok v \<Longrightarrow> view_ok v' \<and> vw_node_id v' = vw_node_id v"
proof (induction rule: view_step.induct)
  case (step_version v p)
  obtain b v1 where u: "insert_update v (fst p) (snd p) = (b, v1)" by fastforce
  from insert_update_ok[OF step_version u] show ?case by (simp add: handle_version_def u)
next
  case (step_update v responses)
  from update_from_responses_ok[OF step_update, of responses "[]"] show ?case
    by (simp add: update_peers_def split_def)
next
  case (step_sample_k rng k v s v')
  then obtain m where "v' = v\<lparr>vw_peers := (vw_peers v)\<lparr>sm_queue := m\<rparr>\<rparr>"
    using sample_k_total[OF step_sample_k(1), of k v] by auto
  with step_sample_k(3) show ?case by (simp add: view_ok_def)
qed

lemma view_new_ok: "view_ok (view_new ip i)"
  by (simp add: view_ok_def view_new_def sampleable_map_new_def)

lemma view_steps_ok: "view_step\<^sup>*\<^sup>* v v' \<Longrightarrow> view_ok v \<Longrightarrow> view_ok v' \<and> vw_node_id v' = vw_node_id v"
  by (induction rule: rtranclp_induct) (auto dest: view_step_ok)

section \<open>Properties\<close>

definition ip_of :: "u8 \<Rightarrow> socket_addr" where
  "ip_of n = ([10, 0, 0, n], 7000)"

definition fresh_ice :: ice where
  "fresh_ice = ice_new 0 (ip_of 0) reservoir_new"

text \<open>
  In every state the liveness actor can reach, each peer has one decision, each quorum being collected
  has one vote, and the actor counts as bootstrapped exactly when the reservoir counts two confirmations.
\<close>

theorem ice_run_ok:
  assumes "ice_step\<^sup>*\<^sup>* (ice_new i ip reservoir_new) st"
  shows "ice_ok st"
  using assms ice_new_ok by (rule ice_steps_ok)

theorem ice_run_ok_witness:
  "ice_ok (snd (ice_bootstrap [(1, ip_of 1)] fresh_ice)) \<and>
   get_decision (ic_reservoir (snd (ice_bootstrap [(1, ip_of 1)] fresh_ice))) 1 = Some (ip_of 1, Live, 0)"
  using ice_run_ok[of 0 "ip_of 0" "snd (ice_bootstrap [(1, ip_of 1)] fresh_ice)"] step_bootstrap
  by (simp add: fresh_ice_def r_into_rtranclp)
     (simp add: ice_new_def ice_bootstrap_def reservoir_insert_def get_decision_def reservoir_new_def)




text \<open>
  A failed ping is never reported to the chain: in every reachable state it leaves the number of
  confirmations as it is, so the check for a lost bootstrap does not succeed, whichever peer fails.
\<close>

theorem ping_failure_is_silent:
  assumes "ice_step\<^sup>*\<^sup>* (ice_new i ip reservoir_new) st"
  shows "fst (send_ping_failure j st) = []"
  using ice_steps_ok[OF assms ice_new_ok]
  by (auto simp: ice_ok_def send_ping_failure_def ping_failure_def update_choice_def)

text \<open>Two peers confirm a third one to a node until the node is bootstrapped.\<close>

fun confirming :: "client_request \<Rightarrow> client_response option" where
  "confirming (Oneshot i ip req) = Some (OneshotResponse (Some (RespAck \<lparr>ack_id = i, ack_outcomes = [outcome_new 1 Live]\<rparr>)))"
| "confirming (Fanout ps req) = None"

definition confirmed_rounds :: "nat \<Rightarrow> (network_event list \<times> ice) option" where
  "confirmed_rounds n =
     run_peers 0 (\<lambda>_ xs. xs) confirming (\<lambda>_. []) (concat (replicate n [(2, ip_of 2), (3, ip_of 3)])) []
       (snd (ice_bootstrap [(1, ip_of 1)] fresh_ice))"

definition bootstrapped_ice :: ice where
  "bootstrapped_ice =
     \<lparr>ic_id = 0, ic_ip = ip_of 0,
      ic_reservoir =
        \<lparr>rs_quorums = [],
         rs_decisions = [(1, ip_of 1, Live, 4), (2, ip_of 2, Live, 0), (3, ip_of 3, Live, 0)],
         rs_random_queue = [], rs_nbootstrapped = 2\<rparr>,
      ic_bootstrapped = True\<rparr>"

lemma bootstrapped_ice_reached:
  "confirmed_rounds 4 = Some ([LiveNetwork 0 [(1, ip_of 1)]], bootstrapped_ice)"
  "ice_step\<^sup>*\<^sup>* (ice_new 0 (ip_of 0) reservoir_new) bootstrapped_ice"
proof -
  show run: "confirmed_rounds 4 = Some ([LiveNetwork 0 [(1, ip_of 1)]], bootstrapped_ice)" by code_simp
  have "shuffles (\<lambda>_ xs. xs)" by (simp add: shuffles_def)
  from run_peers_total[OF this] obtain evs st where
    "confirmed_rounds 4 = Some ([] @ evs, st)" "ice_step\<^sup>*\<^sup>* (snd (ice_bootstrap [(1, ip_of 1)] fresh_ice)) st"
    unfolding confirmed_rounds_def by blast
  with run have "ice_step\<^sup>*\<^sup>* (snd (ice_bootstrap [(1, ip_of 1)] fresh_ice)) bootstrapped_ice" by simp
  then show "ice_step\<^sup>*\<^sup>* (ice_new 0 (ip_of 0) reservoir_new) bootstrapped_ice"
    using step_bootstrap[of fresh_ice "[(1, ip_of 1)]"]
    unfolding fresh_ice_def[symmetric] by (rule converse_rtranclp_into_rtranclp[rotated])
qed

theorem ping_failure_is_silent_witness:
  "ic_bootstrapped bootstrapped_ice \<and> ice_get_live_peers bootstrapped_ice = [(1, ip_of 1)] \<and>
   ice_get_live_peers (snd (send_ping_failure 1 bootstrapped_ice)) = [] \<and>
   fst (send_ping_failure 1 bootstrapped_ice) = []"
proof -
  have "ic_bootstrapped bootstrapped_ice" "ice_get_live_peers bootstrapped_ice = [(1, ip_of 1)]"
    "ice_get_live_peers (snd (send_ping_failure 1 bootstrapped_ice)) = []" by code_simp+
  with ping_failure_is_silent[OF bootstrapped_ice_reached(2), of 1] show ?thesis by simp
qed

text \<open>
  One live peer is enough to bootstrap: the count of confirmations, which \<^verbatim>\<open>update_choice\<close>
  documents as the number of decided entries, goes up with every further confirmation of the same peer.
\<close>

lemma one_peer_bootstraps_node:
  "confirmed_rounds 4 = Some ([LiveNetwork 0 [(1, ip_of 1)]], bootstrapped_ice) \<and>
   rs_nbootstrapped (ic_reservoir bootstrapped_ice) = ICE_K \<and>
   length (ice_get_live_peers bootstrapped_ice) = 1"
proof -
  have "rs_nbootstrapped (ic_reservoir bootstrapped_ice) = ICE_K"
    "length (ice_get_live_peers bootstrapped_ice) = 1" by code_simp+
  with bootstrapped_ice_reached(1) show ?thesis by simp
qed


definition known_view :: view where
  "known_view = view_init [(2, ip_of 2), (3, ip_of 3)] (view_new (ip_of 0) 0)"


text \<open>
  However the view of a node is used after its start, it never lists the node itself, has one address
  per peer, and offers other nodes at most three peers, all of them known.
\<close>

theorem view_run_ok:
  assumes "i \<notin> fst ` set ps" "view_step\<^sup>*\<^sup>* (view_init ps (view_new ip i)) v"
  shows "view_ok v \<and> vw_node_id v = i"
proof -
  have "vw_node_id (view_new ip i) = i" by (simp add: view_new_def)
  with view_init_ok[OF view_new_ok, of ip i ps] assms(1) view_steps_ok[OF assms(2)] show ?thesis by simp
qed

theorem view_run_ok_witness:
  "view_ok (snd (handle_version (4, ip_of 4) known_view)) \<and>
   vw_peer_list (snd (handle_version (4, ip_of 4) known_view)) = [(2, ip_of 2), (3, ip_of 3), (4, ip_of 4)]"
proof -
  have "view_step\<^sup>*\<^sup>* known_view (snd (handle_version (4, ip_of 4) known_view))"
    by (rule r_into_rtranclp) (rule step_version)
  moreover have "vw_peer_list (snd (handle_version (4, ip_of 4) known_view)) =
    [(2, ip_of 2), (3, ip_of 3), (4, ip_of 4)]" by code_simp
  ultimately show ?thesis
    using view_run_ok[of 0 "[(2, ip_of 2), (3, ip_of 3)]" "ip_of 0" "snd (handle_version (4, ip_of 4) known_view)"]
    by (simp add: known_view_def)
qed

text \<open>
  The queue of a sampleable map survives between samples: with three peers and samples of two, the second
  sample can have the same peer twice.
\<close>

lemma sample_repeats_peer:
  "map_option fst (Option.bind (sm_sample (\<lambda>n xs. rev xs) 2 \<lparr>sm_map = [(1, ip_of 1), (2, ip_of 2), (3, ip_of 3)], sm_queue = []\<rparr>)
     (\<lambda>(_, m). sm_sample (\<lambda>n xs. xs) 2 m)) = Some [(3::node_id, ip_of 3), (3, ip_of 3)]"
  by code_simp

end
