(* ===== verification/Node_Safety.thy ===== *)
theory Node_Safety
  imports Node Sleet_Run Hail_Safety Ice_Theorems
begin

text \<open>
  How the components of a node fit together: the committee that \<^verbatim>\<open>ice\<close> hands to
  \<^verbatim>\<open>sleet\<close> and the one that \<^verbatim>\<open>hail\<close> computes, the vote on the last accepted block, a
  restart of the chain, what a request from outside can do to a node, and who a node talks to.
\<close>

section \<open>The committees\<close>

text \<open>The live validators other than the node itself, and their stake together with its own.\<close>

definition live_others :: "ice \<Rightarrow> (node_id \<times> u64) list \<Rightarrow> (node_id \<times> socket_addr \<times> u64) list" where
  "live_others st vs =
     map (\<lambda>(i, a). (i, the (get_live_endpoint (ic_reservoir st) i), a))
       (filter (\<lambda>(i, a). i \<noteq> ic_id st \<and> get_live_endpoint (ic_reservoir st) i \<noteq> None) vs)"

definition live_total :: "ice \<Rightarrow> (node_id \<times> u64) list \<Rightarrow> u64" where
  "live_total st vs =
     sum_list (map snd (filter (\<lambda>(i, a). i = ic_id st \<or> get_live_endpoint (ic_reservoir st) i \<noteq> None) vs))"

lemma live_others_simps [simp]:
  "live_others st [] = []"
  "live_others st ((i, a) # vs) =
     (if i = ic_id st then live_others st vs
      else case get_live_endpoint (ic_reservoir st) i of
        Some ip \<Rightarrow> (i, ip, a) # live_others st vs | None \<Rightarrow> live_others st vs)"
  by (auto simp: live_others_def split: option.splits)

lemma live_others_keys: "fst ` set (live_others st vs) \<subseteq> fst ` set vs - {ic_id st}"
  by (force simp: live_others_def)

lemma live_others_distinct: "distinct (map fst vs) \<Longrightarrow> distinct (map fst (live_others st vs))"
  unfolding live_others_def by (simp add: split_def comp_def distinct_map_filter)

lemma hm_insert_fresh: "k \<notin> hm_keys m \<Longrightarrow> hm_insert k v m = m @ [(k, v)]"
  by (induction m) auto

text \<open>The stake of a node: the last entry for it.\<close>

lemma live_stake_spec:
  "distinct (map fst vs) \<Longrightarrow> fst ` set ms \<inter> fst ` set vs = {} \<Longrightarrow>
   live_stake st vs sc tot ms =
     (case hm_get vs (ic_id st) of Some a \<Rightarrow> Some a | None \<Rightarrow> sc, tot + live_total st vs, ms @ live_others st vs)"
proof (induction st vs sc tot ms rule: live_stake.induct)
  case (2 st i a vs sc tot ms)
  show ?case
  proof (cases "i = ic_id st")
    case True
    moreover have "hm_get vs i = None" using "2.prems"(1) by (simp add: hm_get_None_iff)
    ultimately show ?thesis using 2 by (simp add: live_total_def add.assoc)
  next
    case False
    show ?thesis
    proof (cases "get_live_endpoint (ic_reservoir st) i")
      case None
      with 2 False show ?thesis by (simp add: live_total_def)
    next
      case (Some ip)
      have "i \<notin> hm_keys ms" using "2.prems"(2) by auto
      then have "hm_insert i (ip, a) ms = ms @ [(i, ip, a)]" by (rule hm_insert_fresh)
      moreover have "fst ` set (ms @ [(i, ip, a)]) \<inter> fst ` set vs = {}" using "2.prems" by auto
      ultimately show ?thesis using 2(3)[OF False Some] "2.prems"(1) False Some
        by (simp add: live_total_def add.assoc)
    qed
  qed
qed (simp add: live_total_def)

lemma live_weights_spec:
  "distinct (map fst vs) \<Longrightarrow> fst ` set ws \<inter> fst ` set vs = {} \<Longrightarrow>
   live_weights rnd st tot vs ws = ws @ map (\<lambda>(i, ip, a). (i, ip, percent_of rnd a tot)) (live_others st vs)"
proof (induction rnd st tot vs ws rule: live_weights.induct)
  case (2 rnd st tot i a vs ws)
  show ?case
  proof (cases "i = ic_id st")
    case True
    with 2 show ?thesis by simp
  next
    case False
    show ?thesis
    proof (cases "get_live_endpoint (ic_reservoir st) i")
      case None
      with 2 False show ?thesis by simp
    next
      case (Some ip)
      have "i \<notin> hm_keys ws" using "2.prems"(2) by auto
      then have "hm_insert i (ip, percent_of rnd a tot) ws = ws @ [(i, ip, percent_of rnd a tot)]"
        by (rule hm_insert_fresh)
      moreover have "fst ` set (ws @ [(i, ip, percent_of rnd a tot)]) \<inter> fst ` set vs = {}" using "2.prems" by auto
      ultimately show ?thesis using 2(3)[OF False Some] "2.prems"(1) False Some by simp
    qed
  qed
qed simp

lemma ice_live_committee_spec:
  assumes "distinct (map fst vs)"
  shows "ice_live_committee E vs st =
    (case hm_get vs (ic_id st) of
       Some a \<Rightarrow> Ok \<lparr>icm_self_staking_capacity = a,
                   icm_sleet_validators = map (\<lambda>(i, ip, b). (i, ip, percent_of (f64_round E) b (live_total st vs)))
                                            (live_others st vs),
                   icm_hail_validators = live_others st vs\<rparr>
     | None \<Rightarrow> Panic)"
  using live_stake_spec[OF assms, of "[]" st None 0] live_weights_spec[OF assms, of "[]" "f64_round E" st]
  by (simp add: ice_live_committee_def Let_def split: option.splits)

lemma live_total_split:
  assumes "distinct (map fst vs)" "hm_get vs (ic_id st) = Some a"
  shows "live_total st vs = a + sum_list (map (\<lambda>(_, _, b). b) (live_others st vs))"
  using assms
proof (induction vs)
  case (Cons v vs)
  obtain i b where v: "v = (i, b)" by (cases v)
  show ?case
  proof (cases "i = ic_id st")
    case True
    then have "ic_id st \<notin> fst ` set vs" using Cons.prems(1) v by simp
    then have "live_total st vs = sum_list (map (\<lambda>(_, _, b). b) (live_others st vs))"
      unfolding live_total_def live_others_def
      by (intro arg_cong[of _ _ sum_list]) (auto simp: comp_def split_def image_iff intro!: map_cong filter_cong)
    with True Cons.prems(2) v show ?thesis by (simp add: live_total_def)
  next
    case False
    with Cons v show ?thesis by (simp add: live_total_def ac_simps split: option.splits)
  qed
qed simp

text \<open>The loop over the validators in \<^verbatim>\<open>hail\<close>.\<close>

lemma committee_loop_spec:
  "distinct (map fst vs) \<Longrightarrow> fst ` set ms \<inter> fst ` set vs = {} \<Longrightarrow>
   \<exists>prods'. committee_loop E vrf tot sz vs ms prods =
     Ok (ms @ map (\<lambda>(i, ip, a). (i, ip, percent_of (f64_round E) a tot)) vs, prods')"
proof (induction vs arbitrary: ms prods)
  case (Cons v vs)
  obtain i ip a where v: "v = (i, ip, a)" by (cases v)
  have fresh: "i \<notin> hm_keys ms" using Cons.prems(2) v by auto
  let ?ms = "ms @ [(i, ip, percent_of (f64_round E) a tot)]"
  have "fst ` set ?ms \<inter> fst ` set vs = {}" using Cons.prems v by auto
  from Cons.IH[OF _ this] Cons.prems(1) v fresh show ?case
    by (simp add: Let_def hm_insert_fresh hm_get_None_iff)
qed simp

lemma committee_next_spec:
  assumes "distinct (map fst vs)"
  shows "\<exists>cm'. committee_next E cm sc vrf vs = (Ok (), cm') \<and> cm_validators cm' = vs \<and> cm_self_staking_capacity cm' = sc \<and>
    cm_committee cm' = map (\<lambda>(i, ip, a). (i, ip, percent_of (f64_round E) a (sc + sum_list (map (\<lambda>(_, _, b). b) vs)))) vs"
proof -
  let ?tot = "sc + sum_list (map (\<lambda>(_, _, b). b) vs)"
  have tot: "foldl (\<lambda>acc (_, _, cap). acc + cap) x vs = x + sum_list (map (\<lambda>(_, _, b). b) vs)" for x :: u64
    by (induction vs arbitrary: x) (auto simp: add.assoc)
  obtain prods where "committee_loop E vrf ?tot (expected_size (length vs)) vs [] [] =
      Ok (map (\<lambda>(i, ip, a). (i, ip, percent_of (f64_round E) a ?tot)) vs, prods)"
    using committee_loop_spec[OF assms, of "[]" E vrf ?tot "expected_size (length vs)" "[]"] by auto
  then show ?thesis
    by (auto simp: committee_next_def next_committee_def calculate_total_staking_capacity_def tot Let_def)
qed

lemma hail_insert_committee: "hail_insert E st b = (r, st') \<Longrightarrow> hl_committee st' = hl_committee st"
  by (auto simp: hail_insert_def on_hail_dag_def Let_def split: if_splits option.splits)

lemma add_live_cells_committee: "add_live_cells E cs ids st = (r, st') \<Longrightarrow> sl_committee st' = sl_committee st"
  by (induction E cs ids st arbitrary: r st' rule: add_live_cells.induct)
     (auto simp: Let_def split: if_splits option.splits)

lemma receive_last_accepted_committees:
  assumes vs: "distinct (map fst (validators (al_state al)))" and eq: "rla_last_block_hash msg = rla_last_accepted msg"
    and r: "receive_last_accepted E msg al st_ice st_sleet st_hail = (Ok out, st_sleet', st_hail')"
  shows "sl_committee st_sleet' =
      map (\<lambda>(i, ip, a). (i, ip, percent_of (f64_round E) a (live_total st_ice (validators (al_state al)))))
        (live_others st_ice (validators (al_state al)))"
    and "cm_committee (hl_committee st_hail') = sl_committee st_sleet'"
    and "cm_validators (hl_committee st_hail') = live_others st_ice (validators (al_state al))"
proof -
  let ?vs = "validators (al_state al)"
  let ?ws = "map (\<lambda>(i, ip, a). (i, ip, percent_of (f64_round E) a (live_total st_ice ?vs))) (live_others st_ice ?vs)"
  obtain a where a: "hm_get ?vs (ic_id st_ice) = Some a"
    using r eq by (cases "hm_get ?vs (ic_id st_ice)") (auto simp: receive_last_accepted_def ice_live_committee_spec[OF vs])
  let ?cm = "\<lparr>icm_self_staking_capacity = a, icm_sleet_validators = ?ws, icm_hail_validators = live_others st_ice ?vs\<rparr>"
  have cm: "ice_live_committee E ?vs st_ice = Ok ?cm" by (simp add: ice_live_committee_spec[OF vs] a)
  obtain r1 sl e where sl: "sleet_live_committee E ?ws (live_cells_map E (al_state al)) st_sleet = (r1, sl, e)"
    by (metis prod.exhaust)
  obtain r2 hl where hl: "hail_live_committee E (hail_committee_msg msg al ?cm) st_hail = (r2, hl)" by fastforce
  have out: "r1 = Ok ()" "r2 = Ok ()" "st_sleet' = sl" "st_hail' = hl"
    using r eq sl hl by (auto simp: receive_last_accepted_def cm Let_def split: result.splits prod.splits)
  have sleet: "sl_committee sl = ?ws"
    using sl out(1) by (auto simp: sleet_live_committee_def sends_def st_bind_def split: result.splits prod.splits)
  obtain cm' where nx: "committee_next E (hl_committee st_hail) a (rla_last_vrf_output msg) (live_others st_ice ?vs) = (Ok (), cm')"
    "cm_validators cm' = live_others st_ice ?vs" "cm_committee cm' = ?ws"
    using committee_next_spec[OF live_others_distinct[OF vs], of E "hl_committee st_hail" a "rla_last_vrf_output msg" st_ice]
    unfolding live_total_split[OF vs a] by blast
  have "hl_committee hl = cm'"
    using hl out(2) nx(1)
    by (auto simp: hail_live_committee_def hail_committee_msg_def on_committee_def dest: hail_insert_committee split: prod.splits)
  with nx sleet out show "sl_committee st_sleet' = ?ws" "cm_committee (hl_committee st_hail') = sl_committee st_sleet'"
    "cm_validators (hl_committee st_hail') = live_others st_ice ?vs" by simp_all
qed

section \<open>The vote on the last accepted block\<close>

text \<open>
  The loop notifies about a hash at its second occurrence and never again. Before it reads \<open>hs\<close> a hash has
  not been seen, or seen once (its count is zero), or was notified.
\<close>

lemma count_last_accepted_spec:
  assumes "\<forall>h n. hm_get occ h = Some n \<longrightarrow> h \<in> set applied \<or> n = 0" "\<forall>h \<in> set applied. hm_get occ h \<noteq> None"
  shows "distinct (map rla_last_accepted (count_last_accepted lb hs occ applied)) \<and>
    set (map rla_last_accepted (count_last_accepted lb hs occ applied)) =
      {h. h \<notin> set applied \<and> (if hm_get occ h = None then 2 else 1) \<le> count_list hs h} \<and>
    (\<forall>m \<in> set (count_last_accepted lb hs occ applied).
       rla_last_block_hash m = rla_last_accepted m \<and> rla_last_block m = lb \<and> rla_last_vrf_output m = ab_vrf_out lb)"
  using assms
proof (induction lb hs occ applied rule: count_last_accepted.induct)
  case (1 lb occ applied)
  then show ?case by auto
next
  case (2 lb h hs occ applied)
  show ?case
  proof (cases "hm_get occ h")
    case None
    then have "h \<notin> set applied" using "2.prems"(2) by blast
    with 2(1)[OF None] "2.prems" None show ?thesis by (auto split: if_splits)
  next
    case (Some n)
    show ?thesis
    proof (cases "h \<in> set applied")
      case True
      with 2(4)[OF Some] True "2.prems" Some show ?thesis by (auto split: if_splits)
    next
      case False
      then have n: "n = 0" using "2.prems"(1) Some by blast
      have IH: "distinct (map rla_last_accepted (count_last_accepted lb hs (hm_insert h (n + 1) occ) (hs_insert h applied))) \<and>
        set (map rla_last_accepted (count_last_accepted lb hs (hm_insert h (n + 1) occ) (hs_insert h applied))) =
          {h'. h' \<notin> set (hs_insert h applied) \<and>
             (if hm_get (hm_insert h (n + 1) occ) h' = None then 2 else 1) \<le> count_list hs h'} \<and>
        (\<forall>m \<in> set (count_last_accepted lb hs (hm_insert h (n + 1) occ) (hs_insert h applied)).
          rla_last_block_hash m = rla_last_accepted m \<and> rla_last_block m = lb \<and> rla_last_vrf_output m = ab_vrf_out lb)"
        by (rule 2(2)[OF Some False refl]) (use "2.prems" in \<open>auto simp: hs_insert_def split: if_splits\<close>)
      have eq: "count_last_accepted lb (h # hs) occ applied =
          \<lparr>rla_last_block_hash = h, rla_last_block = lb, rla_last_vrf_output = ab_vrf_out lb, rla_last_accepted = h\<rparr>
          # count_last_accepted lb hs (hm_insert h (n + 1) occ) (hs_insert h applied)"
        using Some False by (simp add: Let_def n)
      have "{h'. h' \<notin> set applied \<and> (if hm_get occ h' = None then 2 else 1) \<le> count_list (h # hs) h'} =
          insert h {h'. h' \<notin> set (hs_insert h applied) \<and>
             (if hm_get (hm_insert h (n + 1) occ) h' = None then 2 else 1) \<le> count_list hs h'}"
        using Some False by (auto simp: hs_insert_def split: if_splits)
      with IH show ?thesis unfolding eq by (simp add: hs_insert_def)
    qed
  qed
qed

section \<open>A restart of the chain\<close>

text \<open>What the first entry of a database is, and that blocks are decoded as they were encoded.\<close>

definition block_store_ok :: "('db, 'v, 'a) storage_externs_scheme \<Rightarrow> bool" where
  "block_store_ok E \<longleftrightarrow> storage_ok E \<and> (\<forall>b. decode_block E (encode_block E b) = Inr b) \<and>
     (\<forall>db. case sled_first E db of
        Inr (Some (k, v)) \<Rightarrow> sled_map E db k = Some v \<and> (\<forall>k' v'. sled_map E db k' = Some v' \<longrightarrow> k \<le> k')
      | Inr None \<Rightarrow> sled_map E db = Map.empty
      | Inl _ \<Rightarrow> False)"

lemma sled_first_only:
  assumes "block_store_ok E" "sled_map E db = [k \<mapsto> v]"
  shows "sled_first E db = Inr (Some (k, v))"
proof -
  have "case sled_first E db of
        Inr (Some (k, v)) \<Rightarrow> sled_map E db k = Some v \<and> (\<forall>k' v'. sled_map E db k' = Some v' \<longrightarrow> k \<le> k')
      | Inr None \<Rightarrow> sled_map E db = Map.empty | Inl _ \<Rightarrow> False"
    using assms(1) unfolding block_store_ok_def by blast
  moreover have "sled_map E db k = Some v" using assms(2) by simp
  ultimately show ?thesis
    by (cases "sled_first E db") (auto simp: assms(2) split: option.splits if_splits prod.splits dest: fun_cong[of _ _ k])
qed

lemma alpha_restart:
  assumes E: "block_store_ok E" and s: "alpha_started E (alpha_create i tree) = (Ok (), al)"
  shows "alpha_started E (alpha_create i (al_tree al)) = (Ok (), al)"
proof (cases "exists_genesis E tree")
  case True
  with s show ?thesis
    by (auto simp: alpha_started_def alpha_create_def apply_genesis_def split: result.splits prod.splits)
next
  case False
  have first: "case sled_first E tree of
        Inr (Some (k, v)) \<Rightarrow> sled_map E tree k = Some v \<and> (\<forall>k' v'. sled_map E tree k' = Some v' \<longrightarrow> k \<le> k')
      | Inr None \<Rightarrow> sled_map E tree = Map.empty | Inl _ \<Rightarrow> False"
    using E unfolding block_store_ok_def by blast
  then have empty: "sled_map E tree = Map.empty"
    using False by (auto simp: exists_genesis_def split: sum.splits option.splits)
  obtain g where g: "build_genesis E = Ok g" using s False
    by (auto simp: alpha_started_def alpha_create_def split: result.splits)
  let ?k = "block_key (ab_height g) (alpha_block_hash E g)"
  obtain r db where ins: "sled_insert E tree ?k (encode_block E g) = (r, db)" by fastforce
  have m: "r = Inr None" "sled_map E db = [?k \<mapsto> encode_block E g]"
    using sled_okD(3)[OF _ ins] E empty by (simp_all add: block_store_ok_def)
  note f = sled_first_only[OF E m(2)]
  have acc: "accept_genesis E tree g = (Ok (alpha_block_hash E g), db)"
    by (simp add: accept_genesis_def ins m(1) of_sled_def Let_def)
  have "apply_genesis E g (alpha_create i db) = (Ok (), al)"
    using s False by (simp add: alpha_started_def alpha_create_def g acc)
  moreover from this have "al_tree al = db"
    by (auto simp: apply_genesis_def alpha_create_def split: result.splits)
  moreover have "exists_genesis E db" by (simp add: exists_genesis_def f)
  moreover have "get_genesis E db = Ok (alpha_block_hash E g, g)"
    using E by (simp add: get_genesis_def f block_store_ok_def unwrap_option_def of_codec_def)
  ultimately show ?thesis by (simp add: alpha_started_def alpha_create_def)
qed

section \<open>Requests from outside\<close>

text \<open>The invariants of the components of a node, and which requests they ask for more than good form.\<close>

definition node_ok :: "('db, 'v, 'a) node_externs_scheme \<Rightarrow> 'db node \<Rightarrow> bool" where
  "node_ok E nd \<longleftrightarrow> view_ok (nd_view nd) \<and> ice_ok (nd_ice nd) \<and> sleet_safe E (nd_sleet nd) \<and> hail_inv (nd_hail nd)"

definition request_admissible :: "('db, 'v, 'a) node_externs_scheme \<Rightarrow> request \<Rightarrow> 'db node \<Rightarrow> bool" where
  "request_admissible E req nd = (case req of
     ReqGenerateTx c \<Rightarrow>
       (case select_parents (nd_sleet nd) NPARENTS of Ok ps \<Rightarrow> admissible E (nd_sleet nd) (tx_new ps c) | _ \<Rightarrow> True)
   | ReqQueryTx q \<Rightarrow> admissible E (nd_sleet nd) (qt_tx q)
   | ReqQueryBlock q \<Rightarrow> admissible_block E (nd_hail nd) (qb_block q)
   | _ \<Rightarrow> True)"

lemma answer_parts: "answer r nd = (r', nd', e1, e2) \<Longrightarrow> nd' = nd \<and> e1 = [] \<and> e2 = []"
  by (simp add: answer_def)

lemma from_sleet_parts:
  assumes "from_sleet p f nd = (Ok out, nd', e1, e2)"
  shows "\<exists>a st. p = (Ok a, st, e1) \<and> nd' = nd\<lparr>nd_sleet := st\<rparr> \<and> e2 = []"
  using assms by (cases p; cases "fst p") (auto simp: from_sleet_def unwrap_result_def)

lemma route_query_block_parts:
  assumes "route_query_block E q nd = (Ok out, nd', e1, e2)"
  shows "\<exists>a st. handle_query_block E q (nd_hail nd) = (Ok a, st, e2) \<and> nd' = nd\<lparr>nd_hail := st\<rparr> \<and> e1 = []"
  using assms by (cases "handle_query_block E q (nd_hail nd)"; cases "fst (handle_query_block E q (nd_hail nd))")
    (auto simp: route_query_block_def unwrap_result_def)

text \<open>Each request changes one component, by one of its steps, or nothing.\<close>

lemma route_request_step:
  assumes "route_request E chan peer_id check_peer req nd = Some (Ok out, nd', e1, e2)" "request_admissible E req nd"
  shows "nd' = nd \<or>
    (\<exists>v. nd' = nd\<lparr>nd_view := v\<rparr> \<and> view_step (nd_view nd) v) \<or>
    (\<exists>st. nd' = nd\<lparr>nd_ice := st\<rparr> \<and> ice_step (nd_ice nd) st) \<or>
    (\<exists>st. nd' = nd\<lparr>nd_sleet := st\<rparr> \<and> sleet_step E (nd_sleet nd) st) \<or>
    (\<exists>st. nd' = nd\<lparr>nd_hail := st\<rparr> \<and> hail_step E (nd_hail nd) st)"
proof (cases req)
  case (ReqVersion p)
  have "nd' = nd\<lparr>nd_view := snd (handle_version p (nd_view nd))\<rparr>"
    using assms(1) by (auto simp: route_request_def ReqVersion answer_def split: prod.splits)
  then show ?thesis using step_version by blast
next
  case (ReqPing p)
  have "nd' = nd\<lparr>nd_ice := snd (handle_ping p (nd_ice nd))\<rparr>"
    using assms(1) by (auto simp: route_request_def ReqPing answer_def split: prod.splits)
  then show ?thesis using step_ping by blast
next
  case (ReqGenerateTx c)
  from assms(1) have "from_sleet (generate_tx E c (nd_sleet nd)) (\<lambda>h. Respond (RespGenerateTxAck h)) nd = (Ok out, nd', e1, e2)"
    by (simp add: route_request_def ReqGenerateTx)
  from from_sleet_parts[OF this] obtain a st where
    g: "generate_tx E c (nd_sleet nd) = (Ok a, st, e1)" "nd' = nd\<lparr>nd_sleet := st\<rparr>" by blast
  have "sleet_step E (nd_sleet nd) st"
    by (rule sleet_step.generate[OF _ g(1)]) (use assms(2) in \<open>simp add: request_admissible_def ReqGenerateTx\<close>)
  with g(2) show ?thesis by blast
next
  case (ReqQueryTx q)
  show ?thesis
  proof (cases "refused peer_id check_peer nd")
    case False
    with assms(1) have "route_query_tx E chan q nd = (Ok out, nd', e1, e2)" by (simp add: route_request_def ReqQueryTx)
    from from_sleet_parts[OF this[unfolded route_query_tx_def]] obtain a st where
      g: "handle_query_tx E chan q (nd_sleet nd) = (Ok a, st, e1)" "nd' = nd\<lparr>nd_sleet := st\<rparr>" by blast
    have "sleet_step E (nd_sleet nd) st"
      by (rule sleet_step.query[OF _ g(1)]) (use assms(2) in \<open>simp add: request_admissible_def ReqQueryTx\<close>)
    with g(2) show ?thesis by blast
  qed (use assms(1) in \<open>simp add: route_request_def ReqQueryTx answer_def\<close>)
next
  case (ReqQueryBlock q)
  show ?thesis
  proof (cases "refused peer_id check_peer nd")
    case False
    with assms(1) have "route_query_block E q nd = (Ok out, nd', e1, e2)" by (simp add: route_request_def ReqQueryBlock)
    from route_query_block_parts[OF this] obtain a st where
      g: "handle_query_block E q (nd_hail nd) = (Ok a, st, e2)" "nd' = nd\<lparr>nd_hail := st\<rparr>" by blast
    have "hail_step E (nd_hail nd) st"
      by (rule hail_step.query_block[OF _ g(1)]) (use assms(2) in \<open>simp add: request_admissible_def ReqQueryBlock\<close>)
    with g(2) show ?thesis by blast
  qed (use assms(1) in \<open>simp add: route_request_def ReqQueryBlock answer_def\<close>)
qed (use assms(1) in \<open>auto simp: route_request_def answer_def split: if_splits\<close>)

lemma route_request_ok:
  assumes E: "storage_ok E" and ok: "node_ok E nd" and adm: "request_admissible E req nd"
    and r: "route_request E chan peer_id check_peer req nd = Some (Ok out, nd', e1, e2)"
  shows "node_ok E nd'"
proof -
  note o = ok[unfolded node_ok_def]
  from route_request_step[OF r adm] consider "nd' = nd"
    | v where "nd' = nd\<lparr>nd_view := v\<rparr>" "view_step (nd_view nd) v"
    | st where "nd' = nd\<lparr>nd_ice := st\<rparr>" "ice_step (nd_ice nd) st"
    | st where "nd' = nd\<lparr>nd_sleet := st\<rparr>" "sleet_step E (nd_sleet nd) st"
    | st where "nd' = nd\<lparr>nd_hail := st\<rparr>" "hail_step E (nd_hail nd) st" by blast
  then show ?thesis
  proof cases
    case 1
    with ok show ?thesis by simp
  next
    case (2 v)
    with o view_step_ok[OF 2(2)] show ?thesis by (simp add: node_ok_def)
  next
    case (3 st)
    with o ice_step_ok[OF 3(2)] show ?thesis by (simp add: node_ok_def)
  next
    case (4 st)
    with o sleet_step_safe[OF 4(2) E] show ?thesis by (simp add: node_ok_def)
  next
    case (5 st)
    with o hail_step_inv[OF 5(2)] show ?thesis by (simp add: node_ok_def)
  qed
qed

text \<open>A peer that is no validator can change the known peers and the liveness data, and issue a transaction.\<close>

lemma stranger_frame:
  assumes r: "route_request E chan peer_id True req nd = Some (out, nd', e1, e2)"
    and "peer_id \<notin> set (nd_validators nd)" "\<forall>c. req \<noteq> ReqGenerateTx c"
  shows "nd_sleet nd' = nd_sleet nd \<and> nd_hail nd' = nd_hail nd \<and> nd_alpha nd' = nd_alpha nd \<and>
    nd_validators nd' = nd_validators nd \<and> e1 = [] \<and> e2 = []"
proof -
  have "refused peer_id True nd" using assms(2) by (simp add: refused_def)
  then show ?thesis using r assms(3)
    by (cases req) (auto simp: route_request_def answer_def split: prod.splits)
qed

section \<open>Connections\<close>

text \<open>The server end: what a peer outside the validator set can do over TLS.\<close>

lemma process_stream_frame:
  assumes p: "process_stream T E chan u stream nd = Some (out, nd', e1, e2)" and u: "upgrader_is_tls u"
    and i: "\<And>conn i. upgrade T u stream = Inr conn \<Longrightarrow> stream_get_id T conn = Inr i \<Longrightarrow> i \<notin> set (nd_validators nd)"
    and g: "\<And>conn c. upgrade T u stream = Inr conn \<Longrightarrow> read_request T conn \<noteq> Inr (Some (ReqGenerateTx c))"
  shows "nd_sleet nd' = nd_sleet nd \<and> nd_hail nd' = nd_hail nd \<and> nd_alpha nd' = nd_alpha nd \<and>
    nd_validators nd' = nd_validators nd \<and> e1 = [] \<and> e2 = []"
proof (cases "\<exists>conn i req. upgrade T u stream = Inr conn \<and> stream_get_id T conn = Inr i \<and> read_request T conn = Inr (Some req)")
  case True
  then obtain conn j req where c: "upgrade T u stream = Inr conn" "stream_get_id T conn = Inr j" "read_request T conn = Inr (Some req)"
    by blast
  from p have "serve_request T E chan j True conn req nd = Some (out, nd', e1, e2)"
    by (simp add: process_stream_def c u channel_wrap_def channel_split_def channel_recv_def of_sum_def unwrap_result_def)
  then obtain r where r: "route_request E chan j True req nd = Some (r, nd', e1, e2)" by (auto simp: serve_request_def)
  moreover have "\<forall>c. req \<noteq> ReqGenerateTx c" using g[OF c(1)] c(3) by auto
  ultimately show ?thesis by (intro stranger_frame[OF r i[OF c(1,2)]])
next
  case False
  with p show ?thesis
    by (auto simp: process_stream_def channel_wrap_def channel_split_def channel_recv_def of_sum_def unwrap_result_def Let_def
        split: sum.splits option.splits)
qed

lemma tls_upgraders_kinds:
  assumes "tls_upgraders T cert key = Ok ups"
  shows "\<exists>c s. ups = \<lparr>up_client = TlsClientUpgrader c, up_server = TlsServerUpgrader s\<rparr> \<and>
    client_auth_mandatory (sc_verifier s) = Some True"
  using assms
  by (auto simp: tls_upgraders_def tls_client_upgrader_new_def tls_server_upgrader_new_def client_tls_config_def
      server_tls_config_def client_auth_mandatory_def split: if_splits)

text \<open>
  What TLS promises: a server that makes the certificate of the client mandatory accepts no session without one.
\<close>

definition tls_ok :: "('tcp, 'tls, 'fs, 'a) transport_externs_scheme \<Rightarrow> bool" where
  "tls_ok T \<longleftrightarrow> (\<forall>cfg c s. tls_accept T cfg c = Inr s \<longrightarrow> client_auth_mandatory (sc_verifier cfg) = Some True \<longrightarrow>
     tls_peer_certificates T s \<noteq> None \<and> tls_peer_certificates T s \<noteq> Some [])"

lemma process_stream_tls:
  assumes T: "tls_ok T" and ups: "tls_upgraders T cert key = Ok ups"
    and conn: "upgrade T (up_server ups) stream = Inr conn" and req: "read_request T conn = Inr (Some req)"
  shows "\<exists>s c cs. conn = TlsServer s \<and> tls_peer_certificates T s = Some (c # cs) \<and>
    process_stream T E chan (up_server ups) stream nd = serve_request T E chan (id_new (id_hash T) c) True conn req nd"
proof -
  obtain cfg where cfg: "up_server ups = TlsServerUpgrader cfg" "client_auth_mandatory (sc_verifier cfg) = Some True"
    using tls_upgraders_kinds[OF ups] by auto
  with conn obtain s where s: "tls_accept T cfg stream = Inr s" "conn = TlsServer s"
    by (auto simp: upgrade_def tls_server_upgrade_def split: sum.splits)
  with T cfg(2) obtain c cs where certs: "tls_peer_certificates T s = Some (c # cs)"
    unfolding tls_ok_def by (metis list.exhaust option.exhaust)
  then have "stream_get_id T conn = Inr (id_new (id_hash T) c)"
    by (simp add: s(2) stream_get_id_def id_from_server_connection_def id_from_first_cert_def)
  with s certs conn req cfg(1) show ?thesis
    by (simp add: process_stream_def upgrader_is_tls_def channel_wrap_def channel_split_def channel_recv_def of_sum_def
        unwrap_result_def)
qed

text \<open>The client end: an answer over TLS comes from the holder of a certificate with the expected identity.\<close>

lemma oneshot_over_tls:
  assumes "oneshot (client_connect T (TlsClientUpgrader cfg)) i ip req = Ok r"
  shows "\<exists>sock s c cs. tcp_connect T ip = Inr sock \<and> tls_connect T cfg sock = Inr s \<and>
    tls_peer_certificates T s = Some (c # cs) \<and> id_new (id_hash T) c = i \<and> client_exchange T (TlsClient s) req = Ok r"
proof -
  obtain sock s where c: "tcp_connect T ip = Inr sock" "tls_connect T cfg sock = Inr s"
    using assms by (auto simp: oneshot_def client_connect_def of_sum_def upgrade_def tls_client_upgrade_def split: sum.splits)
  have "client_connect T (TlsClientUpgrader cfg) ip =
      Ok \<lparr>cn_is_tls = True, cn_get_id = (case stream_get_id T (TlsClient s) of Inl e \<Rightarrow> Inl (ErrIO e) | Inr i \<Rightarrow> Inr i),
         cn_exchange = client_exchange T (TlsClient s)\<rparr>"
    by (simp add: client_connect_def c of_sum_def upgrade_def tls_client_upgrade_def stream_is_tls_def)
  with assms have "stream_get_id T (TlsClient s) = Inr i" "client_exchange T (TlsClient s) req = Ok r"
    by (auto simp: oneshot_def split: sum.splits if_splits)
  then show ?thesis using c
    by (auto simp: stream_get_id_def id_from_client_connection_def id_from_first_cert_def split: option.splits list.splits)
qed

section \<open>Certificates\<close>

text \<open>What the crates for PEM and certificates and the file system promise.\<close>

definition certs_ok :: "('tcp, 'tls, 'fs, 'a) transport_externs_scheme \<Rightarrow> bool" where
  "certs_ok T \<longleftrightarrow>
     (\<forall>tag c. pem_parse T (pem_encode T tag c) = Inr c) \<and>
     (\<forall>names k c pk. rcgen_certificate T names k = Inr (c, pk) \<longrightarrow> x509_from_der T c = Inr ()) \<and>
     (\<forall>fs p bs fs'. fs_write T fs p bs = (Inr (), fs') \<longrightarrow>
        fs_exists T fs' p \<and> fs_read T fs' p = Inr bs \<and>
        (\<forall>q. q \<noteq> p \<longrightarrow> fs_exists T fs' q = fs_exists T fs q \<and> fs_read T fs' q = fs_read T fs q))"

lemma of_sum_Ok: "of_sum f x = Ok a \<longleftrightarrow> x = Inr a"
  by (cases x) (simp_all add: of_sum_def)

lemma st_bind_OkD: "st_bind m f = (Ok b, s') \<Longrightarrow> \<exists>a s. m = (Ok a, s) \<and> f a s = (Ok b, s')"
  by (cases m; cases "fst m") (auto simp: st_bind_def)

lemma get_node_cert_again:
  assumes T: "certs_ok T" and ne: "cf \<noteq> kf" and g: "get_node_cert T cf kf fs = (Ok x, fs')"
  shows "get_node_cert T cf kf fs' = (Ok x, fs')"
proof (cases "fs_exists T fs cf \<and> fs_exists T fs kf")
  case True
  with g show ?thesis by (auto simp: get_node_cert_def)
next
  case False
  obtain cert key where x: "generate_node_cert T = Ok (cert, key)"
    using g False by (auto simp: get_node_cert_def split: result.splits)
  from g False x obtain fs1 fs2 fs3 where
    w: "write_file T cf (der_to_pem T cert ''CERTIFICATE'') fs2 = (Ok (), fs3)"
       "write_file T kf (der_to_pem T key ''PRIVATE KEY'') fs3 = (Ok (), fs')" "x = (cert, key)"
    by (auto simp: get_node_cert_def dest!: st_bind_OkD)
  have w': "fs_write T fs2 cf (pem_encode T ''CERTIFICATE'' cert) = (Inr (), fs3)"
    "fs_write T fs3 kf (pem_encode T ''PRIVATE KEY'' key) = (Inr (), fs')"
    using w(1,2) by (auto simp: write_file_def der_to_pem_def of_sum_Ok split: prod.splits)
  have "x509_from_der T cert = Inr ()" "pem_parse T (pem_encode T tag c) = Inr c" for tag c
    using T x by (auto simp: certs_ok_def generate_node_cert_def of_sum_Ok result_bind_eq_Ok) blast
  moreover have "fs_exists T fs' cf" "fs_exists T fs' kf" "fs_read T fs' cf = Inr (pem_encode T ''CERTIFICATE'' cert)"
    "fs_read T fs' kf = Inr (pem_encode T ''PRIVATE KEY'' key)"
    using T w' ne unfolding certs_ok_def by metis+
  ultimately show ?thesis by (simp add: get_node_cert_def load_node_cert_def of_sum_def w(3))
qed

section \<open>Runs of a node\<close>

text \<open>A step is a routed request, a step of one component, or a message that only concerns the chain.\<close>

inductive node_step :: "('db, 'v, 'a) node_externs_scheme \<Rightarrow> 'db node \<Rightarrow> 'db node \<Rightarrow> bool"
  for E :: "('db, 'v, 'a) node_externs_scheme" where
  routed: "request_admissible E req nd \<Longrightarrow>
    route_request E chan peer_id check_peer req nd = Some (Ok out, nd', e1, e2) \<Longrightarrow> node_step E nd nd'"
| in_view: "view_step (nd_view nd) v \<Longrightarrow> node_step E nd (nd\<lparr>nd_view := v\<rparr>)"
| in_ice: "ice_step (nd_ice nd) st \<Longrightarrow> node_step E nd (nd\<lparr>nd_ice := st\<rparr>)"
| in_sleet: "sleet_step E (nd_sleet nd) sl \<Longrightarrow> node_step E nd (nd\<lparr>nd_sleet := sl\<rparr>)"
| in_hail: "hail_step E (nd_hail nd) hl \<Longrightarrow> node_step E nd (nd\<lparr>nd_hail := hl\<rparr>)"
| in_alpha: "node_step E nd (set_validators vs (nd\<lparr>nd_alpha := al\<rparr>))"

lemma node_step_ok:
  assumes "node_step E nd nd'" "storage_ok E" "node_ok E nd"
  shows "node_ok E nd'"
  using assms(1)
proof cases
  case (routed req chan peer_id check_peer out e1 e2)
  from route_request_ok[OF assms(2,3) routed] show ?thesis .
next
  case (in_view v)
  with assms(3) view_step_ok[OF in_view(2)] show ?thesis by (simp add: node_ok_def)
next
  case (in_ice st)
  with assms(3) ice_step_ok[OF in_ice(2)] show ?thesis by (simp add: node_ok_def)
next
  case (in_sleet sl)
  with assms(3) sleet_step_safe[OF in_sleet(2) assms(2)] show ?thesis by (simp add: node_ok_def)
next
  case (in_hail hl)
  with assms(3) hail_step_inv[OF in_hail(2)] show ?thesis by (simp add: node_ok_def)
next
  case (in_alpha vs al)
  with assms(3) show ?thesis by (simp add: node_ok_def set_validators_def)
qed

lemma node_steps_ok: "(node_step E)\<^sup>*\<^sup>* nd nd' \<Longrightarrow> storage_ok E \<Longrightarrow> node_ok E nd \<Longrightarrow> node_ok E nd'"
  by (induction rule: rtranclp_induct) (auto intro: node_step_ok)

lemma run_node_components:
  assumes "run_node T E cfg fs = (Ok (ups, nd), fs')"
  shows "\<exists>i ip peers tree. nd = create_components E i ip peers tree"
  using assms
  by (auto simp: run_node_def split: prod.splits sum.splits dest!: st_bind_OkD) blast

end
