(* ===== verification/Porter.thy ===== *)
theory Porter
  imports Errors
begin

text \<open>
  Port mapping on a home router: \<^verbatim>\<open>src/porter/\<close>. The gateway is the crate \<^verbatim>\<open>igd\<close>, whose
  operations are the fields of \<open>igd\<close>; its state \<open>'g\<close> is the router's table. Durations are seconds. The
  timer of a refresh is not modelled: one tick of it is.
\<close>

type_synonym ipv4 = "8 word list"
type_synonym socket_addr_v4 = "ipv4 \<times> 16 word"

section \<open>Parameters\<close>

datatype protocol = TCP | UDP

datatype porter_error =
    GatewayRetrieve string
  | PortAdd string
  | ExternalIpRetrieve string
  | PortRemove string
  | ExternalIpChanged string
  | MappingRefresh string

record port_mapping_entry =
  pme_local_address :: socket_addr_v4
  pme_external_port :: "16 word"
  pme_protocol :: protocol
  pme_lease_duration :: u64
  pme_node_description :: string

record add_mapping_entry =
  ame_local_address :: socket_addr_v4
  ame_external_port :: "16 word"
  ame_protocol :: protocol
  ame_lease_duration :: u64
  ame_node_description :: string

definition add_mapping_entry_new ::
  "socket_addr_v4 \<Rightarrow> 16 word \<Rightarrow> protocol \<Rightarrow> u64 \<Rightarrow> string \<Rightarrow> add_mapping_entry" where
  "add_mapping_entry_new local_address external_port prot duration node_desc =
     \<lparr>ame_local_address = local_address, ame_external_port = external_port, ame_protocol = prot,
      ame_lease_duration = duration, ame_node_description = node_desc\<rparr>"

definition add_of_port_mapping :: "port_mapping_entry \<Rightarrow> add_mapping_entry" where
  "add_of_port_mapping pme =
     add_mapping_entry_new (pme_local_address pme) (pme_external_port pme) (pme_protocol pme)
       (pme_lease_duration pme) (pme_node_description pme)"

record refresh_mapping_entry =
  rme_mapping_update_interval :: u64
  rme_external_ip :: ipv4
  rme_add_params :: add_mapping_entry

definition refresh_mapping_entry_new :: "u64 \<Rightarrow> ipv4 \<Rightarrow> add_mapping_entry \<Rightarrow> refresh_mapping_entry" where
  "refresh_mapping_entry_new update_interval external_ip add_params =
     \<lparr>rme_mapping_update_interval = update_interval, rme_external_ip = external_ip, rme_add_params = add_params\<rparr>"

record router_config =
  rc_bind_addr :: socket_addr_v4
  rc_broadcast_addr :: socket_addr_v4
  rc_search_timeout :: "u64 option"

definition router_config_default :: router_config where
  "router_config_default =
     \<lparr>rc_bind_addr = ([0, 0, 0, 0], 0), rc_broadcast_addr = ([239, 255, 255, 250], 1900), rc_search_timeout = Some 10\<rparr>"

record search_options =
  so_bind_addr :: socket_addr_v4
  so_broadcast_address :: socket_addr_v4
  so_timeout :: "u64 option"

definition search_options_from :: "router_config \<Rightarrow> search_options" where
  "search_options_from options =
     \<lparr>so_bind_addr = rc_bind_addr options, so_broadcast_address = rc_broadcast_addr options,
      so_timeout = rc_search_timeout options\<rparr>"

section \<open>The gateway\<close>

record 'g igd =
  igd_search :: "search_options \<Rightarrow> 'g \<Rightarrow> string + unit"
  igd_add_port :: "protocol \<Rightarrow> 16 word \<Rightarrow> socket_addr_v4 \<Rightarrow> 32 word \<Rightarrow> string \<Rightarrow> 'g \<Rightarrow> (string + unit) \<times> 'g"
  igd_external_ip :: "'g \<Rightarrow> string + ipv4"

definition gateway_new :: "'g igd \<Rightarrow> router_config \<Rightarrow> 'g \<Rightarrow> (porter_error, unit) result" where
  "gateway_new G config g = (case igd_search G (search_options_from config) g of Inr _ \<Rightarrow> Ok () | Inl _ \<Rightarrow> Panic)"

text \<open>The lease goes through \<^verbatim>\<open>as u32\<close>.\<close>

definition gateway_add_mapping :: "'g igd \<Rightarrow> add_mapping_entry \<Rightarrow> 'g \<Rightarrow> (porter_error, unit) result \<times> 'g" where
  "gateway_add_mapping G p g =
     (case igd_add_port G (ame_protocol p) (ame_external_port p) (ame_local_address p)
             (ucast (ame_lease_duration p)) (ame_node_description p) g of
        (Inr _, g') \<Rightarrow> (Ok (), g')
      | (Inl e, g') \<Rightarrow> (Err (PortAdd e), g'))"

definition gateway_external_ip :: "'g igd \<Rightarrow> 'g \<Rightarrow> (porter_error, ipv4) result" where
  "gateway_external_ip G g = (case igd_external_ip G g of Inr ip \<Rightarrow> Ok ip | Inl e \<Rightarrow> Err (ExternalIpRetrieve e))"

section \<open>The actors\<close>

datatype mapping_message = AddMapping add_mapping_entry | RefreshMapping refresh_mapping_entry

record mapper_actor =
  ma_config :: router_config
  ma_timers :: "(u64 \<times> refresh_mapping_entry) list"

definition mapper_actor_new :: "router_config \<Rightarrow> mapper_actor" where
  "mapper_actor_new config = \<lparr>ma_config = config, ma_timers = []\<rparr>"

definition handle_mapping ::
  "'g igd \<Rightarrow> mapping_message \<Rightarrow> mapper_actor \<Rightarrow> 'g \<Rightarrow> (porter_error, unit) result \<times> mapper_actor \<times> 'g" where
  "handle_mapping G msg act g =
     (case msg of
        AddMapping add_msg \<Rightarrow>
          (case gateway_new G (ma_config act) g of
             Ok _ \<Rightarrow> (case gateway_add_mapping G add_msg g of (r, g') \<Rightarrow> (r, act, g'))
           | _ \<Rightarrow> (Panic, act, g))
      | RefreshMapping refresh_msg \<Rightarrow>
          (Ok (), act\<lparr>ma_timers := ma_timers act @ [(10, refresh_msg)]\<rparr>, g))"

text \<open>One tick of a timer, in a task of its own: an error is logged, a failed lookup of the address panics the task.\<close>

definition refresh_tick ::
  "'g igd \<Rightarrow> router_config \<Rightarrow> refresh_mapping_entry \<Rightarrow> 'g \<Rightarrow> (porter_error, unit) result \<times> 'g" where
  "refresh_tick G config par g =
     (case gateway_new G config g of
        Ok _ \<Rightarrow>
          (case gateway_external_ip G g of
             Ok _ \<Rightarrow> (case gateway_add_mapping G (rme_add_params par) g of (r, g') \<Rightarrow> (Ok (), g'))
           | _ \<Rightarrow> (Panic, g))
      | _ \<Rightarrow> (Panic, g))"

definition handle_get_external_ip :: "'g igd \<Rightarrow> mapper_actor \<Rightarrow> 'g \<Rightarrow> (porter_error, ipv4) result" where
  "handle_get_external_ip G act g =
     (case gateway_new G (ma_config act) g of Ok _ \<Rightarrow> gateway_external_ip G g | _ \<Rightarrow> Panic)"

section \<open>The mapper\<close>

definition MAPPING_LEASE_DURATION :: u64 where "MAPPING_LEASE_DURATION = 3600 * 24"

record mapper =
  mp_local_address :: socket_addr_v4
  mp_mapper_actor :: mapper_actor
  mp_refresher_actor :: mapper_actor

datatype any_addr = V4 socket_addr_v4 | V6 "8 word list \<times> 16 word"

definition mapper_new :: "any_addr \<Rightarrow> router_config option \<Rightarrow> (porter_error, mapper) result" where
  "mapper_new local_addr config =
     (case local_addr of
        V4 a \<Rightarrow>
          (let act = mapper_actor_new (case config of Some conf \<Rightarrow> conf | None \<Rightarrow> router_config_default) in
           Ok \<lparr>mp_local_address = a, mp_mapper_actor = act, mp_refresher_actor = act\<rparr>)
      | V6 _ \<Rightarrow> Panic)"

text \<open>The answer of the actor is dropped; an actor that panicked is an error of sending, which is unwrapped.\<close>

definition add_port_mapping ::
  "'g igd \<Rightarrow> 16 word \<Rightarrow> protocol \<Rightarrow> string \<Rightarrow> mapper \<Rightarrow> 'g \<Rightarrow> (porter_error, port_mapping_entry) result \<times> mapper \<times> 'g" where
  "add_port_mapping G external_port prot node_desc m g =
     (let p = add_mapping_entry_new (mp_local_address m) external_port prot MAPPING_LEASE_DURATION node_desc in
      case handle_mapping G (AddMapping p) (mp_mapper_actor m) g of
        (r, act, g') \<Rightarrow>
          (if r = Panic then Panic
           else Ok \<lparr>pme_local_address = ame_local_address p, pme_external_port = ame_external_port p,
                    pme_protocol = ame_protocol p, pme_lease_duration = ame_lease_duration p,
                    pme_node_description = ame_node_description p\<rparr>,
           m\<lparr>mp_mapper_actor := act\<rparr>, g'))"

definition mapper_external_ip :: "'g igd \<Rightarrow> mapper \<Rightarrow> 'g \<Rightarrow> (porter_error, ipv4) result" where
  "mapper_external_ip G m g = handle_get_external_ip G (mp_mapper_actor m) g"

definition refresh_mapping ::
  "'g igd \<Rightarrow> port_mapping_entry \<Rightarrow> ipv4 \<Rightarrow> u64 \<Rightarrow> mapper \<Rightarrow> 'g \<Rightarrow> (porter_error, unit) result \<times> mapper \<times> 'g" where
  "refresh_mapping G pm external_ip interval m g =
     (let p = refresh_mapping_entry_new interval external_ip (add_of_port_mapping pm) in
      case handle_mapping G (RefreshMapping p) (mp_refresher_actor m) g of
        (r, act, g') \<Rightarrow> (r, m\<lparr>mp_refresher_actor := act\<rparr>, g'))"

definition add_and_refresh_mapping ::
  "'g igd \<Rightarrow> 16 word \<Rightarrow> protocol \<Rightarrow> string \<Rightarrow> mapper \<Rightarrow> 'g \<Rightarrow> (porter_error, unit) result \<times> mapper \<times> 'g" where
  "add_and_refresh_mapping G external_port prot node_desc m g =
     (case add_port_mapping G external_port prot node_desc m g of
        (add_res, m1, g1) \<Rightarrow>
          (case (add_res, mapper_external_ip G m1 g1) of
             (Ok pm, Ok external_ip) \<Rightarrow>
               (case refresh_mapping G pm external_ip 120 m1 g1 of
                  (Panic, m2, g2) \<Rightarrow> (Panic, m2, g2)
                | (_, m2, g2) \<Rightarrow> (Ok (), m2, g2))
           | _ \<Rightarrow> (Panic, m1, g1)))"

section \<open>Lemmas\<close>

text \<open>A mapping that the gateway refuses is reported as made.\<close>

lemma add_port_mapping_ignores_refusal:
  assumes "igd_search G (search_options_from (ma_config (mp_mapper_actor m))) g = Inr ()"
  shows "fst (add_port_mapping G external_port prot node_desc m g) =
    Ok \<lparr>pme_local_address = mp_local_address m, pme_external_port = external_port, pme_protocol = prot,
        pme_lease_duration = MAPPING_LEASE_DURATION, pme_node_description = node_desc\<rparr>"
  using assms
  by (auto simp: add_port_mapping_def handle_mapping_def gateway_new_def gateway_add_mapping_def add_mapping_entry_new_def
      Let_def split: prod.splits sum.splits)

lemma add_and_refresh_schedules:
  assumes "igd_search G (search_options_from (ma_config (mp_mapper_actor m))) = (\<lambda>g. Inr ())"
    and "igd_external_ip G = (\<lambda>g. Inr ip)"
  shows "\<exists>m' g'. add_and_refresh_mapping G external_port prot node_desc m g = (Ok (), m', g') \<and>
    ma_timers (mp_refresher_actor m') = ma_timers (mp_refresher_actor m) @
      [(10, refresh_mapping_entry_new 120 ip
              (add_mapping_entry_new (mp_local_address m) external_port prot MAPPING_LEASE_DURATION node_desc))]"
  using assms
  by (auto simp: add_and_refresh_mapping_def add_port_mapping_def refresh_mapping_def handle_mapping_def gateway_new_def
      gateway_add_mapping_def mapper_external_ip_def handle_get_external_ip_def gateway_external_ip_def add_of_port_mapping_def
      add_mapping_entry_new_def Let_def split: prod.splits sum.splits)

section \<open>Properties\<close>

text \<open>
  A mapping is kept alive, and reported as made even when it is not. If the gateway is found and knows its
  address, the operation succeeds whether or not the gateway accepts the mapping, and the refresher then renews
  exactly the requested mapping for a day at a time, every ten seconds, whatever interval was asked for.
\<close>

theorem mapping_is_renewed:
  assumes "igd_search G (search_options_from (ma_config (mp_mapper_actor m))) = (\<lambda>g. Inr ())"
    and "igd_external_ip G = (\<lambda>g. Inr ip)"
  shows "\<exists>m' g'. add_and_refresh_mapping G external_port prot node_desc m g = (Ok (), m', g') \<and>
    ma_timers (mp_refresher_actor m') = ma_timers (mp_refresher_actor m) @
      [(10, refresh_mapping_entry_new 120 ip
              (add_mapping_entry_new (mp_local_address m) external_port prot MAPPING_LEASE_DURATION node_desc))]"
  using assms by (rule add_and_refresh_schedules)

text \<open>A gateway that refuses every mapping.\<close>

definition refusing_gateway :: "unit igd" where
  "refusing_gateway = \<lparr>igd_search = (\<lambda>_ _. Inr ()), igd_add_port = (\<lambda>_ _ _ _ _ g. (Inl ''refused'', g)),
                       igd_external_ip = (\<lambda>_. Inr [1, 2, 3, 4])\<rparr>"

theorem mapping_is_renewed_witness:
  "\<exists>m m' g'. mapper_new (V4 ([10, 0, 0, 1], 7000)) None = Ok m \<and>
     fst (gateway_add_mapping refusing_gateway
       (add_mapping_entry_new (mp_local_address m) 80 TCP MAPPING_LEASE_DURATION ''node'') ()) = Err (PortAdd ''refused'') \<and>
     add_and_refresh_mapping refusing_gateway 80 TCP ''node'' m () = (Ok (), m', g')"
proof -
  obtain m where m: "mapper_new (V4 ([10, 0, 0, 1], 7000)) None = Ok m" by (simp add: mapper_new_def Let_def)
  have "fst (gateway_add_mapping refusing_gateway
       (add_mapping_entry_new (mp_local_address m) 80 TCP MAPPING_LEASE_DURATION ''node'') ()) = Err (PortAdd ''refused'')"
    by (simp add: gateway_add_mapping_def refusing_gateway_def)
  moreover have "\<exists>m' g'. add_and_refresh_mapping refusing_gateway 80 TCP ''node'' m () = (Ok (), m', g')"
    using mapping_is_renewed[of refusing_gateway m "[1, 2, 3, 4]" 80 TCP "''node''" "()"]
    by (auto simp: refusing_gateway_def)
  ultimately show ?thesis using m by blast
qed

end
