(* ===== verification/Programs.thy ===== *)
theory Programs
  imports Node
begin

text \<open>
  The two programs: \<^verbatim>\<open>bin/main.rs\<close>, which starts a node, and \<^verbatim>\<open>bin/client_test.rs\<close>, which spends a chain of
  cells through a node, and \<^verbatim>\<open>read_or_generate_keypair\<close> of \<^verbatim>\<open>src/server/node.rs\<close>. The crate \<^verbatim>\<open>clap\<close> parses
  the command line: \<open>cli_matches\<close> is what it found. The network that the client talks to is a state that every
  request changes.
\<close>

section \<open>The command line\<close>

record cli_matches =
  value_of :: "string \<Rightarrow> string option"
  values_of :: "string \<Rightarrow> string list option"
  is_present :: "string \<Rightarrow> bool"

text \<open>\<open>Exit\<close> is the end of the process by \<^verbatim>\<open>e.exit()\<close> for a missing value, \<open>Failed\<close> an error that \<^verbatim>\<open>main\<close> returns.\<close>

datatype program_error = Exit string | Failed crate_error

definition value_t :: "cli_matches \<Rightarrow> string \<Rightarrow> (program_error, string) result" where
  "value_t m name = ok_or (Exit name) (value_of m name)"

text \<open>\<^verbatim>\<open>u64::from_str\<close>: an optional sign, then digits of a number that fits.\<close>

definition is_digit :: "char \<Rightarrow> bool" where
  "is_digit c = (48 \<le> (of_char c :: nat) \<and> (of_char c :: nat) \<le> 57)"

definition parse_u64 :: "string \<Rightarrow> u64 option" where
  "parse_u64 s =
     (let ds = (case s of c # cs \<Rightarrow> if c = CHR ''+'' then cs else s | [] \<Rightarrow> []);
          n = foldl (\<lambda>n c. 10 * n + (of_char c - 48)) (0 :: nat) ds in
      if ds \<noteq> [] \<and> list_all is_digit ds \<and> n < 2 ^ 64 then Some (of_nat n) else None)"

definition tls_paths :: "cli_matches \<Rightarrow> (program_error, path option \<times> path option) result" where
  "tls_paths m =
     (if is_present m ''use-tls'' then
        result_bind (value_t m ''cert-path'') (\<lambda>cert_path.
        result_bind (value_t m ''pk-path'') (\<lambda>priv_key_path. Ok (Some cert_path, Some priv_key_path)))
      else Ok (None, None))"

section \<open>Starting a node\<close>

definition main_config :: "'a alpha_externs_scheme \<Rightarrow> cli_matches \<Rightarrow> (program_error, node_config) result" where
  "main_config E m =
     result_bind (value_t m ''listener-ip'') (\<lambda>listener_ip.
     result_bind (ok_or (Exit ''bootstrap-peer'') (values_of m ''bootstrap-peer'')) (\<lambda>bootstrap_peers.
     result_bind (tls_paths m) (\<lambda>(cert_path, priv_key_path).
     result_bind (case value_of m ''node-id'' of
                    Some node_str \<Rightarrow> result_bind (unwrap_result (id_from_str E node_str)) (\<lambda>i. Ok (Some i))
                  | None \<Rightarrow> Ok None) (\<lambda>node_id.
       Ok \<lparr>nc_ip = listener_ip, nc_bootstrap_peers = bootstrap_peers, nc_keypair = value_of m ''keypair'',
           nc_use_tls = is_present m ''use-tls'', nc_cert_path = cert_path, nc_pk_path = priv_key_path,
           nc_node_id = node_id\<rparr>))))"

text \<open>The node that runs until the process gets a signal.\<close>

definition subzero_main ::
  "('tcp, 'tls, 'fs, 'db, 'a) node_transport_scheme \<Rightarrow> ('db, 'v, 'b) node_externs_scheme \<Rightarrow> cli_matches \<Rightarrow> 'fs
   \<Rightarrow> (program_error, upgraders \<times> 'db node) result \<times> 'fs" where
  "subzero_main T E m fs =
     st_bind (main_config E m, fs) (\<lambda>cfg fs1. (unwrap_result (fst (run_node T E cfg fs1)), snd (run_node T E cfg fs1)))"

text \<open>
  \<open>open_read\<close> opens a file for reading and reads it, \<open>fresh\<close> is the key pair of the random generator and
  \<open>to_bytes\<close> the encoding of a key pair.
\<close>

definition hex_encode :: "bytes \<Rightarrow> string" where
  "hex_encode bs = concat (map (\<lambda>b. [''0123456789abcdef'' ! (unat b div 16), ''0123456789abcdef'' ! (unat b mod 16)]) bs)"

definition read_or_generate_keypair ::
  "('tcp, 'tls, 'fs, 'db, 'a) node_transport_scheme \<Rightarrow> 'b alpha_externs_scheme \<Rightarrow> ('fs \<Rightarrow> path \<Rightarrow> (string + string) option)
   \<Rightarrow> (keypair \<Rightarrow> bytes) \<Rightarrow> keypair \<Rightarrow> string \<Rightarrow> 'fs \<Rightarrow> (crate_error, keypair) result \<times> 'fs" where
  "read_or_generate_keypair T E open_read to_bytes fresh node_id fs =
     (let tmp_dir = ''/tmp/'' @ node_id; keypair_path = tmp_dir @ ''/'' @ node_id @ ''.keypair'' in
      case fs_create_dir_all T fs tmp_dir of
        (Inl _, fs1) \<Rightarrow> (Panic, fs1)
      | (Inr _, fs1) \<Rightarrow>
          (case open_read fs1 keypair_path of
             Some (Inl e) \<Rightarrow> (Err (ErrIO e), fs1)
           | Some (Inr contents) \<Rightarrow>
               (case hex_decode E contents of
                  Inl _ \<Rightarrow> (Panic, fs1)
                | Inr bs \<Rightarrow> (case keypair_from_bytes E bs of Inl e \<Rightarrow> (Err (ErrDalek e), fs1) | Inr kp \<Rightarrow> (Ok kp, fs1)))
           | None \<Rightarrow>
               (case fs_create_dir_all T fs1 (''/tmp/'' @ node_id) of
                  (Inl _, fs2) \<Rightarrow> (Panic, fs2)
                | (Inr _, fs2) \<Rightarrow>
                    (case file_create_write T fs2 keypair_path (hex_encode (to_bytes fresh)) of
                       (Inl e, fs3) \<Rightarrow> (Err (ErrIO e), fs3)
                     | (Inr _, fs3) \<Rightarrow> (Ok fresh, fs3)))))"

section \<open>The client program\<close>

definition client_upgrader ::
  "('tcp, 'tls, 'fs, 'db, 'a) node_transport_scheme \<Rightarrow> bool \<Rightarrow> path option \<times> path option \<Rightarrow> 'fs
   \<Rightarrow> (program_error, upgrader) result \<times> 'fs" where
  "client_upgrader T use_tls paths fs =
     (if use_tls then
        (case paths of
           (Some cert_path, Some priv_key_path) \<Rightarrow>
             (case get_node_cert T cert_path priv_key_path fs of
                (Ok (cert, key), fs1) \<Rightarrow>
                  (result_bind (unwrap_result (tls_upgraders T cert key)) (\<lambda>ups. Ok (up_client ups)), fs1)
              | (_, fs1) \<Rightarrow> (Panic, fs1))
         | _ \<Rightarrow> (Panic, fs))
      else (Ok TcpUpgrader, fs))"

text \<open>The loop of retries for one amount, and the loop over the amounts.\<close>

fun client_round ::
  "('w \<Rightarrow> request \<Rightarrow> (crate_error, response option) result \<times> 'w) \<Rightarrow> 'a externs_scheme \<Rightarrow> keypair \<Rightarrow> public_key_hash
   \<Rightarrow> u64 \<Rightarrow> nat list \<Rightarrow> cell_hash_t \<Rightarrow> 'w \<Rightarrow> (crate_error, cell_hash_t) result \<times> 'w" where
  "client_round send E kp pkh amount [] h w = (Ok h, w)"
| "client_round send E kp pkh amount (retry # rs) h w =
     st_bind (send w (ReqGetCell h)) (\<lambda>r w1.
       case r of
         Some (RespCellAck (Some cell_in)) \<Rightarrow>
           st_bind (unwrap_result (transfer E \<lparr>to_cell = cell_in, to_recipient_address = pkh, to_change_address = pkh,
                                                to_capacity = amount + 1\<rparr> kp), w1) (\<lambda>transfer_tx w2.
           st_bind (send w2 (ReqGenerateTx transfer_tx)) (\<lambda>r' w3.
             case r' of
               Some (RespGenerateTxAck (Some _)) \<Rightarrow> (Ok (cell_hash E transfer_tx), w3)
             | _ \<Rightarrow> (Panic, w3)))
       | _ \<Rightarrow> if retry = 10 then (Panic, w1) else client_round send E kp pkh amount rs h w1)"

fun client_transfers ::
  "('w \<Rightarrow> request \<Rightarrow> (crate_error, response option) result \<times> 'w) \<Rightarrow> 'a externs_scheme \<Rightarrow> keypair \<Rightarrow> public_key_hash
   \<Rightarrow> u64 list \<Rightarrow> cell_hash_t \<Rightarrow> 'w \<Rightarrow> (crate_error, cell_hash_t) result \<times> 'w" where
  "client_transfers send E kp pkh [] h w = (Ok h, w)"
| "client_transfers send E kp pkh (amount # as) h w =
     st_bind (client_round send E kp pkh amount [1..<11] h w) (\<lambda>h1 w1. client_transfers send E kp pkh as h1 w1)"

definition loop_count :: "cli_matches \<Rightarrow> u64" where
  "loop_count m = (case value_of m ''loop'' of None \<Rightarrow> 1 | Some s \<Rightarrow> (case parse_u64 s of None \<Rightarrow> 1 | Some k \<Rightarrow> k))"

text \<open>
  The whole program: \<open>net\<close> is the network in a state \<open>w\<close>, and \<open>after\<close> its state when the next request is made.
\<close>

definition client_main ::
  "('w \<Rightarrow> ('tcp, 'tls, 'fs, 'db, 'a) node_transport_scheme) \<Rightarrow> ('w \<Rightarrow> request \<Rightarrow> 'w) \<Rightarrow> 'b alpha_externs_scheme
   \<Rightarrow> cli_matches \<Rightarrow> 'fs \<Rightarrow> 'w \<Rightarrow> (program_error, unit) result \<times> 'fs \<times> 'w" where
  "client_main net after E m fs w =
     (let T = net w; n = loop_count m in
      st_bind (value_t m ''peer'', fs, w) (\<lambda>p s.
      st_bind (value_t m ''keypair'', s) (\<lambda>keypair_hex s.
      st_bind (value_t m ''cell-hash'', s) (\<lambda>cell_hash_hex s.
      st_bind (unwrap_result (parse_id_and_ip E (id_hash T) (fmt_addr T) (resolve_addr T) p), s) (\<lambda>p' s.
      st_bind (tls_paths m, s) (\<lambda>paths s.
      st_bind (case client_upgrader T (is_present m ''use-tls'') paths (fst s) of (r, fs') \<Rightarrow> (r, fs', snd s)) (\<lambda>u s.
        case hex_decode E keypair_hex of
          Inl _ \<Rightarrow> (Panic, s)
        | Inr keypair_bytes \<Rightarrow>
            (case keypair_from_bytes E keypair_bytes of
               Inl _ \<Rightarrow> (Panic, s)
             | Inr kp \<Rightarrow>
                 (case hex_decode E cell_hash_hex of
                    Inl _ \<Rightarrow> (Panic, s)
                  | Inr bs \<Rightarrow>
                      if length bs < 32 then (Panic, s)
                      else
                        (case client_transfers (\<lambda>w req. (oneshot (client_connect (net w) u) (fst p') (snd p') req, after w req))
                                E kp (public_key_hash_of E (kp_public kp)) (map of_nat [0..<unat n])
                                (hash_of_bytes (take 32 bs)) (snd s) of
                           (r, w') \<Rightarrow> (map_err Failed (result_bind r (\<lambda>_. Ok ())), fst s, w')))))))))))"

section \<open>What the client sends\<close>

text \<open>The state of the network after a list of requests.\<close>

definition after_requests ::
  "('w \<Rightarrow> request \<Rightarrow> 'r \<times> 'w) \<Rightarrow> 'w \<Rightarrow> request list \<Rightarrow> 'w" where
  "after_requests send w reqs = foldl (\<lambda>w req. snd (send w req)) w reqs"

lemma after_requests_simps [simp]:
  "after_requests send w [] = w"
  "after_requests send w (req # reqs) = after_requests send (snd (send w req)) reqs"
  "after_requests send w (reqs @ reqs') = after_requests send (after_requests send w reqs) reqs'"
  by (simp_all add: after_requests_def)

lemma st_bind_split:
  "st_bind p f = (r, s') \<longleftrightarrow>
     (\<exists>a s. p = (Ok a, s) \<and> f a s = (r, s')) \<or> (\<exists>e. p = (Err e, s') \<and> r = Err e) \<or> (p = (Panic, s') \<and> r = Panic)"
  by (auto simp: st_bind_def split: prod.splits result.splits)


lemma client_round_other:
  assumes "send w (ReqGetCell h) = (Ok r, w1)" "\<And>c. r \<noteq> Some (RespCellAck (Some c))"
  shows "client_round send E kp pkh a (k # rs) h w =
    (if k = 10 then (Panic, w1) else client_round send E kp pkh a rs h w1)"
  using assms(2) by (auto simp: assms(1) split: option.splits response.splits)

lemma client_round_found:
  assumes "send w (ReqGetCell h) = (Ok (Some (RespCellAck (Some c))), w1)"
    and "transfer E \<lparr>to_cell = c, to_recipient_address = pkh, to_change_address = pkh, to_capacity = a + 1\<rparr> kp = Ok tx"
  shows "client_round send E kp pkh a (k # rs) h w =
    st_bind (send w1 (ReqGenerateTx tx)) (\<lambda>r' w3.
      case r' of Some (RespGenerateTxAck (Some _)) \<Rightarrow> (Ok (cell_hash E tx), w3) | _ \<Rightarrow> (Panic, w3))"
  using assms by simp

lemma client_round_unspendable:
  assumes "send w (ReqGetCell h) = (Ok (Some (RespCellAck (Some c))), w1)"
    and "\<nexists>tx. transfer E \<lparr>to_cell = c, to_recipient_address = pkh, to_change_address = pkh, to_capacity = a + 1\<rparr> kp = Ok tx"
  shows "client_round send E kp pkh a (k # rs) h w = (Panic, w1)"
  using assms by (cases "transfer E \<lparr>to_cell = c, to_recipient_address = pkh, to_change_address = pkh, to_capacity = a + 1\<rparr> kp") simp_all

text \<open>How a round goes on after its first request.\<close>

lemma client_round_cases:
  assumes "client_round send E kp pkh a (k # rs) h w = (r, w')"
  obtains (stop) "w' = snd (send w (ReqGetCell h))" "\<nexists>x. r = Ok x"
    | (again) "k \<noteq> 10" "client_round send E kp pkh a rs h (snd (send w (ReqGetCell h))) = (r, w')"
    | (submit) c tx where "fst (send w (ReqGetCell h)) = Ok (Some (RespCellAck (Some c)))"
      "transfer E \<lparr>to_cell = c, to_recipient_address = pkh, to_change_address = pkh, to_capacity = a + 1\<rparr> kp = Ok tx"
      "w' = snd (send (snd (send w (ReqGetCell h))) (ReqGenerateTx tx))" "\<And>x. r = Ok x \<Longrightarrow> x = cell_hash E tx"
proof -
  let ?tx = "\<lambda>c. transfer E \<lparr>to_cell = c, to_recipient_address = pkh, to_change_address = pkh, to_capacity = a + 1\<rparr> kp"
  obtain r1 w1 where s: "send w (ReqGetCell h) = (r1, w1)" by fastforce
  consider c tx where "r1 = Ok (Some (RespCellAck (Some c)))" "?tx c = Ok tx"
    | c where "r1 = Ok (Some (RespCellAck (Some c)))" "\<nexists>tx. ?tx c = Ok tx"
    | x where "r1 = Ok x" "\<And>c. x \<noteq> Some (RespCellAck (Some c))" | "\<nexists>x. r1 = Ok x"
    by metis
  then show thesis
  proof cases
    case (1 c tx)
    obtain r2 w2 where s2: "send w1 (ReqGenerateTx tx) = (r2, w2)" by fastforce
    have "w' = w2" "\<And>x. r = Ok x \<Longrightarrow> x = cell_hash E tx"
      using assms[unfolded client_round_found[of send w h c w1 E pkh a kp tx, OF s[unfolded 1(1)] 1(2)] s2]
      by (cases r2; auto split: option.splits response.splits)+
    with s s2 1 submit show thesis by simp
  next
    case (2 c)
    from assms[unfolded client_round_unspendable[of send w h c w1 E pkh a kp, OF s[unfolded 2(1)] 2(2)]] s stop
    show thesis by simp
  next
    case (3 x)
    from assms[unfolded client_round_other[of send w h x w1, OF s[unfolded 3(1)] 3(2)]] s stop again
    show thesis by (auto split: if_splits)
  next
    case 4
    with assms s stop show thesis by (cases r1) auto
  qed
qed

lemma client_round_bounded:
  assumes "client_round send E kp pkh a rs h w = (r, w')"
  shows "\<exists>reqs. w' = after_requests send w reqs \<and> length reqs \<le> Suc (length rs)"
  using assms
proof (induction rs arbitrary: w)
  case Nil
  then show ?case by (intro exI[of _ "[]"]) simp
next
  case (Cons k rs)
  from Cons.prems show ?case
  proof (cases rule: client_round_cases)
    case stop
    then show ?thesis by (intro exI[of _ "[ReqGetCell h]"]) simp
  next
    case again
    from Cons.IH[OF again(2)] obtain reqs where
      "w' = after_requests send (snd (send w (ReqGetCell h))) reqs" "length reqs \<le> Suc (length rs)" by blast
    then show ?thesis by (intro exI[of _ "ReqGetCell h # reqs"]) simp
  next
    case (submit c tx)
    then show ?thesis by (intro exI[of _ "[ReqGetCell h, ReqGenerateTx tx]"]) simp
  qed
qed

lemma client_transfers_bounded:
  "client_transfers send E kp pkh as h w = (r, w') \<Longrightarrow>
   \<exists>reqs. w' = after_requests send w reqs \<and> length reqs \<le> 11 * length as"
proof (induction as arbitrary: h w)
  case Nil
  then show ?case by (intro exI[of _ "[]"]) simp
next
  case (Cons a as)
  obtain r1 w1 where one: "client_round send E kp pkh a [1..<11] h w = (r1, w1)" by fastforce
  from client_round_bounded[OF one] obtain reqs where reqs: "w1 = after_requests send w reqs" "length reqs \<le> 11" by auto
  show ?case
  proof (cases r1)
    case (Ok h1)
    with Cons.prems one have "client_transfers send E kp pkh as h1 w1 = (r, w')" by simp
    from Cons.IH[OF this] obtain reqs' where "w' = after_requests send w1 reqs'" "length reqs' \<le> 11 * length as" by blast
    with reqs show ?thesis by (intro exI[of _ "reqs @ reqs'"]) simp
  qed (use Cons.prems one reqs in \<open>auto intro!: exI[of _ reqs]\<close>)
qed

lemma client_round_gives_up:
  assumes "\<forall>w c. fst (send w (ReqGetCell h)) \<noteq> Ok (Some (RespCellAck (Some c)))"
    and "\<forall>w. \<exists>r. fst (send w (ReqGetCell h)) = Ok r" and "rs \<noteq> []" "last rs = 10" "10 \<notin> set (butlast rs)"
  shows "client_round send E kp pkh a rs h w = (Panic, after_requests send w (replicate (length rs) (ReqGetCell h)))"
  using assms(3-5)
proof (induction rs arbitrary: w)
  case (Cons k rs)
  obtain r w1 where s: "send w (ReqGetCell h) = (Ok r, w1)" using assms(2) by (metis prod.collapse)
  have r: "r \<noteq> Some (RespCellAck (Some c))" for c using assms(1) s by (metis fst_conv)
  note client_round_other[of send, OF s r, of E kp pkh a k rs]
  with Cons s show ?case by (cases "rs = []") auto
qed simp

lemma client_round_Ok:
  assumes "client_round send E kp pkh a rs h w = (Ok h', w')" "rs \<noteq> []" "last rs = 10"
  shows "\<exists>k c tx. k < length rs \<and>
    fst (send (after_requests send w (replicate k (ReqGetCell h))) (ReqGetCell h)) = Ok (Some (RespCellAck (Some c))) \<and>
    transfer E \<lparr>to_cell = c, to_recipient_address = pkh, to_change_address = pkh, to_capacity = a + 1\<rparr> kp = Ok tx \<and>
    h' = cell_hash E tx \<and> w' = after_requests send w (replicate (Suc k) (ReqGetCell h) @ [ReqGenerateTx tx])"
  using assms
proof (induction rs arbitrary: w)
  case (Cons k rs)
  from Cons.prems(1) show ?case
  proof (cases rule: client_round_cases)
    case stop
    then show ?thesis by simp
  next
    case again
    with Cons.prems(2,3) have "rs \<noteq> []" "last rs = 10" by (auto split: if_splits)
    from Cons.IH[OF again(2) this] obtain n c tx where
      "n < length rs"
      "fst (send (after_requests send (snd (send w (ReqGetCell h))) (replicate n (ReqGetCell h))) (ReqGetCell h)) =
         Ok (Some (RespCellAck (Some c)))"
      "transfer E \<lparr>to_cell = c, to_recipient_address = pkh, to_change_address = pkh, to_capacity = a + 1\<rparr> kp = Ok tx"
      "h' = cell_hash E tx"
      "w' = after_requests send (snd (send w (ReqGetCell h))) (replicate (Suc n) (ReqGetCell h) @ [ReqGenerateTx tx])"
      by (elim exE conjE) (rule that)
    then show ?thesis by (intro exI[of _ "Suc n"] exI[of _ c] exI[of _ tx]) simp
  next
    case (submit c tx)
    then show ?thesis by (intro exI[of _ 0] exI[of _ c] exI[of _ tx]) simp
  qed
qed simp

text \<open>Whatever the network answers, the program makes at most eleven requests for each amount.\<close>

lemma st_bind_keeps:
  "P (snd p) \<Longrightarrow> (\<And>a s. p = (Ok a, s) \<Longrightarrow> P (snd (f a s))) \<Longrightarrow> P (snd (st_bind p f))"
  by (cases p; cases "fst p") auto

lemma client_main_bounded:
  fixes fs :: 'fs and w :: 'w
  shows "\<exists>reqs. snd (snd (client_main net after E m fs w)) = foldl after w reqs \<and> length reqs \<le> 11 * unat (loop_count m)"
proof -
  define P where "P s \<longleftrightarrow> (\<exists>reqs. snd s = foldl after w reqs \<and> length reqs \<le> 11 * unat (loop_count m))" for s :: "'fs \<times> 'w"
  have w: "P (x, w)" for x by (auto simp: P_def intro!: exI[of _ "[]"])
  have loop: "P (x, snd (client_transfers (\<lambda>w req. (oneshot (client_connect (net w) u) (fst p') (snd p') req, after w req))
      E kp pkh (map of_nat [0..<unat (loop_count m)]) h w))" for x u p' kp pkh h
    using client_transfers_bounded[OF prod.collapse[symmetric], of "\<lambda>w req. (oneshot (client_connect (net w) u) (fst p') (snd p') req, after w req)"
        E kp pkh "map of_nat [0..<unat (loop_count m)]" h w]
    by (simp add: P_def after_requests_def)
  have "P (snd (client_main net after E m fs w))"
    unfolding client_main_def Let_def
    by (intro st_bind_keeps[where P = P]) (auto simp: w loop case_prod_beta split: sum.splits)
  then show ?thesis by (simp add: P_def)
qed

section \<open>Starting a node without a key\<close>

text \<open>The key pair is optional on the command line, but no node starts without one.\<close>

lemma main_needs_keypair:
  assumes "value_of m ''keypair'' = None"
  shows "fst (subzero_main T E m fs) \<noteq> Ok x"
proof -
  have k: "nc_keypair cfg = None" if "main_config E m = Ok cfg" for cfg
    using that assms by (auto simp: main_config_def result_bind_eq_Ok)
  have "fst (run_node T E cfg fs) \<noteq> Ok x" if "nc_keypair cfg = None" for cfg
    using that by (auto simp: run_node_def store_keypair_def st_bind_def split: prod.splits result.splits)
  with k show ?thesis
    by (cases "main_config E m"; cases "fst (run_node T E (unwrap (main_config E m)) fs)") (auto simp: subzero_main_def)
qed

text \<open>
  What a generated key pair needs to be read back: the file has what was written, and the encodings
  of the crates decode.
\<close>

lemma generated_keypair_is_read:
  assumes "read_or_generate_keypair T E open_read to_bytes kp i fs = (Ok kp, fs1)"
    and "open_read (snd (fs_create_dir_all T fs (''/tmp/'' @ i))) (''/tmp/'' @ i @ ''/'' @ i @ ''.keypair'') = None"
    and create: "\<And>fs p. fst (fs_create_dir_all T fs p) = Inr () \<and> open_read (snd (fs_create_dir_all T fs p)) = open_read fs"
    and stored: "\<And>fs p c fs'. file_create_write T fs p c = (Inr (), fs') \<Longrightarrow> open_read fs' p = Some (Inr c)"
    and decode: "\<And>bs. hex_decode E (hex_encode bs) = Inr bs" and key: "\<And>kp. keypair_from_bytes E (to_bytes kp) = Inr kp"
  shows "\<exists>fs2. read_or_generate_keypair T E open_read to_bytes kp' i fs1 = (Ok kp, fs2)"
proof -
  obtain fs2 where d: "fs_create_dir_all T fs (''/tmp/'' @ i) = (Inr (), fs2)" using create by (metis prod.collapse)
  obtain fs3 where d2: "fs_create_dir_all T fs2 (''/tmp/'' @ i) = (Inr (), fs3)" using create by (metis prod.collapse)
  have "file_create_write T fs3 (''/tmp/'' @ i @ ''/'' @ i @ ''.keypair'') (hex_encode (to_bytes kp)) = (Inr (), fs1)"
    using assms(1,2) d d2 by (auto simp: read_or_generate_keypair_def Let_def split: prod.splits sum.splits)
  from stored[OF this] have r: "open_read fs1 (''/tmp/'' @ i @ ''/'' @ i @ ''.keypair'') = Some (Inr (hex_encode (to_bytes kp)))" .
  obtain fs4 where d4: "fs_create_dir_all T fs1 (''/tmp/'' @ i) = (Inr (), fs4)" using create by (metis prod.collapse)
  moreover have "open_read fs4 = open_read fs1" using create[of fs1 "''/tmp/'' @ i"] d4 by simp
  ultimately show ?thesis using r decode key by (simp add: read_or_generate_keypair_def)
qed

section \<open>Transfers\<close>

text \<open>A transfer spends outputs of the cell it is made from.\<close>

lemma consume_loop_inputs:
  "consume_loop E kp h amount idx os i spending residue consumed ins = Ok r \<Longrightarrow>
   \<forall>x \<in> set ins. oi_cell_hash (in_output_index x) = h \<Longrightarrow> \<forall>x \<in> set (cr_inputs r). oi_cell_hash (in_output_index x) = h"
  by (induction E kp h amount idx os i spending residue consumed ins rule: consume_loop.induct)
     (auto simp: Let_def input_new_def output_index_new_def split: if_splits)

lemma transfer_inputs:
  assumes "transfer E op kp = Ok tx" "x \<in> set (inputs tx)"
  shows "oi_cell_hash (in_output_index x) = cell_hash E (to_cell op)"
proof -
  from assms(1) obtain r where r: "consume_from_cell E (to_cell op) (to_capacity op) kp = Ok r" "set (inputs tx) = set (cr_inputs r)"
    by (auto simp: transfer_eq result_bind_eq_Ok cell_new_def)
  then obtain owned idx where
    "consume_loop E kp (cell_hash E (to_cell op)) (to_capacity op) idx owned 0 (to_capacity op) 0 0 [] = Ok r"
    by (auto simp: consume_from_cell_def Let_def result_bind_eq_Ok split: if_splits)
  from consume_loop_inputs[OF this] r(2) assms(2) show ?thesis by simp
qed

end
