(* ===== verification/Programs_Theorems.thy ===== *)
theory Programs_Theorems
  imports Programs
begin

text \<open>
  The client program (\<^verbatim>\<open>bin/client_test.rs\<close>) against a peer: the locale \<open>cell_service\<close> is what it relies on, and
  a node, with its other messages interleaved by an arbitrary schedule, provides it.
\<close>

section \<open>The service the client relies on\<close>

text \<open>
  A peer that answers with the cell it was asked for. What the client does with such a peer: it submits a
  chain of transfers, each spending only outputs of the one before.
\<close>

definition chain_requests :: "nat list \<Rightarrow> cell_hash_t list \<Rightarrow> cell list \<Rightarrow> request list" where
  "chain_requests ks hs txs =
     concat (map (\<lambda>(k, h, tx). replicate (Suc k) (ReqGetCell h) @ [ReqGenerateTx tx]) (zip ks (zip hs txs)))"

lemma chain_requests_Cons [simp]:
  "chain_requests (k # ks) (h # hs) (tx # txs) = replicate (Suc k) (ReqGetCell h) @ ReqGenerateTx tx # chain_requests ks hs txs"
  by (simp add: chain_requests_def)

lemma chain_requests_Nil [simp]: "chain_requests [] hs txs = []"
  by (simp add: chain_requests_def)

definition is_chain :: "'a externs_scheme \<Rightarrow> keypair \<Rightarrow> public_key_hash \<Rightarrow> u64 list \<Rightarrow> cell_hash_t \<Rightarrow> cell list \<Rightarrow> bool" where
  "is_chain E kp pkh as h txs \<longleftrightarrow> length txs = length as \<and>
     (\<forall>j < length as. (\<exists>c. cell_hash E c = (h # map (cell_hash E) txs) ! j \<and>
        transfer E \<lparr>to_cell = c, to_recipient_address = pkh, to_change_address = pkh, to_capacity = as ! j + 1\<rparr> kp = Ok (txs ! j)) \<and>
      (\<forall>x \<in> set (inputs (txs ! j)). oi_cell_hash (in_output_index x) = (h # map (cell_hash E) txs) ! j))"

lemma is_chain_Cons:
  assumes "cell_hash E c = h" "is_chain E kp pkh as (cell_hash E tx) txs"
    and "transfer E \<lparr>to_cell = c, to_recipient_address = pkh, to_change_address = pkh, to_capacity = a + 1\<rparr> kp = Ok tx"
  shows "is_chain E kp pkh (a # as) h (tx # txs)"
  using assms transfer_inputs[OF assms(3)] by (auto simp: is_chain_def All_less_Suc2)

locale cell_service =
  fixes send :: "'w \<Rightarrow> request \<Rightarrow> (crate_error, response option) result \<times> 'w"
    and E :: "'a externs_scheme" and ok :: "'w \<Rightarrow> bool"
  assumes answers: "ok w \<Longrightarrow> fst (send w (ReqGetCell h)) = Ok (Some (RespCellAck (Some c))) \<Longrightarrow> cell_hash E c = h"
    and keeps_get: "ok w \<Longrightarrow> ok (snd (send w (ReqGetCell h)))"
    and keeps_generate: "ok w \<Longrightarrow> ok (snd (send w (ReqGenerateTx tx)))"
begin

lemma keeps_gets: "ok w \<Longrightarrow> ok (after_requests send w (replicate k (ReqGetCell h)))"
  by (induction k arbitrary: w) (auto intro: keeps_get)

lemma transfers_form_chain:
  assumes "ok w" "client_transfers send E kp pkh as h w = (Ok h', w')"
  shows "\<exists>ks txs. length ks = length as \<and> (\<forall>k \<in> set ks. k < 10) \<and> is_chain E kp pkh as h txs \<and>
    h' = last (h # map (cell_hash E) txs) \<and>
    w' = after_requests send w (chain_requests ks (h # map (cell_hash E) txs) txs)"
  using assms
proof (induction as arbitrary: h w)
  case Nil
  then show ?case by (intro exI[of _ "[]"]) (simp add: is_chain_def)
next
  case (Cons a as)
  then obtain h1 w1 where one: "client_round send E kp pkh a [1..<11] h w = (Ok h1, w1)"
    and rest: "client_transfers send E kp pkh as h1 w1 = (Ok h', w')"
    by (auto simp: st_bind_split)
  have "[1..<11] \<noteq> []" "last [1..<11] = (10 :: nat)" by simp_all
  from client_round_Ok[OF one this] obtain k c tx where
    k: "k < 10" and c: "fst (send (after_requests send w (replicate k (ReqGetCell h))) (ReqGetCell h)) = Ok (Some (RespCellAck (Some c)))"
    and tx: "transfer E \<lparr>to_cell = c, to_recipient_address = pkh, to_change_address = pkh, to_capacity = a + 1\<rparr> kp = Ok tx"
    and h1: "h1 = cell_hash E tx" and w1: "w1 = after_requests send w (replicate (Suc k) (ReqGetCell h) @ [ReqGenerateTx tx])"
    by (auto simp del: replicate_Suc)
  have "ok w1" using keeps_generate[OF keeps_gets[OF Cons.prems(1)]] by (simp add: w1 del: replicate_Suc)
  from Cons.IH[OF this rest] obtain ks txs where
    r: "length ks = length as" "\<forall>k \<in> set ks. k < 10" "is_chain E kp pkh as h1 txs" "h' = last (h1 # map (cell_hash E) txs)"
    "w' = after_requests send w1 (chain_requests ks (h1 # map (cell_hash E) txs) txs)"
    by (elim exE conjE) (rule that)
  have "is_chain E kp pkh (a # as) h (tx # txs)"
    using is_chain_Cons[OF answers[OF keeps_gets[OF Cons.prems(1)] c] r(3)[unfolded h1] tx] .
  with r k h1 w1 show ?case
    by (intro exI[of _ "k # ks"] exI[of _ "tx # txs"]) (simp del: replicate_Suc)
qed

end


section \<open>A node as the peer\<close>

text \<open>
  The other messages of the transaction consensus that a node handles between two requests of the client, in
  any order: \<open>handle_event\<close> is the state that the handler leaves, also when it fails.
\<close>

datatype sleet_event =
    EvGenerate cell
  | EvQuery nat query_tx
  | EvComplete tx "response list"
  | EvIncomplete tx "response list"
  | EvNewAccepted "tx_hash_t list"
  | EvAncestors "client_response option"
  | EvPending "nat list"
  | EvCommittee "(node_id, socket_addr \<times> weight) hashmap" state
  | EvBootstrap "client_response option"

fun handle_event :: "('db, 'v, 'a) node_externs_scheme \<Rightarrow> 'db sleet \<Rightarrow> sleet_event \<Rightarrow> 'db sleet" where
  "handle_event E st (EvGenerate c) = fst (snd (generate_tx E c st))"
| "handle_event E st (EvQuery chan q) = fst (snd (handle_query_tx E chan q st))"
| "handle_event E st (EvComplete t acks) = fst (snd (query_complete E t acks st))"
| "handle_event E st (EvIncomplete t acks) = fst (snd (query_incomplete E t acks st))"
| "handle_event E st (EvNewAccepted hs) = fst (snd (new_accepted E hs st))"
| "handle_event E st (EvAncestors res) = fst (snd (ask_for_ancestors_response E res st))"
| "handle_event E st (EvPending gone) = fst (snd (check_pending E (\<lambda>chan. chan \<in> set gone) st))"
| "handle_event E st (EvCommittee vs s) = fst (snd (sleet_live_committee E vs (live_cells_map E s) st))"
| "handle_event E st (EvBootstrap res) = fst (snd (bootstrap_response res st))"

type_synonym 'db scheduled_node = "'db node \<times> sleet_event list list"

fun pause_client :: "('db, 'v, 'a) node_externs_scheme \<Rightarrow> 'db scheduled_node \<Rightarrow> 'db scheduled_node" where
  "pause_client E (nd, []) = (nd, [])"
| "pause_client E (nd, evs # sched) = (nd\<lparr>nd_sleet := foldl (handle_event E) (nd_sleet nd) evs\<rparr>, sched)"

text \<open>A handler that fails closes the connection.\<close>

definition node_service ::
  "('db, 'v, 'a) node_externs_scheme \<Rightarrow> nat \<Rightarrow> node_id \<Rightarrow> bool \<Rightarrow> 'db scheduled_node \<Rightarrow> request
   \<Rightarrow> (crate_error, response option) result \<times> 'db scheduled_node" where
  "node_service E chan i check_peer s req =
     (case route_request E chan i check_peer req (fst s) of
        Some (r, nd, _, _) \<Rightarrow> (Ok (case r of Ok (Respond resp) \<Rightarrow> Some resp | _ \<Rightarrow> None), pause_client E (nd, snd s))
      | None \<Rightarrow> (Ok None, s))"

text \<open>The live cells are found under their hashes, and no handler changes that.\<close>

definition live_cells_ok :: "'a externs_scheme \<Rightarrow> 'db sleet \<Rightarrow> bool" where
  "live_cells_ok E st = (\<forall>(h, c) \<in> set (bm_elems (sl_live_cells st)). cell_hash E c = h)"

lemma live_cells_on [simp]:
  "sl_live_cells (snd (on_cg p st)) = sl_live_cells st"
  "sl_live_cells (snd (on_dag q st)) = sl_live_cells st"
  "sl_live_cells (snd (on_db d st)) = sl_live_cells st"
  by (simp_all add: on_cg_def on_dag_def on_db_def)

lemma live_cells_st_bind:
  assumes "sl_live_cells (snd p) = sl_live_cells st" "\<And>a st1. p = (Ok a, st1) \<Longrightarrow> sl_live_cells (snd (f a st1)) = sl_live_cells st1"
  shows "sl_live_cells (snd (st_bind p f)) = sl_live_cells st"
  using assms by (cases p; cases "fst p") auto

lemma live_cells_st_unwrap [simp]: "sl_live_cells (snd (st_unwrap p)) = sl_live_cells (snd p)"
  by (simp add: st_unwrap_def)

lemma live_cells_sends [simp]: "sl_live_cells (fst (snd (sends p effs))) = sl_live_cells (snd p)"
  by (cases p; cases "fst p") (auto simp: sends_def)

lemma live_cells_on_receive_tx [simp]: "sl_live_cells (snd (on_receive_tx E st t)) = sl_live_cells st"
  by (auto simp: on_receive_tx_def sleet_insert_def Let_def intro!: live_cells_st_bind split: result.splits bool.splits)

lemma live_cells_update_preferences [simp]: "sl_live_cells (snd (update_preferences st hs)) = sl_live_cells st"
  by (induction st hs rule: update_preferences.induct) (auto intro!: live_cells_st_bind split: result.splits)

lemma live_cells_reset_counts [simp]: "sl_live_cells (snd (reset_counts st hs)) = sl_live_cells st"
  by (induction st hs rule: reset_counts.induct) (auto intro!: live_cells_st_bind)

lemma live_cells_reject_txs [simp]: "sl_live_cells (snd (reject_txs E hs ch st)) = sl_live_cells st"
  by (induction hs arbitrary: ch st) (auto intro!: live_cells_st_bind)

lemma live_cells_remove_progeny [simp]: "sl_live_cells (snd (remove_progeny E hs st)) = sl_live_cells st"
proof (induction E hs st rule: remove_progeny.induct)
  case (2 E h hs st)
  let ?p = "st_bind (on_db (set_tx_status E (sl_known_txs st) h TxRemoved) st) (\<lambda>_ st1. on_cg (remove_cell E (sl_conflict_graph st1) h) st1)"
  have "sl_live_cells (snd ?p) = sl_live_cells st" by (auto intro!: live_cells_st_bind)
  with 2 show ?case by (auto split: prod.splits result.splits)
qed simp

lemma live_cells_remove_conflicts [simp]: "sl_live_cells (snd (remove_conflicts E st t)) = sl_live_cells st"
  by (auto simp: remove_conflicts_def intro!: live_cells_st_bind)

lemma live_cells_prune [simp]: "sl_live_cells (snd (prune_at_accepted_frontier E st)) = sl_live_cells st"
  by (auto simp: prune_at_accepted_frontier_def compute_accepted_frontier_def Let_def intro!: live_cells_st_bind split: result.splits)

lemma live_cells_accept_txs [simp]: "sl_live_cells (snd (accept_txs E ts new memo st)) = sl_live_cells st"
proof (induction E ts new memo st rule: accept_txs.induct)
  case (2 E t ts new memo st)
  then show ?case
    by (auto intro!: live_cells_st_bind split: result.splits bool.splits option.splits)
qed simp

lemma live_cells_resolve_accepted [simp]: "sl_live_cells (snd (resolve_accepted E hs cs st)) = sl_live_cells st"
proof (induction hs arbitrary: cs st)
  case (Cons h hs)
  have "sl_live_cells st1 = sl_live_cells st" if "remove_conflicts E st t = (r, st1)" for t r st1
    using live_cells_remove_conflicts[of E st t] that by simp
  with Cons show ?case by (auto split: result.splits prod.splits)
qed simp

lemma live_cells_mark_queried [simp]: "sl_live_cells (snd (mark_queried E t st)) = sl_live_cells st"
  by (simp add: mark_queried_def)

lemma live_cells_insert_frontier [simp]: "sl_live_cells (snd (insert_frontier ts st)) = sl_live_cells st"
  by (induction ts arbitrary: st) (auto intro!: live_cells_st_bind)

lemma on_receive_tx_live_cells: "on_receive_tx E st t = (r, st1) \<Longrightarrow> sl_live_cells st1 = sl_live_cells st"
  using live_cells_on_receive_tx[of E st t] by simp

lemma live_cells_generate_tx [simp]: "sl_live_cells (fst (snd (generate_tx E c st))) = sl_live_cells st"
  by (auto simp: generate_tx_def Let_def dest: on_receive_tx_live_cells split: result.splits bool.splits prod.splits)

lemma live_cells_handle_query_tx [simp]: "sl_live_cells (fst (snd (handle_query_tx E chan q st))) = sl_live_cells st"
  by (auto simp: handle_query_tx_def Let_def dest: on_receive_tx_live_cells split: result.splits sleet_error.splits prod.splits)

lemma live_cells_receive_ancestors [simp]: "sl_live_cells (fst (snd (receive_ancestors E ts effs st))) = sl_live_cells st"
  by (induction E ts effs st rule: receive_ancestors.induct)
     (auto dest: on_receive_tx_live_cells split: result.splits bool.splits prod.splits)

lemma live_cells_check_pending_loop [simp]:
  "sl_live_cells (fst (snd (check_pending_loop E is_closed qs rem effs st))) = sl_live_cells st"
  by (induction E is_closed qs rem effs st rule: check_pending_loop.induct)
     (auto dest: on_receive_tx_live_cells split: result.splits bool.splits prod.splits)


lemma hm_insert_values: "set (hm_insert k v m) \<subseteq> insert (k, v) (set m)"
  by (induction m) (auto split: if_splits)

lemma hm_remove_values: "set (hm_remove k m) \<subseteq> set m"
  by (auto simp: AList.delete_eq)

lemma bounded_map_insert_values:
  assumes "bounded_map_insert k v m = Some m'"
  shows "set (bm_elems m') \<subseteq> insert (k, v) (set (bm_elems m))"
proof -
  consider "bm_elems m' = hm_insert k v (bm_elems m)" | x where "bm_elems m' = hm_remove x (hm_insert k v (bm_elems m))"
    using assms by (auto simp: bounded_map_insert_def Let_def split: if_splits list.splits)
  then show ?thesis
    by cases (use hm_insert_values[of k v "bm_elems m"] hm_remove_values[of _ "hm_insert k v (bm_elems m)"] in \<open>simp, fastforce\<close>)
qed

lemma live_cells_ok_insert:
  "live_cells_ok E st \<Longrightarrow> bounded_map_insert (cell_hash E c) c (sl_live_cells st) = Some m \<Longrightarrow>
   live_cells_ok E (st\<lparr>sl_live_cells := m\<rparr>)"
  by (auto simp: live_cells_ok_def dest!: bounded_map_insert_values)

lemma live_cells_ok_cong: "sl_live_cells st' = sl_live_cells st \<Longrightarrow> live_cells_ok E st' = live_cells_ok E st"
  by (simp add: live_cells_ok_def)

lemma query_succeeded_live_cells:
  assumes "live_cells_ok E st"
  shows "live_cells_ok E (snd (query_succeeded E t st))"
proof -
  obtain r1 :: "(sleet_error, unit) result" and st1 where
    a: "st_unwrap (on_dag (set_chit (sl_dag st) (tx_hash E t) 1) st) = (r1, st1)" by fastforce
  obtain r2 :: "(sleet_error, unit) result" and st2 where
    b: "st_unwrap (update_ancestral_preference st1 (tx_hash E t)) = (r2, st2)" by fastforce
  have st1: "sl_live_cells st1 = sl_live_cells st" using a by (metis live_cells_on(2) live_cells_st_unwrap snd_conv)
  have st2: "sl_live_cells st2 = sl_live_cells st1"
    using b by (metis live_cells_update_preferences live_cells_st_unwrap snd_conv update_ancestral_preference_def)
  note ok = assms[folded live_cells_ok_cong[OF st1, of E]]
  note ok2 = ok[folded live_cells_ok_cong[OF st2, of E]]
  have 3: "live_cells_ok E (snd (st_bind (insert_live_cell E (tx_cell t) st2) (\<lambda>_ st3. compute_accepted_txs E st3 (tx_hash E t))))"
    using live_cells_ok_insert[OF ok2] ok2
    by (auto simp: insert_live_cell_def compute_accepted_txs_def live_cells_ok_cong[OF live_cells_accept_txs] split: option.splits)
  have "live_cells_ok E (snd (st_bind (r2, st2) (\<lambda>_ st2.
      st_bind (insert_live_cell E (tx_cell t) st2) (\<lambda>_ st3. compute_accepted_txs E st3 (tx_hash E t)))))"
    using 3 ok2 by (cases r2) simp_all
  with ok show ?thesis by (cases r1) (simp_all add: query_succeeded_def a b)
qed

lemma query_failed_live_cells: "sl_live_cells (snd (query_failed E t st)) = sl_live_cells st"
  by (auto simp: query_failed_def reset_ancestor_confidence_def intro!: live_cells_st_bind)

lemma live_cells_ok_bind:
  assumes "live_cells_ok E (snd p)" "\<And>a st1. p = (Ok a, st1) \<Longrightarrow> sl_live_cells (snd (f a st1)) = sl_live_cells st1"
  shows "live_cells_ok E (snd (st_bind p f))"
  using assms live_cells_st_bind[of p "snd p" f] live_cells_ok_cong[of "snd (st_bind p f)" "snd p" E] by simp

lemma live_cells_ok_sends: "live_cells_ok E (fst (snd (sends p effs))) = live_cells_ok E (snd p)"
  by (simp add: live_cells_ok_def)

lemma query_complete_live_cells: "live_cells_ok E st \<Longrightarrow> live_cells_ok E (fst (snd (query_complete E t acks st)))"
  using query_succeeded_live_cells[of E st t] live_cells_ok_cong[OF query_failed_live_cells[of E t st], of E]
  by (auto simp: query_complete_def live_cells_ok_sends split: result.splits
      intro!: live_cells_ok_bind live_cells_st_bind[of "mark_queried E t _"])

lemma add_live_cells_live_cells:
  "\<forall>(h, c) \<in> set cs. cell_hash E c = h \<Longrightarrow> live_cells_ok E st \<Longrightarrow> live_cells_ok E (snd (add_live_cells E cs ids st))"
  by (induction E cs ids st rule: add_live_cells.induct) (auto simp: Let_def split: option.splits dest: live_cells_ok_insert)

lemma live_cells_map_hashes: "\<forall>(h, c) \<in> set (live_cells_map E s). cell_hash E c = h"
proof -
  have "\<forall>(h, c) \<in> set m. cell_hash E c = h \<Longrightarrow>
      \<forall>(h, c) \<in> set (foldl (\<lambda>m (_, c). hm_insert (cell_hash E c) c m) m cs). cell_hash E c = h" for m cs
  proof (induction cs arbitrary: m)
    case (Cons c cs)
    have "\<forall>(h, c) \<in> set (hm_insert (cell_hash E (snd c)) (snd c) m). cell_hash E c = h"
      using Cons.prems hm_insert_values[of "cell_hash E (snd c)" "snd c" m] by auto
    from Cons.IH[OF this] show ?case by (simp add: case_prod_beta)
  qed simp
  from this[of "[]"] show ?thesis by (simp add: live_cells_map_def)
qed

lemma live_cells_query_incomplete [simp]: "sl_live_cells (fst (snd (query_incomplete E t acks st))) = sl_live_cells st"
  by (auto simp: query_incomplete_def reset_ancestor_confidence_def intro!: live_cells_st_bind)

lemma live_cells_new_accepted [simp]: "sl_live_cells (fst (snd (new_accepted E hs st))) = sl_live_cells st"
  by (auto simp: new_accepted_def intro!: live_cells_st_bind)

lemma live_cells_ancestors_response [simp]:
  "sl_live_cells (fst (snd (ask_for_ancestors_response E res st))) = sl_live_cells st"
proof (cases "\<exists>ts. res = Some (OneshotResponse (Some (RespTxAncestors ts)))")
  case True
  then obtain ts where "res = Some (OneshotResponse (Some (RespTxAncestors ts)))" by blast
  with live_cells_receive_ancestors[of E ts "[]" st] show ?thesis
    by (cases "receive_ancestors E ts [] st"; cases "fst (receive_ancestors E ts [] st)")
       (auto simp: ask_for_ancestors_response_def)
next
  case False
  then show ?thesis
    by (auto simp: ask_for_ancestors_response_def split: option.splits client_response.splits response.splits)
qed

lemma live_cells_check_pending [simp]: "sl_live_cells (fst (snd (check_pending E f st))) = sl_live_cells st"
proof -
  obtain r st1 es where
    p: "check_pending_loop E f (rev (sl_pending_queries st)) [] [] (st\<lparr>sl_pending_queries := []\<rparr>) = (r, st1, es)"
    by (metis prod_cases3)
  with live_cells_check_pending_loop[of E f "rev (sl_pending_queries st)" "[]" "[]" "st\<lparr>sl_pending_queries := []\<rparr>"]
  show ?thesis by (cases r) (simp_all add: check_pending_def)
qed

lemma live_cells_bootstrap_response [simp]: "sl_live_cells (fst (snd (bootstrap_response res st))) = sl_live_cells st"
  by (auto simp: bootstrap_response_def Let_def split: option.splits client_response.splits result.splits)

lemma live_committee_live_cells:
  "live_cells_ok E st \<Longrightarrow> live_cells_ok E (fst (snd (sleet_live_committee E vs (live_cells_map E s) st)))"
  using add_live_cells_live_cells[OF live_cells_map_hashes, of E st s cell_ids_empty]
  by (auto simp: sleet_live_committee_def live_cells_ok_sends intro!: live_cells_ok_bind)

lemma handle_event_live_cells: "live_cells_ok E st \<Longrightarrow> live_cells_ok E (handle_event E st ev)"
  by (cases ev) (simp_all add: query_complete_live_cells live_committee_live_cells, simp_all add: live_cells_ok_def)

lemma handle_events_live_cells: "live_cells_ok E st \<Longrightarrow> live_cells_ok E (foldl (handle_event E) st evs)"
  by (induction evs arbitrary: st) (auto intro: handle_event_live_cells)

lemma pause_client_live_cells: "live_cells_ok E (nd_sleet (fst s)) \<Longrightarrow> live_cells_ok E (nd_sleet (fst (pause_client E s)))"
  by (cases "(E, s)" rule: pause_client.cases) (auto intro: handle_events_live_cells)

lemma get_cell_live_cells: "live_cells_ok E st \<Longrightarrow> get_cell h st = Some c \<Longrightarrow> cell_hash E c = h"
  by (auto simp: live_cells_ok_def get_cell_def dest!: map_of_SomeD)

interpretation served: cell_service "node_service E chan i check_peer" E "\<lambda>s. live_cells_ok E (nd_sleet (fst s))"
  for E :: "('db, 'v, 'a) node_externs_scheme" and chan i check_peer
proof
  fix s :: "'db scheduled_node" and h c tx
  assume ok: "live_cells_ok E (nd_sleet (fst s))"
  show "cell_hash E c = h" if "fst (node_service E chan i check_peer s (ReqGetCell h)) = Ok (Some (RespCellAck (Some c)))"
    using that ok by (auto simp: node_service_def route_request_def answer_def intro: get_cell_live_cells)
  show "live_cells_ok E (nd_sleet (fst (snd (node_service E chan i check_peer s (ReqGetCell h)))))"
    using ok by (simp add: node_service_def route_request_def answer_def pause_client_live_cells)
  have "live_cells_ok E (fst (snd (generate_tx E tx (nd_sleet (fst s)))))"
    using ok by (simp add: live_cells_ok_def)
  then show "live_cells_ok E (nd_sleet (fst (snd (node_service E chan i check_peer s (ReqGenerateTx tx)))))"
    by (cases "generate_tx E tx (nd_sleet (fst s))")
       (simp add: node_service_def route_request_def from_sleet_def pause_client_live_cells)
qed


section \<open>The client against a node\<close>

text \<open>
  C25: The client program spends a chain of cells. Against a node that handles any other messages of the
  transaction consensus between the requests, whenever the loop over the amounts ends without an error, it has
  submitted one transfer per amount. Each transfer pays the amount plus one to the owner, is made from the cell
  with the hash of the one before, and spends only outputs of it; the first spends the cell given on the command
  line. The requests are, for each transfer, one to ten questions for the cell and then the transfer, and
  nothing else.
\<close>

theorem client_spends_chain:
  assumes "live_cells_ok E (nd_sleet nd)"
    and "client_transfers (node_service E chan i check_peer) E kp pkh as h (nd, sched) = (Ok h', s')"
  shows "\<exists>ks txs. length ks = length as \<and> (\<forall>k \<in> set ks. k < 10) \<and> is_chain E kp pkh as h txs \<and>
    h' = last (h # map (cell_hash E) txs) \<and>
    s' = after_requests (node_service E chan i check_peer) (nd, sched) (chain_requests ks (h # map (cell_hash E) txs) txs)"
  by (rule served.transfers_form_chain) (use assms in simp_all)


text \<open>A node with one live cell of 20 units, and a schedule in which the first transfer wins its query.\<close>

definition funding_cell :: cell where
  "funding_cell = spend_cell [] 20"

definition first_transfer :: cell where
  "first_transfer =
     \<lparr>inputs = [\<lparr>in_output_index = \<lparr>oi_cell_hash = 20, oi_index = 0\<rparr>, in_unlock = \<lparr>us_public_key = 1, us_signature = 1\<rparr>\<rparr>],
      outputs = [\<lparr>capacity = 1, cell_type = Transfer, data = [], lock = 1\<rparr>, \<lparr>capacity = 16, cell_type = Transfer, data = [], lock = 1\<rparr>]\<rparr>"

definition funded_sleet :: "example_db sleet" where
  "funded_sleet = handle_event example_node_externs (sleet_new example_node_externs 1 ([10, 0, 0, 1], 7000) [])
     (EvCommittee [(2, ([10, 0, 0, 2], 7000), Fin 1)] (state_new\<lparr>live_cells := [([5120], funding_cell)]\<rparr>))"

definition funded_node :: "example_db node" where
  "funded_node = \<lparr>nd_view = view_new ([10, 0, 0, 1], 7000) 1, nd_ice = ice_new 1 ([10, 0, 0, 1], 7000) reservoir_new,
     nd_alpha = alpha_create 1 [], nd_sleet = funded_sleet, nd_hail = hail_new example_node_externs 1, nd_validators = []\<rparr>"

definition two_transfers_schedule :: "sleet_event list list" where
  "two_transfers_schedule = [[], [EvComplete (tx_new [] first_transfer)
     [RespQueryTxAck \<lparr>qta_id = 2, qta_tx_hash = 65808, qta_outcome = True\<rparr>]]]"

lemma funded_live_cells: "live_cells_ok example_node_externs (nd_sleet funded_node)"
proof -
  have "live_cells_ok example_node_externs (sleet_new example_node_externs 1 ([10, 0, 0, 1], 7000) [])"
    by (simp add: live_cells_ok_def sleet_new_def bounded_map_new_def)
  from handle_event_live_cells[OF this] show ?thesis by (simp add: funded_node_def funded_sleet_def del: handle_event.simps)
qed


lemma two_transfers:
  "fst (client_transfers (node_service example_node_externs 0 9 False) example_node_externs (example_keypair 1) 1 [0, 1] 20
     (funded_node, two_transfers_schedule)) = Ok 131596"
  by code_simp

theorem client_spends_chain_witness:
  "\<exists>txs. is_chain example_node_externs (example_keypair 1) 1 [0, 1] 20 txs \<and>
     last (20 # map (cell_hash example_node_externs) txs) = 131596"
proof -
  obtain s' where "client_transfers (node_service example_node_externs 0 9 False) example_node_externs (example_keypair 1) 1
      [0, 1] 20 (funded_node, two_transfers_schedule) = (Ok 131596, s')"
    using two_transfers by (metis prod.collapse)
  from client_spends_chain[OF funded_live_cells this] show ?thesis by (elim exE conjE) (metis)
qed

end
