(* ===== verification/Spec2Isabelle.thy ===== *)
theory Spec2Isabelle
  imports Gossip_Theorems Sleet_Theorems Hail_Theorems Node_Safety Porter Programs_Theorems
begin

text \<open>
  The development verifies \<^verbatim>\<open>zfx-subzero\<close>, a node of a proof of stake network in Rust. This theory imports all
  others and has the properties that span components.

  \<^bold>\<open>The program.\<close> A node is a set of actors that exchange messages. \<^verbatim>\<open>view\<close> knows peers and samples them;
  \<^verbatim>\<open>ice\<close> pings sampled peers, gossips about them and decides which are live; \<^verbatim>\<open>alpha\<close> has the chain of
  accepted blocks and, once enough peers are live, hands the validators to the two consensus layers: \<^verbatim>\<open>sleet\<close>
  accepts transactions (cells) by votes on a graph with conflict sets, \<^verbatim>\<open>hail\<close> accepts blocks, one per height.
  The \<^verbatim>\<open>router\<close> passes requests of other nodes and of clients to the actors; the \<^verbatim>\<open>client\<close> sends requests.
  Connections are plain or use TLS, where the hash of the certificate of a peer is its identity.

  \<^bold>\<open>Conventions.\<close> \<open>Prelude\<close> fixes them: \<^verbatim>\<open>u8\<close>, \<^verbatim>\<open>u64\<close> and 32 byte hashes are words, so that arithmetic wraps as
  in a release build; \<^verbatim>\<open>usize\<close> is \<open>nat\<close>; a hash map is an association list and a hash set a list without
  repetitions; \<open>result\<close> has the values \<open>Ok\<close>, \<open>Err\<close> and \<open>Panic\<close>. A method on \<^verbatim>\<open>&mut self\<close> returns its result
  with the state it leaves. A message handler returns, in addition, the messages it sends; one that awaits an
  answer is split at the answer, so that other handlers can run in between. Names are those of the source.

  \<^bold>\<open>Theories and sources.\<close>

  \<^item> \<open>Errors\<close>, \<open>Cells\<close>, \<open>Cell_Operation\<close>: the error enumerations and \<^verbatim>\<open>src/cell/\<close>. Hashes do not depend on the order
    of inputs; \<^verbatim>\<open>consume_from_cell\<close> spends the shortest prefix of the owned outputs that covers the amount.
  \<^item> \<open>Alpha_Ops\<close>, \<open>Alpha_State\<close>, \<open>Dependency_Graph\<close>: \<^verbatim>\<open>coinbase.rs\<close>, \<^verbatim>\<open>transfer.rs\<close>, \<^verbatim>\<open>stake.rs\<close>, \<^verbatim>\<open>block.rs\<close> and
    \<^verbatim>\<open>state.rs\<close> of \<^verbatim>\<open>src/alpha/\<close> and \<^verbatim>\<open>graph/dependency_graph.rs\<close>. Capacity is conserved up to the fee, the genesis
    block is built, the cells of a block are applied producers first.
  \<^item> \<open>Dag\<close>, \<open>Dag_Search\<close>, \<open>Dag_Topo\<close>: \<^verbatim>\<open>graph/dag.rs\<close>. Well-formedness is kept by insertion and removal; the
    searches visit the ancestors (locale \<open>worklist_search\<close>, interpreted on both); conviction is the sum of chits;
    Kahn's algorithm sorts.
  \<^item> \<open>Conflict_Graph\<close>: \<^verbatim>\<open>graph/conflict_graph.rs\<close> and \<^verbatim>\<open>sleet/conflict_set.rs\<close>. The conflict set of a cell is the
    set of cells that share an input, and accepting a cell removes its competitors.
  \<^item> \<open>Util\<close>, \<open>Storage\<close>, \<open>Messages\<close>, \<open>Bounded\<close>, \<open>Sampling\<close>, \<open>Voting\<close>: \<^verbatim>\<open>zfx_id.rs\<close>, \<^verbatim>\<open>util.rs\<close>, \<^verbatim>\<open>src/storage/\<close>, \<^verbatim>\<open>lib.rs\<close>,
    \<^verbatim>\<open>protocol.rs\<close> and \<^verbatim>\<open>version.rs\<close>, \<^verbatim>\<open>sleet_utils.rs\<close> (locale \<open>bounded_cache\<close>), the sampling loop shared by \<^verbatim>\<open>ice\<close> and
    \<^verbatim>\<open>view\<close>, and questions asked of all ancestors (locale \<open>ancestral_question\<close>, interpreted for preference and finality).
    The store of transactions refines a map.
  \<^item> \<open>Sleet_Core\<close>, \<open>Sleet\<close>: the state, methods and handlers of \<^verbatim>\<open>src/sleet/\<close>. \<open>Sleet_Safety\<close>, \<open>Sleet_Conflicts\<close>,
    \<open>Sleet_Finality\<close> and \<open>Sleet_Run\<close> prove what each guarantees, and that \<open>sleet_safe\<close> holds along every run of the step
    relation \<open>sleet_step\<close>; \<open>Sleet_Theorems\<close> has the properties.
  \<^item> \<open>Hail_Committee\<close>, \<open>Hail\<close>, \<open>Hail_Safety\<close>, \<open>Hail_Theorems\<close>: \<^verbatim>\<open>src/hail/\<close> in the same way, with \<open>hail_inv\<close> and \<open>hail_step\<close>.
  \<^item> \<open>Reservoir\<close>, \<open>Dissemination\<close>, \<open>View\<close>, \<open>Ice\<close>: \<^verbatim>\<open>src/ice/\<close> and \<^verbatim>\<open>src/view/\<close>. \<open>Ice_Theorems\<close> and \<open>Gossip_Theorems\<close>: a
    decision takes two responders, a round ends, gossip hands out the rumours told least often.
  \<^item> \<open>Alpha\<close>, \<open>Router\<close>, \<open>Transport\<close>, \<open>Node\<close>: the actor of \<^verbatim>\<open>alpha.rs\<close>, \<^verbatim>\<open>router.rs\<close> and \<^verbatim>\<open>client.rs\<close>, \<^verbatim>\<open>src/tls/\<close> and
    \<^verbatim>\<open>src/channel/\<close>, \<^verbatim>\<open>server.rs\<close> and \<^verbatim>\<open>node.rs\<close>. \<open>Node_Safety\<close>: the committees, the vote on the last accepted block, the
    restart, and \<open>node_ok\<close> along \<open>node_step\<close>, which interleaves the steps of all components.
  \<^item> \<open>Porter\<close>: \<^verbatim>\<open>src/porter/\<close>. \<open>Programs\<close>, \<open>Programs_Theorems\<close>: \<^verbatim>\<open>bin/main.rs\<close> and \<^verbatim>\<open>bin/client_test.rs\<close>; the client runs
    against a node under any schedule of its other messages (locale \<open>cell_service\<close>, interpreted on the node).

  \<^bold>\<open>Parameters.\<close> Code outside \<^verbatim>\<open>src/\<close> is an argument. The records \<open>externs\<close>, \<open>alpha_externs\<close>, \<open>storage_externs\<close> and
  \<open>node_externs\<close> have hashing, signatures, codecs, the database \<^verbatim>\<open>sled\<close>, the rounding of floating point numbers and
  sortition; \<open>transport_externs\<close> and \<open>node_transport\<close> have sockets, TLS sessions, certificates, files and the resolver. What
  the sources rely on are the hypotheses \<open>storage_ok\<close> (the database is a map and the codecs decode), \<open>tls_ok\<close>,
  \<open>certs_ok\<close> and \<open>pqueue_ok\<close>; each holds for the example instances of the witnesses. Hash functions are not assumed to be
  injective. Random choices are arguments of the calls that make them. A floating point number is rational, infinite
  or not a number.

  \<^bold>\<open>Loops.\<close> A loop over a collection is recursion on a list. Work lists that shrink the graph are functions
  with a termination proof. Loops whose end is a property of the state are partial functions with value \<open>None\<close> when they do not
  return (\<open>kahn\<close>, \<open>draw\<close>, \<open>pm_cleanup\<close>, \<open>fetch_run\<close>), and the theorems state when they return. There is
  no fuel. Bounds of the source (three parents, ten retries, the sizes of bounded collections) are those of the source.

  \<^bold>\<open>Admissible inputs.\<close> Safety along runs is stated for messages that satisfy \<open>admissible\<close> and \<open>resolvable\<close> (\<open>Sleet_Run\<close>) or
  \<open>admissible_block\<close> (\<open>Hail_Safety\<close>): a transaction that is new and complete spends known outputs, produces unspent ones and
  has distinct parents, the conflicts of accepted transactions can be removed, and a new block has its parent in the graph.
  Theorems such as \<open>bootstrapped_node_cannot_issue\<close>, \<open>acceptance_switches\<close> and \<open>spent_output_is_spent_again\<close> show what
  the code does beyond them.

  \<^bold>\<open>Not modelled.\<close> Formatting and colours of log output and the \<^verbatim>\<open>Debug\<close> and \<^verbatim>\<open>Display\<close> instances; the conversions \<^verbatim>\<open>From\<close>
  between error types other than as constructors; \<^verbatim>\<open>Deref\<close> instances and handlers that only log; the pass-through of \<^verbatim>\<open>AsyncRead\<close> and
  \<^verbatim>\<open>AsyncWrite\<close> to the socket; binding the listener, threads, timers and signals, which are input and output (a step of a timer is
  an operation that is called); the declaration of command line arguments, which the crate \<^verbatim>\<open>clap\<close> interprets; and test
  code: unit tests, the integration tests of \<^verbatim>\<open>src/integration_test/\<close>, which start processes and observe them from outside,
  and the test vectors in \<^verbatim>\<open>deployment/\<close>.
\<close>

section \<open>A node\<close>

definition live_ice :: ice where
  "live_ice = \<lparr>ic_id = 1, ic_ip = ip_of 1,
     ic_reservoir = \<lparr>rs_quorums = [], rs_decisions = [(2, ip_of 2, Live, 3), (3, ip_of 3, Live, 1)],
                     rs_random_queue = [], rs_nbootstrapped = 1\<rparr>,
     ic_bootstrapped = False\<rparr>"

definition staked_alpha :: "example_db alpha" where
  "staked_alpha = (alpha_create 1 [])\<lparr>al_state := state_new\<lparr>validators := [(1, 10), (2, 30), (3, 40)]\<rparr>\<rparr>"

definition small_node :: "example_db node" where
  "small_node = \<lparr>nd_view = known_view, nd_ice = live_ice, nd_alpha = staked_alpha, nd_sleet = one_tx,
                 nd_hail = hail_new example_node_externs 1, nd_validators = [2]\<rparr>"

definition accepted_genesis :: receive_last_accepted_msg where
  "accepted_genesis = \<lparr>rla_last_block_hash = 5, rla_last_block = block_of 0 5, rla_last_vrf_output = 5,
                       rla_last_accepted = 5\<rparr>"

section \<open>Properties\<close>

text \<open>
  C10: The two consensus layers weigh the same committee. When the chain hands over a validator set with
  distinct identities and no component fails, the committee of \<^verbatim>\<open>sleet\<close> consists of exactly the
  validators other than the node that the liveness protocol confirmed, each with its confirmed address and
  the share of its stake in the stake of the node and the live validators together; and the committee that
  \<^verbatim>\<open>hail\<close> computes on its own from the raw stakes is the same one.
\<close>

theorem committees_agree:
  assumes "distinct (map fst (validators (al_state al)))" "rla_last_block_hash msg = rla_last_accepted msg"
    and "receive_last_accepted E msg al st_ice st_sleet st_hail = (Ok out, st_sleet', st_hail')"
  shows "cm_committee (hl_committee st_hail') = sl_committee st_sleet' \<and>
    sl_committee st_sleet' =
      map (\<lambda>(i, ip, a). (i, ip, percent_of (f64_round E) a (live_total st_ice (validators (al_state al)))))
        (live_others st_ice (validators (al_state al)))"
  using receive_last_accepted_committees(1,2)[OF assms] by simp

lemma accepted_genesis_received:
  "\<exists>sl hl. receive_last_accepted example_node_externs accepted_genesis staked_alpha live_ice
     one_tx (hail_new example_node_externs 1) = (Ok None, sl, hl)"
proof -
  have "fst (receive_last_accepted example_node_externs accepted_genesis staked_alpha live_ice
     one_tx (hail_new example_node_externs 1)) = Ok None" by code_simp
  then show ?thesis by (metis prod.exhaust_sel)
qed

theorem committees_agree_witness:
  "\<exists>sl hl. receive_last_accepted example_node_externs accepted_genesis staked_alpha live_ice
     one_tx (hail_new example_node_externs 1) = (Ok None, sl, hl) \<and>
     sl_committee sl = [(2, ip_of 2, percent_of id 30 40)] \<and> cm_committee (hl_committee hl) = sl_committee sl"
proof -
  obtain sl hl where r: "receive_last_accepted example_node_externs accepted_genesis staked_alpha live_ice
     one_tx (hail_new example_node_externs 1) = (Ok None, sl, hl)" using accepted_genesis_received by blast
  have "distinct (map fst (validators (al_state staked_alpha)))" "rla_last_block_hash accepted_genesis = rla_last_accepted accepted_genesis"
    by (simp_all add: staked_alpha_def accepted_genesis_def)
  from committees_agree[OF this r] r show ?thesis
    by (simp add: staked_alpha_def live_total_def live_ice_def get_live_endpoint_def
        get_endpoint_having_strong_choice_def ICE_BETA1_def)
qed


text \<open>
  C23: A restart restores the chain. On a database that behaves as documented, a node that started once, be it
  by creating the genesis block or by reading it, and starts again on what it stored, comes up in the same state.
\<close>

theorem restart_restores_state:
  assumes "block_store_ok E" "alpha_started E (alpha_create i tree) = (Ok (), al)"
  shows "alpha_started E (alpha_create i (al_tree al)) = (Ok (), al)"
  using assms by (rule alpha_restart)

lemma example_first:
  "case example_ends (sort (map fst db)) db of
     Some (k, v) \<Rightarrow> hm_get db k = Some v \<and> (\<forall>k' v'. hm_get db k' = Some v' \<longrightarrow> k \<le> k')
   | None \<Rightarrow> hm_get db = Map.empty"
proof (cases "sort (map fst db)")
  case Nil
  then have "db = []" by (metis map_is_Nil_conv set_empty set_sort)
  then show ?thesis by (simp add: example_ends_def)
next
  case (Cons k ks)
  have "k \<in> fst ` set db" using Cons by (metis list.set_intros(1) list.set_map set_sort)
  then obtain v where "hm_get db k = Some v" using hm_keys_get by force
  moreover have "k \<le> k'" if "k' \<in> fst ` set db" for k'
  proof -
    have "k' \<in> set (k # ks)" using that Cons by (metis list.set_map set_sort)
    moreover have "sorted (k # ks)" using Cons by (metis sorted_sort)
    ultimately show ?thesis by auto
  qed
  ultimately show ?thesis using Cons hm_get_Some_keys[of db] by (simp add: example_ends_def) blast
qed

lemma example_block_store: "block_store_ok example_storage_externs"
  unfolding block_store_ok_def sled_map_def using example_storage_ok example_first
  by (simp only: example_storage_simps sum.case simp_thms)

definition stored_genesis :: example_db where
  "stored_genesis = [(block_key 0 5, EncBlock (block_of 0 5))]"

theorem restart_restores_state_witness:
  "\<exists>al. alpha_started example_storage_externs (alpha_create 1 stored_genesis) = (Ok (), al) \<and>
     alpha_started example_storage_externs (alpha_create 1 (al_tree al)) = (Ok (), al)"
proof -
  have "fst (alpha_started example_storage_externs (alpha_create 1 stored_genesis)) = Ok ()" by code_simp
  then obtain al where s: "alpha_started example_storage_externs (alpha_create 1 stored_genesis) = (Ok (), al)"
    by (metis prod.exhaust_sel)
  with restart_restores_state[OF example_block_store s] show ?thesis by blast
qed


text \<open>
  A transport without a network: connections are numbers, a session has the certificate with that number, and
  files are a map.
\<close>

definition local_transport :: "(nat, nat, (path, bytes) hashmap, example_db) node_transport" where
  "local_transport =
     \<lparr>id_hash = foldl (\<lambda>h b. 256 * h + ucast b) 0, fmt_addr = (\<lambda>(ip, p). ip @ [ucast p]),
      tcp_connect = (\<lambda>(ip, p). Inr (unat p)), tcp_local_addr = (\<lambda>_. Inr (ip_of 0)), tcp_peer_addr = (\<lambda>n. Inr (ip_of (of_nat n))),
      single_cert_ok = (\<lambda>_ _. True), tls_connect = (\<lambda>_ n. Inr n), tls_accept = (\<lambda>_ n. Inr n), tls_tcp = (\<lambda>n. n),
      tls_peer_certificates = (\<lambda>n. Some [[of_nat n]]),
      fs_exists = (\<lambda>fs p. hm_get fs p \<noteq> None),
      fs_read = (\<lambda>fs p. case hm_get fs p of Some bs \<Rightarrow> Inr bs | None \<Rightarrow> Inl ''not found''),
      fs_write = (\<lambda>fs p bs. (Inr (), hm_insert p bs fs)), fs_parent = (\<lambda>_. None), fs_create_dir_all = (\<lambda>fs _. (Inr (), fs)),
      pem_parse = (\<lambda>bs. Inr (tl bs)), pem_encode = (\<lambda>_ bs. 0 # bs), x509_from_der = (\<lambda>_. Inr ()),
      rcgen_key_pair = Inr [7], rcgen_certificate = (\<lambda>_ k. Inr (k @ k, k)),
      read_request = (\<lambda>_. Inr (Some ReqGetCellHashes)), write_response = (\<lambda>_ _. Inr ()), write_request = (\<lambda>_ _. Inr ()),
      read_response = (\<lambda>_ _. Inr (Some RespUnknown)), resolve_addr = (\<lambda>_. Some [ip_of 1]),
      sled_open = (\<lambda>fs _. (Inr [], fs)), file_create_write = (\<lambda>fs _ _. (Inr (), fs))\<rparr>"



text \<open>
  Over TLS a peer is its certificate. Every connection a node accepts has one, and a request on it is routed
  under the hash of the first certificate, with the check of that identity switched on; a missing identity cannot
  stop the server.
\<close>

theorem tls_peer_is_its_certificate:
  assumes "tls_ok T" "tls_upgraders T cert key = Ok ups"
    and "upgrade T (up_server ups) stream = Inr conn" "read_request T conn = Inr (Some req)"
  shows "\<exists>s c cs. conn = TlsServer s \<and> tls_peer_certificates T s = Some (c # cs) \<and>
    process_stream T E chan (up_server ups) stream nd = serve_request T E chan (id_new (id_hash T) c) True conn req nd"
  using assms by (rule process_stream_tls)

lemma local_tls: "tls_ok local_transport"
  by (simp add: tls_ok_def local_transport_def)

lemma local_upgraders: "\<exists>ups. tls_upgraders local_transport [5] [6] = Ok ups \<and> upgrader_is_tls (up_server ups) \<and>
    upgrade local_transport (up_server ups) 9 = Inr (TlsServer 9)"
  by (simp add: tls_upgraders_def tls_client_upgrader_new_def tls_server_upgrader_new_def client_tls_config_def
      server_tls_config_def upgrade_def tls_server_upgrade_def upgrader_is_tls_def local_transport_def)

theorem tls_peer_is_its_certificate_witness:
  "\<exists>ups. tls_upgraders local_transport [5] [6] = Ok ups \<and>
     process_stream local_transport example_node_externs 0 (up_server ups) 9 small_node =
       serve_request local_transport example_node_externs 0 9 True (TlsServer 9) ReqGetCellHashes small_node"
proof -
  obtain ups where u: "tls_upgraders local_transport [5] [6] = Ok ups"
    "upgrade local_transport (up_server ups) 9 = Inr (TlsServer 9)" using local_upgraders by blast
  have "read_request local_transport (TlsServer 9) = Inr (Some ReqGetCellHashes)" by (simp add: local_transport_def)
  from tls_peer_is_its_certificate[OF local_tls u this, where nd = small_node and E = example_node_externs and chan = 0] u(1)
  show ?thesis by (auto simp: local_transport_def id_new_def)
qed




text \<open>
  C22: An answer comes from the node that was asked. Over TLS, a request that is answered was sent to, and answered
  by, a peer at the given address that presented a certificate with the expected identity.
\<close>

theorem oneshot_authenticates:
  assumes "tls_upgraders T cert key = Ok ups" "oneshot (client_connect T (up_client ups)) i ip req = Ok r"
  shows "\<exists>sock s c cs. tcp_connect T ip = Inr sock \<and> upgrade T (up_client ups) sock = Inr (TlsClient s) \<and>
    tls_peer_certificates T s = Some (c # cs) \<and> id_new (id_hash T) c = i \<and> client_exchange T (TlsClient s) req = Ok r"
proof -
  obtain cfg where cfg: "up_client ups = TlsClientUpgrader cfg" using tls_upgraders_kinds[OF assms(1)] by auto
  from oneshot_over_tls[OF assms(2)[unfolded cfg]] show ?thesis
    by (auto simp: cfg upgrade_def tls_client_upgrade_def)
qed

theorem oneshot_authenticates_witness:
  "\<exists>ups c. tls_upgraders local_transport [5] [6] = Ok ups \<and>
     oneshot (client_connect local_transport (up_client ups)) 9 ([10, 0, 0, 9], 9) ReqGetCellHashes = Ok (Some RespUnknown) \<and>
     id_new (id_hash local_transport) c = 9"
proof -
  obtain ups where u: "tls_upgraders local_transport [5] [6] = Ok ups" using local_upgraders by blast
  have o: "oneshot (client_connect local_transport (up_client ups)) 9 ([10, 0, 0, 9], 9) ReqGetCellHashes = Ok (Some RespUnknown)"
    using u by (auto simp: tls_upgraders_def tls_client_upgrader_new_def tls_server_upgrader_new_def client_tls_config_def
      server_tls_config_def oneshot_def client_connect_def of_sum_def upgrade_def tls_client_upgrade_def stream_is_tls_def
      stream_get_id_def id_from_client_connection_def id_from_first_cert_def id_new_def client_exchange_def channel_wrap_def
      channel_split_def channel_send_def channel_recv_def local_transport_def)
  from oneshot_authenticates[OF u o] u o show ?thesis by blast
qed

text \<open>
  A node keeps its identity. When the certificate and the key have files of their own, a node that obtained
  its certificate, be it from the files or by generating it, obtains the same one the next time.
\<close>

theorem node_cert_is_stable:
  assumes "certs_ok T" "cf \<noteq> kf" "get_node_cert T cf kf fs = (Ok x, fs')"
  shows "get_node_cert T cf kf fs' = (Ok x, fs')"
  using assms by (rule get_node_cert_again)

theorem node_cert_is_stable_witness:
  "\<exists>fs'. get_node_cert local_transport ''a.crt'' ''a.key'' [] = (Ok ([7, 7], [7]), fs') \<and>
     get_node_cert local_transport ''a.crt'' ''a.key'' fs' = (Ok ([7, 7], [7]), fs')"
proof -
  have ok: "certs_ok local_transport" by (auto simp: certs_ok_def local_transport_def)
  obtain fs' where g: "get_node_cert local_transport ''a.crt'' ''a.key'' [] = (Ok ([7, 7], [7]), fs')"
    by (simp add: get_node_cert_def generate_node_cert_def create_parent_def write_file_def of_sum_def local_transport_def)
  from node_cert_is_stable[OF ok _ g] g show ?thesis by auto
qed

end
